(* ===== verification/Prelude.thy ===== *)
theory Prelude
  imports Main "HOL-Library.Word" "HOL-Library.Sublist"
begin

text \<open>
  Shared vocabulary of the development: fallible results, Python exceptions, Python values,
  insertion-ordered dictionaries, byte strings with slices, big-endian integers and UTF-8.
  Every component theory imports this one.

  \<^item> A Python call that may raise is a value of \<open>py_exc + 'a\<close> (\<open>Inl\<close> the exception).
  \<^item> A Python \<open>str\<close> is its list of code points (\<open>pystr\<close>); \<open>S ''abc''\<close> is a literal.
  \<^item> \<open>bytes\<close> is a list of 8-bit words; Python slices are \<open>pyslice\<close>.
  \<^item> An exception carries the literal text of its message, with \<open>{}\<close> for each interpolated
    value (all but the few exceptions whose fields the program reads back).
\<close>

named_theorems codec_simps \<open>round trips and lengths of the field codecs\<close>
named_theorems py_simps \<open>evaluation of Python conversions on the values the program builds\<close>
named_theorems inv_intros \<open>preservation of component invariants\<close>

section \<open>Strings and bytes\<close>

type_synonym byte = "8 word"
type_synonym bytes = "byte list"
type_synonym pystr = "nat list"

definition S :: "string \<Rightarrow> pystr" where
  "S s = map of_char s"

lemma S_eq_iff [simp]: "S a = S b \<longleftrightarrow> a = b"
proof -
  have "inj (of_char :: char \<Rightarrow> nat)" by (rule inj_of_char)
  then show ?thesis unfolding S_def by (simp add: inj_eq inj_map)
qed

lemma S_append [simp]: "S (a @ b) = S a @ S b"
  by (simp add: S_def)

lemma S_Nil_iff [simp]: "S a = [] \<longleftrightarrow> a = []" "[] = S a \<longleftrightarrow> a = []"
  by (auto simp: S_def)

lemma length_S [simp]: "length (S a) = length a"
  by (simp add: S_def)

section \<open>Python values and exceptions\<close>

text \<open>
  The dynamically typed values (\<open>Any\<close>) that reach the wire code. A float is its IEEE-754
  binary64 pattern; a \<open>Decimal\<close> is coefficient and exponent (\<open>VDecimalSpecial\<close>: NaN and
  infinities); a \<open>datetime\<close> is \<open>int(value.timestamp())\<close>; \<open>VOther\<close> is any other object.
\<close>

datatype pyval =
    VNone
  | VBool bool
  | VInt int
  | VFloat "64 word"
  | VStr pystr
  | VBytes bytes
  | VList "pyval list"
  | VTuple "pyval list"
  | VDict "(pystr \<times> pyval) list"
  | VDecimal int int
  | VDecimalSpecial
  | VDatetime int
  | VOther

type_synonym pydict = "(pystr \<times> pyval) list"

datatype py_exc =
    AmqpCodecError string
  | ProtocolError string
  | ConnectionLost string
  | ConnectionBlockedError string
  | PublishNack int bool
  | PublishReturned int pystr pystr pystr bytes pydict
  | InvalidIdError string
  | IdCollisionError string
  | NamespaceError string
  | RpcError int pystr "pydict option" "pystr option"
  | NackDelivery bool
  | ValueError string
  | TypeError string
  | AttributeError string
  | KeyError string
  | IndexError string
  | OverflowError string
  | UnicodeError string
  | JsonDecodeError string
  | RuntimeError string
  | TimeoutError
  | CancelledError
  | OtherError string
  | Unmodelled string

text \<open>\<open>isinstance(exc, ProtocolError)\<close>: the class and its two subclasses.\<close>

fun is_protocol_error :: "py_exc \<Rightarrow> bool" where
  "is_protocol_error (ProtocolError _) = True"
| "is_protocol_error (ConnectionLost _) = True"
| "is_protocol_error (ConnectionBlockedError _) = True"
| "is_protocol_error _ = False"

text \<open>\<open>isinstance(exc, ConnectionLost)\<close>.\<close>

fun is_connection_lost :: "py_exc \<Rightarrow> bool" where
  "is_connection_lost (ConnectionLost _) = True"
| "is_connection_lost _ = False"

text \<open>\<open>str(exc)\<close>, up to interpolated values.\<close>

fun exc_text :: "py_exc \<Rightarrow> string" where
  "exc_text (AmqpCodecError m) = m"
| "exc_text (ProtocolError m) = m"
| "exc_text (ConnectionLost m) = m"
| "exc_text (ConnectionBlockedError m) = m"
| "exc_text (PublishNack _ _) = ''publish nack delivery_tag={} multiple={}''"
| "exc_text (PublishReturned _ _ _ _ _ _) = ''basic.return {} {} exchange={} routing_key={}''"
| "exc_text (InvalidIdError m) = m"
| "exc_text (IdCollisionError m) = m"
| "exc_text (NamespaceError m) = m"
| "exc_text (RpcError _ _ _ _) = ''{}: {}''"
| "exc_text (NackDelivery _) = ''poison message''"
| "exc_text (ValueError m) = m"
| "exc_text (TypeError m) = m"
| "exc_text (AttributeError m) = m"
| "exc_text (KeyError m) = m"
| "exc_text (IndexError m) = m"
| "exc_text (OverflowError m) = m"
| "exc_text (UnicodeError m) = m"
| "exc_text (JsonDecodeError m) = m"
| "exc_text (RuntimeError m) = m"
| "exc_text TimeoutError = ''''"
| "exc_text CancelledError = ''''"
| "exc_text (OtherError m) = m"
| "exc_text (Unmodelled m) = m"

section \<open>Fallible results\<close>

type_synonym 'a res = "py_exc + 'a"

definition bind_r :: "'a res \<Rightarrow> ('a \<Rightarrow> 'b res) \<Rightarrow> 'b res" where
  "bind_r m f = (case m of Inl e \<Rightarrow> Inl e | Inr x \<Rightarrow> f x)"

lemma bind_r_simps [simp]:
  "bind_r (Inl e) f = Inl e"
  "bind_r (Inr x) f = f x"
  by (simp_all add: bind_r_def)

lemma bind_r_Inr_iff: "bind_r m f = Inr y \<longleftrightarrow> (\<exists>x. m = Inr x \<and> f x = Inr y)"
  by (cases m) auto

lemma bind_r_Inl_iff: "bind_r m f = Inl e \<longleftrightarrow> m = Inl e \<or> (\<exists>x. m = Inr x \<and> f x = Inl e)"
  by (cases m) auto

lemma bind_r_cong [fundef_cong]:
  "m = m' \<Longrightarrow> (\<And>x. m' = Inr x \<Longrightarrow> f x = f' x) \<Longrightarrow> bind_r m f = bind_r m' f'"
  by (cases m') auto

lemma bind_r_assoc: "bind_r (bind_r m f) g = bind_r m (\<lambda>x. bind_r (f x) g)"
  by (cases m) auto

text \<open>A sequence of \<open>body += part\<close> statements: the parts are evaluated left to right.\<close>

fun cat_r :: "'a list res list \<Rightarrow> 'a list res" where
  "cat_r [] = Inr []"
| "cat_r (p # ps) = bind_r p (\<lambda>x. bind_r (cat_r ps) (\<lambda>y. Inr (x @ y)))"

lemma cat_r_append: "cat_r (ps @ qs) = bind_r (cat_r ps) (\<lambda>x. bind_r (cat_r qs) (\<lambda>y. Inr (x @ y)))"
proof (induction ps)
  case Nil
  show ?case by (cases "cat_r qs") auto
next
  case (Cons p ps)
  then show ?case by (cases p; cases "cat_r ps"; cases "cat_r qs") auto
qed

definition guard_r :: "bool \<Rightarrow> py_exc \<Rightarrow> unit res" where
  "guard_r ok e = (if ok then Inr () else Inl e)"

lemma guard_r_simps [simp]:
  "guard_r True e = Inr ()"
  "guard_r False e = Inl e"
  "guard_r b e = Inr u \<longleftrightarrow> b"
  "guard_r b e = Inl e' \<longleftrightarrow> \<not> b \<and> e = e'"
  by (auto simp: guard_r_def)

section \<open>Slices\<close>

text \<open>\<open>data[a:b]\<close> for offsets \<open>0 \<le> a\<close>: out-of-range ends are clipped, as in Python.\<close>

definition pyslice :: "'a list \<Rightarrow> nat \<Rightarrow> nat \<Rightarrow> 'a list" where
  "pyslice xs a b = take (b - a) (drop a xs)"

text \<open>\<open>data[i]\<close> with the IndexError written out.\<close>

definition index_r :: "'a list \<Rightarrow> nat \<Rightarrow> 'a res" where
  "index_r xs i = (if i < length xs then Inr (xs ! i) else Inl (IndexError ''index out of range''))"

lemma length_pyslice: "length (pyslice xs a b) = min (b - a) (length xs - a)"
  by (simp add: pyslice_def)

lemma pyslice_mid [codec_simps]: "pyslice (pre @ xs @ post) (length pre) (length pre + length xs) = xs"
  by (simp add: pyslice_def)

lemma pyslice_mid_eq:
  "data = pre @ xs @ post \<Longrightarrow> a = length pre \<Longrightarrow> b = length pre + length xs \<Longrightarrow> pyslice data a b = xs"
  by (simp add: pyslice_mid)

lemma nth_mid [codec_simps]: "(pre @ x # post) ! length pre = x"
  by simp

lemma index_r_mid [codec_simps]: "index_r (pre @ x # post) (length pre) = Inr x"
  by (simp add: index_r_def)

section \<open>Big-endian integers\<close>

fun be :: "nat \<Rightarrow> nat \<Rightarrow> bytes" where
  "be 0 n = []"
| "be (Suc k) n = of_nat (n div 256 ^ k) # be k n"

definition from_be :: "bytes \<Rightarrow> nat" where
  "from_be bs = foldl (\<lambda>a b. 256 * a + unat b) 0 bs"

lemma length_be [simp]: "length (be k n) = k"
  by (induction k) auto

lemma foldl_be: "foldl (\<lambda>a b. 256 * a + unat b) a (be k n) = a * 256 ^ k + n mod 256 ^ k"
proof (induction k arbitrary: a)
  case (Suc k)
  have "n mod 256 ^ Suc k = 256 ^ k * (n div 256 ^ k mod 256) + n mod 256 ^ k"
    by (simp add: mod_mult2_eq mult.commute[of 256] del: power_Suc add: power_Suc2)
  then show ?case using Suc by (simp add: unat_of_nat algebra_simps)
qed simp

lemma from_be_be: "from_be (be k n) = n mod 256 ^ k"
  by (simp add: from_be_def foldl_be)

lemma from_be_be_id [codec_simps]: "n < 256 ^ k \<Longrightarrow> from_be (be k n) = n"
  by (simp add: from_be_be)

lemma from_be_Nil [simp]: "from_be [] = 0"
  by (simp add: from_be_def)

lemma foldl_from_be: "foldl (\<lambda>a b. 256 * a + unat b) a bs = a * 256 ^ length bs + from_be bs"
proof (induction bs arbitrary: a)
  case (Cons b bs)
  show ?case
    using Cons[of "256 * a + unat b"] Cons[of "unat b"] by (simp add: from_be_def algebra_simps)
qed (simp add: from_be_def)

lemma from_be_Cons: "from_be (b # bs) = unat b * 256 ^ length bs + from_be bs"
  using foldl_from_be[of "unat b" bs] by (simp add: from_be_def)

lemma from_be_bound: "from_be bs < 256 ^ length bs"
proof (induction bs)
  case (Cons b bs)
  have "unat b < 2 ^ LENGTH(8)" by (rule unsigned_less)
  then have "unat b \<le> 255" by simp
  then have "unat b * 256 ^ length bs \<le> 255 * 256 ^ length bs" by simp
  with Cons show ?case unfolding from_be_Cons list.size(4) add_0_right One_nat_def add_Suc_right power_Suc
    by linarith
qed simp

lemma be_numerals:
  "be 1 n = [of_nat n]"
  "be 2 n = [of_nat (n div 256), of_nat n]"
  "be 4 n = [of_nat (n div 16777216), of_nat (n div 65536), of_nat (n div 256), of_nat n]"
proof -
  have k: "(1::nat) = Suc 0" "(2::nat) = Suc (Suc 0)" "(4::nat) = Suc (Suc (Suc (Suc 0)))" by simp_all
  have p: "(256::nat) ^ Suc (Suc (Suc 0)) = 16777216" "(256::nat) ^ Suc (Suc 0) = 65536" by simp_all
  show "be 1 n = [of_nat n]" unfolding k(1) be.simps by simp
  show "be 2 n = [of_nat (n div 256), of_nat n]" unfolding k(2) be.simps by simp
  show "be 4 n = [of_nat (n div 16777216), of_nat (n div 65536), of_nat (n div 256), of_nat n]"
    unfolding k(3) be.simps p by simp
qed

text \<open>\<open>int.to_bytes(k, "big")\<close> and its signed form, with the OverflowError written out.\<close>

definition to_bytes :: "nat \<Rightarrow> int \<Rightarrow> bytes res" where
  "to_bytes k v = (if v < 0 \<or> 256 ^ k \<le> v then Inl (OverflowError ''int too big to convert'')
     else Inr (be k (nat v)))"

definition to_bytes_signed :: "nat \<Rightarrow> int \<Rightarrow> bytes res" where
  "to_bytes_signed k v =
     (if v < - (256 ^ k div 2) \<or> 256 ^ k div 2 \<le> v
      then Inl (OverflowError ''int too big to convert'')
      else Inr (be k (nat (v mod 256 ^ k))))"

definition from_be_signed :: "bytes \<Rightarrow> int" where
  "from_be_signed bs =
     (let n = int (from_be bs) in
      if 2 * n < 256 ^ length bs then n else n - 256 ^ length bs)"

text \<open>\<open>bytes([v])\<close>: ValueError outside of 0..255.\<close>

definition byte_of_int :: "int \<Rightarrow> bytes res" where
  "byte_of_int v = (if 0 \<le> v \<and> v < 256 then Inr [of_int v]
     else Inl (ValueError ''bytes must be in range(0, 256)''))"

lemma to_bytes_ok [codec_simps]: "0 \<le> v \<Longrightarrow> v < 256 ^ k \<Longrightarrow> to_bytes k v = Inr (be k (nat v))"
  by (simp add: to_bytes_def)

lemma to_bytes_Inr_iff: "to_bytes k v = Inr bs \<longleftrightarrow> 0 \<le> v \<and> v < 256 ^ k \<and> bs = be k (nat v)"
  by (auto simp: to_bytes_def)

lemma from_be_signed_be:
  assumes "0 < k" "- (256 ^ k div 2) \<le> v" "v < 256 ^ k div 2"
  shows "from_be_signed (be k (nat (v mod 256 ^ k))) = v"
proof -
  let ?m = "256 ^ k :: int"
  have even: "2 * (?m div 2) = ?m" using assms(1) by (simp add: even_two_times_div_two)
  have n: "int (from_be (be k (nat (v mod ?m)))) = v mod ?m"
    by (simp add: from_be_be nat_less_iff flip: of_nat_power)
  show ?thesis
  proof (cases "0 \<le> v")
    case True
    then have "v mod ?m = v" using assms even by (intro mod_pos_pos_trivial) auto
    with n have "int (from_be (be k (nat v))) = v" by simp
    with \<open>v mod ?m = v\<close> assms even show ?thesis by (simp add: from_be_signed_def Let_def)
  next
    case False
    then have "v mod ?m = v + ?m"
      using assms even by (subst mod_add_self2[symmetric], intro mod_pos_pos_trivial) auto
    with n have "int (from_be (be k (nat (v + ?m)))) = v + ?m" by simp
    with \<open>v mod ?m = v + ?m\<close> False assms even show ?thesis by (simp add: from_be_signed_def Let_def)
  qed
qed

lemma to_bytes_signed_Inr_iff:
  "to_bytes_signed k v = Inr bs \<longleftrightarrow>
     - (256 ^ k div 2) \<le> v \<and> v < 256 ^ k div 2 \<and> bs = be k (nat (v mod 256 ^ k))"
  by (auto simp: to_bytes_signed_def)

end
