(* ===== verification/WireCodec.thy ===== *)
theory WireCodec
  imports Prelude
begin

text \<open>
  The contracts of the wire layer, as locales. A \<open>wire_codec\<close> is an encoder with an
  offset-passing decoder that inverts it wherever the encoding stands in a buffer; a
  \<open>stream_codec\<close> is a decoder whose answers, other than "incomplete", do not change when more
  bytes arrive, which is what a receive loop relies on.
\<close>

locale wire_codec =
  fixes enc :: "'a \<Rightarrow> bytes res"
    and dec :: "bytes \<Rightarrow> nat \<Rightarrow> ('a \<times> nat) res"
    and ok :: "'a \<Rightarrow> bool"
  assumes round: "ok x \<Longrightarrow> enc x = Inr bs \<Longrightarrow>
    dec (pre @ bs @ post) (length pre) = Inr (x, length pre + length bs)"
begin

lemma round_at:
  assumes "ok x" "enc x = Inr bs" "data = pre @ bs @ post" "off = length pre"
  shows "dec data off = Inr (x, off + length bs)"
  using round[OF assms(1,2)] assms(3,4) by simp

lemma round_start: "ok x \<Longrightarrow> enc x = Inr bs \<Longrightarrow> dec (bs @ post) 0 = Inr (x, length bs)"
  using round[of x bs "[]" post] by simp

text \<open>No encoding is a prefix of another one: a value is read back unambiguously.\<close>

lemma prefix_free:
  assumes "ok x" "ok y" "enc x = Inr a" "enc y = Inr b" "a @ r = b @ s"
  shows "x = y \<and> a = b"
proof -
  have "Inr (x, length a) = Inr (y, length b)"
    using round_start[OF assms(1,3), of r] round_start[OF assms(2,4), of s] assms(5) by simp
  then show ?thesis using assms(3,4) by auto
qed

lemma inj_enc: "ok x \<Longrightarrow> ok y \<Longrightarrow> enc x = Inr b \<Longrightarrow> enc y = Inr b \<Longrightarrow> x = y"
  using prefix_free[of x y b b "[]" "[]"] by blast

end

text \<open>
  The receive loop over a decoder: take values off the front of the buffer until the decoder
  fails; a failure \<open>e\<close> with \<open>more e\<close> waits for more bytes, any other is fatal.
\<close>

function drain_with ::
  "(bytes \<Rightarrow> nat \<Rightarrow> ('a \<times> nat) res) \<Rightarrow> (py_exc \<Rightarrow> bool) \<Rightarrow> bytes \<Rightarrow> 'a list \<times> bytes \<times> py_exc option" where
  "drain_with dec more buf =
     (case dec buf 0 of
        Inl e \<Rightarrow> ([], buf, if more e then None else Some e)
      | Inr (x, n) \<Rightarrow>
          if n = 0 \<or> length buf < n then ([x], buf, None)
          else (case drain_with dec more (drop n buf) of (xs, r, e) \<Rightarrow> (x # xs, r, e)))"
  by pat_completeness auto
termination
  by (relation "measure (\<lambda>(dec, more, buf). length buf)") auto

declare drain_with.simps [simp del]

locale stream_codec = wire_codec +
  fixes more :: "py_exc \<Rightarrow> bool"
  assumes consumes: "dec buf 0 = Inr (x, n) \<Longrightarrow> 0 < n \<and> n \<le> length buf"
    and stable: "dec buf 0 = Inr (x, n) \<Longrightarrow> dec (buf @ more_bytes) 0 = Inr (x, n)"
    and fatal: "dec buf 0 = Inl e \<Longrightarrow> \<not> more e \<Longrightarrow> dec (buf @ more_bytes) 0 = Inl e"
    and partial: "ok x \<Longrightarrow> enc x = Inr bs \<Longrightarrow> n < length bs \<Longrightarrow> \<exists>e. dec (take n bs) 0 = Inl e \<and> more e"
begin

lemma drain_Inr:
  assumes "dec buf 0 = Inr (x, n)"
  shows "drain_with dec more buf =
    (case drain_with dec more (drop n buf) of (xs, r, e) \<Rightarrow> (x # xs, r, e))"
  using assms consumes[OF assms] by (simp add: drain_with.simps[of dec more buf])

lemma drain_Inl: "dec buf 0 = Inl e \<Longrightarrow>
    drain_with dec more buf = ([], buf, if more e then None else Some e)"
  by (simp add: drain_with.simps[of dec more buf])

text \<open>Draining a buffer and then what it left with more bytes is draining everything at once.\<close>

lemma drain_chunks:
  assumes "drain_with dec more buf = (xs, r, None)" "drain_with dec more (r @ b) = (ys, r', e)"
  shows "drain_with dec more (buf @ b) = (xs @ ys, r', e)"
  using assms
proof (induction "length buf" arbitrary: buf xs rule: less_induct)
  case less
  show ?case
  proof (cases "dec buf 0")
    case (Inl e0)
    then show ?thesis using less.prems by (simp add: drain_Inl split: if_splits)
  next
    case (Inr p)
    then obtain x n where d: "dec buf 0 = Inr (x, n)" by (cases p) auto
    note n = consumes[OF d]
    obtain xs1 where d1: "drain_with dec more (drop n buf) = (xs1, r, None)" and xs: "xs = x # xs1"
      using less.prems(1) by (auto simp: drain_Inr[OF d] split: prod.splits)
    have "drain_with dec more (drop n buf @ b) = (xs1 @ ys, r', e)"
      using n by (intro less.hyps[OF _ d1 less.prems(2)]) auto
    then show ?thesis using n by (simp add: drain_Inr[OF stable[OF d]] xs)
  qed
qed

text \<open>A fatal error stays where it was found, whatever arrives later.\<close>

lemma drain_fatal:
  assumes "drain_with dec more buf = (xs, r, Some e)"
  shows "drain_with dec more (buf @ b) = (xs, r @ b, Some e)"
  using assms
proof (induction "length buf" arbitrary: buf xs rule: less_induct)
  case less
  show ?case
  proof (cases "dec buf 0")
    case (Inl e0)
    then have "e0 = e" "\<not> more e" "xs = []" "r = buf"
      using less.prems by (auto simp: drain_Inl split: if_splits)
    with Inl fatal show ?thesis by (simp add: drain_Inl)
  next
    case (Inr p)
    then obtain x n where d: "dec buf 0 = Inr (x, n)" by (cases p) auto
    note n = consumes[OF d]
    obtain xs1 where d1: "drain_with dec more (drop n buf) = (xs1, r, Some e)" and xs: "xs = x # xs1"
      using less.prems by (auto simp: drain_Inr[OF d] split: prod.splits)
    have "drain_with dec more (drop n buf @ b) = (xs1, r @ b, Some e)"
      using n by (intro less.hyps[OF _ d1]) auto
    then show ?thesis using n by (simp add: drain_Inr[OF stable[OF d]] xs)
  qed
qed

text \<open>A sequence of encodings, followed by a proper prefix of one more, drains to the sequence.\<close>

lemma drain_encoded:
  assumes "list_all2 (\<lambda>x bs. ok x \<and> enc x = Inr bs) xs bss"
    and "ok y" "enc y = Inr last_bs" "n < length last_bs"
  shows "drain_with dec more (concat bss @ take n last_bs) = (xs, take n last_bs, None)"
  using assms(1)
proof (induction rule: list_all2_induct)
  case Nil
  from partial[OF assms(2,3,4)] obtain e where "dec (take n last_bs) 0 = Inl e" "more e" by blast
  then show ?case by (simp add: drain_Inl)
next
  case (Cons x xs bs bss)
  then have "dec (bs @ concat bss @ take n last_bs) 0 = Inr (x, length bs)"
    using round_start by blast
  then show ?case using Cons by (simp add: drain_Inr)
qed

end

end
