(* ===== verification/Frame.thy ===== *)
theory Frame
  imports WireCodec
begin

text \<open>
  \<^verbatim>\<open>src/src/nuropb_rmq/transport/frame.py\<close>: AMQP frames with the bounds checks
  of the source, and the framing part of the reader's receive loop. The decoder takes the whole
  buffer and an offset, as in the code, and returns the frame with the offset after it.
\<close>

section \<open>Frames\<close>

definition FRAME_END :: byte where "FRAME_END = 0xCE"
definition DEFAULT_FRAME_MAX :: int where "DEFAULT_FRAME_MAX = 131072"
definition FRAME_OVERHEAD :: int where "FRAME_OVERHEAD = 8"

datatype frame_kind = METHOD | HEADER | BODY | HEARTBEAT

fun frame_code :: "frame_kind \<Rightarrow> byte" where
  "frame_code METHOD = 1"
| "frame_code HEADER = 2"
| "frame_code BODY = 3"
| "frame_code HEARTBEAT = 8"

text \<open>\<open>FrameType(i)\<close>: None is the ValueError of the enum constructor.\<close>

definition frame_kind_of :: "byte \<Rightarrow> frame_kind option" where
  "frame_kind_of b =
     (if b = 1 then Some METHOD else if b = 2 then Some HEADER
      else if b = 3 then Some BODY else if b = 8 then Some HEARTBEAT else None)"

record frame =
  frame_type :: frame_kind
  channel :: int
  payload :: bytes

definition max_frame_payload :: "int \<Rightarrow> int res" where
  "max_frame_payload frame_max =
     (if frame_max < FRAME_OVERHEAD
      then Inl (AmqpCodecError ''frame_max {} smaller than FRAME_OVERHEAD'')
      else Inr (frame_max - FRAME_OVERHEAD))"

definition encode_frame :: "frame \<Rightarrow> int \<Rightarrow> bytes res" where
  "encode_frame f frame_max =
     (if channel f < 0 \<or> channel f > 0xFFFF
      then Inl (AmqpCodecError ''channel out of range: {}'')
      else
        let size = int (length (payload f)) in
        bind_r (max_frame_payload frame_max) (\<lambda>payload_max.
          if size > payload_max
          then Inl (AmqpCodecError ''frame payload {} exceeds max payload {} (frame_max={})'')
          else if size \<ge> 2 ^ 32 then Inl (OtherError ''struct.error: argument out of range'')
          else Inr (frame_code (frame_type f) # be 2 (nat (channel f)) @ be 4 (nat size)
                    @ payload f @ [FRAME_END])))"

definition decode_frame :: "bytes \<Rightarrow> int \<Rightarrow> nat \<Rightarrow> (frame \<times> nat) res" where
  "decode_frame data frame_max offset =
     (if int (length data) - int offset < 7
      then Inl (AmqpCodecError ''incomplete frame header'')
      else case frame_kind_of (data ! offset) of
        None \<Rightarrow> Inl (AmqpCodecError ''unknown frame type {}'')
      | Some ft \<Rightarrow>
          let ch = from_be (pyslice data (offset + 1) (offset + 3));
              size = from_be (pyslice data (offset + 3) (offset + 7))
          in bind_r (max_frame_payload frame_max) (\<lambda>payload_max.
            if int size > payload_max
            then Inl (AmqpCodecError ''frame size {} exceeds max payload {} (frame_max={})'')
            else
              let end_pos = offset + 7 + size in
              if length data < end_pos + 1
              then Inl (AmqpCodecError ''incomplete frame payload'')
              else if data ! end_pos \<noteq> FRAME_END
              then Inl (AmqpCodecError ''bad frame end byte 0x{}'')
              else Inr (\<lparr>frame_type = ft, channel = int ch,
                         payload = pyslice data (offset + 7) end_pos\<rparr>, end_pos + 1)))"

text \<open>
  The reader keeps the text of a codec error to tell a frame that has not arrived yet from a
  malformed one: \<open>if "incomplete" in str(exc): break\<close>.
\<close>

definition is_incomplete :: "py_exc \<Rightarrow> bool" where
  "is_incomplete e \<longleftrightarrow> sublist ''incomplete'' (exc_text e)"

lemma is_incomplete_texts [simp]:
  "is_incomplete (AmqpCodecError ''incomplete frame header'')"
  "is_incomplete (AmqpCodecError ''incomplete frame payload'')"
  "\<not> is_incomplete (AmqpCodecError ''unknown frame type {}'')"
  "\<not> is_incomplete (AmqpCodecError ''frame size {} exceeds max payload {} (frame_max={})'')"
  "\<not> is_incomplete (AmqpCodecError ''bad frame end byte 0x{}'')"
  "\<not> is_incomplete (AmqpCodecError ''frame_max {} smaller than FRAME_OVERHEAD'')"
  unfolding is_incomplete_def exc_text.simps by code_simp+

section \<open>Lemmas of the frame codec\<close>

lemma frame_kind_code [simp]: "frame_kind_of (frame_code k) = Some k"
  by (cases k) (simp_all add: frame_kind_of_def)

lemma frame_kind_of_Some: "frame_kind_of b = Some k \<longleftrightarrow> b = frame_code k"
  by (cases k) (auto simp: frame_kind_of_def)

lemma max_frame_payload_Inr:
  "max_frame_payload m = Inr p \<longleftrightarrow> FRAME_OVERHEAD \<le> m \<and> p = m - FRAME_OVERHEAD"
  by (auto simp: max_frame_payload_def)

text \<open>What a successful encoding looks like.\<close>

lemma encode_frame_Inr:
  "encode_frame f m = Inr bs \<longleftrightarrow>
     0 \<le> channel f \<and> channel f \<le> 0xFFFF \<and> int (length (payload f)) \<le> m - FRAME_OVERHEAD \<and>
     FRAME_OVERHEAD \<le> m \<and> length (payload f) < 2 ^ 32 \<and>
     bs = frame_code (frame_type f) # be 2 (nat (channel f)) @ be 4 (length (payload f))
          @ payload f @ [FRAME_END]"
  by (auto simp: encode_frame_def Let_def bind_r_Inr_iff max_frame_payload_Inr)

lemma encode_frame_length: "encode_frame f m = Inr bs \<Longrightarrow> length bs = length (payload f) + 8"
  by (auto simp: encode_frame_Inr)

text \<open>What a successful decoding has checked.\<close>

lemma decode_frame_Inr_iff:
  "decode_frame data m off = Inr (f, p) \<longleftrightarrow>
     (\<exists>sz. sz = from_be (pyslice data (off + 3) (off + 7)) \<and> off + 7 + sz < length data \<and>
        int sz \<le> m - FRAME_OVERHEAD \<and> FRAME_OVERHEAD \<le> m \<and>
        data ! off = frame_code (frame_type f) \<and> data ! (off + 7 + sz) = FRAME_END \<and>
        channel f = int (from_be (pyslice data (off + 1) (off + 3))) \<and>
        payload f = pyslice data (off + 7) (off + 7 + sz) \<and> p = off + 7 + sz + 1)"
  (is "?l \<longleftrightarrow> ?r")
proof
  assume ?l
  then show ?r
    by (auto simp: decode_frame_def Let_def bind_r_Inr_iff max_frame_payload_Inr frame_kind_of_Some
        split: if_splits option.splits)
next
  assume ?r
  then show ?l
    by (cases f) (auto simp: decode_frame_def Let_def max_frame_payload_def)
qed

lemma decode_frame_Inr:
  assumes "decode_frame data m off = Inr (f, p)"
  shows "off + 8 \<le> p" "p \<le> length data" "p = off + 8 + length (payload f)"
    "int (length (payload f)) \<le> m - FRAME_OVERHEAD" "FRAME_OVERHEAD \<le> m"
proof -
  from assms obtain sz where sz: "off + 7 + sz < length data" "int sz \<le> m - FRAME_OVERHEAD"
      "FRAME_OVERHEAD \<le> m" "payload f = pyslice data (off + 7) (off + 7 + sz)" "p = off + 7 + sz + 1"
    unfolding decode_frame_Inr_iff by blast
  then have "length (payload f) = sz" by (simp add: length_pyslice)
  with sz show "off + 8 \<le> p" "p \<le> length data" "p = off + 8 + length (payload f)"
    "int (length (payload f)) \<le> m - FRAME_OVERHEAD" "FRAME_OVERHEAD \<le> m" by simp_all
qed

lemma decode_frame_round:
  assumes "encode_frame f m = Inr bs"
  shows "decode_frame (pre @ bs @ post) m (length pre) = Inr (f, length pre + length bs)"
proof -
  let ?n = "length (payload f)" and ?c = "nat (channel f)" and ?o = "length pre"
  from assms have b: "0 \<le> channel f" "channel f \<le> 0xFFFF" "int ?n \<le> m - FRAME_OVERHEAD"
      "FRAME_OVERHEAD \<le> m" "?n < 2 ^ 32"
    and bs: "bs = frame_code (frame_type f) # be 2 ?c @ be 4 ?n @ payload f @ [FRAME_END]"
    by (simp_all add: encode_frame_Inr)
  let ?d = "pre @ bs @ post"
  have len: "length ?d = ?o + ?n + 8 + length post" by (simp add: bs)
  have k: "?d ! ?o = frame_code (frame_type f)" by (simp add: bs)
  have s1: "pyslice ?d (?o + 1) (?o + 3) = be 2 ?c"
    by (rule pyslice_mid_eq[of _ "pre @ [frame_code (frame_type f)]" _ "be 4 ?n @ payload f @ [FRAME_END] @ post"])
      (simp_all add: bs)
  have s2: "pyslice ?d (?o + 3) (?o + 7) = be 4 ?n"
    by (rule pyslice_mid_eq[of _ "pre @ [frame_code (frame_type f)] @ be 2 ?c" _ "payload f @ [FRAME_END] @ post"])
      (simp_all add: bs)
  have s3: "pyslice ?d (?o + 7) (?o + 7 + ?n) = payload f"
    by (rule pyslice_mid_eq[of _ "pre @ [frame_code (frame_type f)] @ be 2 ?c @ be 4 ?n" _ "[FRAME_END] @ post"])
      (simp_all add: bs)
  have e: "?d ! (?o + 7 + ?n) = FRAME_END"
    using nth_mid[of "pre @ [frame_code (frame_type f)] @ be 2 ?c @ be 4 ?n @ payload f" FRAME_END post]
    by (simp add: bs add.commute add.left_commute)
  have c2: "from_be (be 2 ?c) = ?c" and n4: "from_be (be 4 ?n) = ?n"
    using b by (auto intro!: from_be_be_id)
  have mp: "max_frame_payload m = Inr (m - FRAME_OVERHEAD)" using b by (simp add: max_frame_payload_Inr)
  show ?thesis
    unfolding decode_frame_def Let_def s1 s2 c2 n4 k frame_kind_code mp bind_r_simps option.case s3 e
    using b len by (simp add: bs)
qed

lemma pyslice_append: "j \<le> length data \<Longrightarrow> pyslice (data @ b) i j = pyslice data i j"
  by (simp add: pyslice_def)

lemma decode_frame_stable:
  assumes "decode_frame data m 0 = Inr (f, p)"
  shows "decode_frame (data @ b) m 0 = Inr (f, p)"
  using assms unfolding decode_frame_Inr_iff
  by (auto simp: pyslice_append nth_append)

text \<open>What the errors other than "incomplete" depend on: the header alone, or a whole frame.\<close>

lemma decode_frame_fatal:
  assumes "decode_frame data m 0 = Inl e" "\<not> is_incomplete e"
  shows "decode_frame (data @ b) m 0 = Inl e"
proof -
  have l: "7 \<le> length data" using assms by (auto simp: decode_frame_def split: if_splits)
  let ?sz = "from_be (pyslice data 3 7)"
  have s: "pyslice (data @ b) 3 7 = pyslice data 3 7" "pyslice (data @ b) 1 3 = pyslice data 1 3"
    using l by (simp_all add: pyslice_append)
  have k: "(data @ b) ! 0 = data ! 0" using l by (auto simp: nth_append)
  show ?thesis
  proof (cases "length data < 7 + ?sz + 1")
    case True
    then show ?thesis
      using assms l by (auto simp: decode_frame_def Let_def s[simplified] k max_frame_payload_def
          split: if_splits option.splits)
  next
    case False
    then have "(data @ b) ! (7 + ?sz) = data ! (7 + ?sz)" by (simp add: nth_append)
    then show ?thesis
      using assms l False by (auto simp: decode_frame_def Let_def s[simplified] k max_frame_payload_def
          split: if_splits option.splits)
  qed
qed

lemma decode_frame_partial:
  assumes "encode_frame f m = Inr bs" "n < length bs"
  shows "\<exists>e. decode_frame (take n bs) m 0 = Inl e \<and> is_incomplete e"
proof -
  show ?thesis
  proof (cases "decode_frame (take n bs) m 0")
    case (Inl e)
    have "is_incomplete e"
    proof (rule ccontr)
      assume "\<not> is_incomplete e"
      from decode_frame_fatal[OF Inl this, of "drop n bs"] show False
        using decode_frame_round[OF assms(1), of "[]" "[]"] by simp
    qed
    with Inl show ?thesis by blast
  next
    case (Inr p)
    then obtain g k where d: "decode_frame (take n bs) m 0 = Inr (g, k)" by (cases p) auto
    from decode_frame_stable[OF this, of "drop n bs"] decode_frame_round[OF assms(1), of "[]" "[]"]
    have "k = length bs" by simp
    with decode_frame_Inr(2)[OF d] assms(2) show ?thesis by simp
  qed
qed

lemma decode_frame_consumes: "decode_frame buf m 0 = Inr (f, n) \<Longrightarrow> 0 < n \<and> n \<le> length buf \<and> length buf - n < length buf"
  using decode_frame_Inr(1,2)[of buf m 0 f n] by auto

interpretation frames: stream_codec "\<lambda>f. encode_frame f m" "\<lambda>data off. decode_frame data m off"
  "\<lambda>_. True" is_incomplete for m
proof unfold_locales
  show "0 < n \<and> n \<le> length buf" if "decode_frame buf m 0 = Inr (x, n)" for buf x n
    using decode_frame_consumes[OF that] by simp
qed (auto intro: decode_frame_round decode_frame_stable decode_frame_fatal decode_frame_partial)

text \<open>
  The framing loop of \<open>_read_loop\<close>: the frames at the front of the buffer, what is left of it,
  and the error that is fatal for the connection, if any.
\<close>

function drain_buffer :: "int \<Rightarrow> bytes \<Rightarrow> frame list \<times> bytes \<times> py_exc option" where
  "drain_buffer frame_max buf =
     (case decode_frame buf frame_max 0 of
        Inl e \<Rightarrow> ([], buf, if is_incomplete e then None else Some e)
      | Inr (f, nxt) \<Rightarrow>
          (case drain_buffer frame_max (drop nxt buf) of (fs, r, e) \<Rightarrow> (f # fs, r, e)))"
  by pat_completeness auto
termination
  by (relation "measure (\<lambda>(m, buf). length buf)") (auto dest: decode_frame_consumes)

declare drain_buffer.simps [simp del]

lemma drain_buffer_with: "drain_buffer m buf = drain_with (\<lambda>data. decode_frame data m) is_incomplete buf"
proof (induction m buf rule: drain_buffer.induct)
  case (1 m buf)
  show ?case
  proof (cases "decode_frame buf m 0")
    case (Inl e)
    then show ?thesis by (simp add: drain_buffer.simps[of m buf] frames.drain_Inl)
  next
    case (Inr p)
    then obtain f n where d: "decode_frame buf m 0 = Inr (f, n)" by (cases p) auto
    show ?thesis
      using 1[OF d refl] by (simp add: drain_buffer.simps[of m buf] d frames.drain_Inr[OF d])
  qed
qed

section \<open>Properties\<close>

text \<open>
  C17. Frame round trip: wherever an encoded frame stands in a buffer, decoding at its offset
  returns the frame and the offset just after it.
\<close>

theorem frame_roundtrip:
  assumes "encode_frame f m = Inr bs"
  shows "decode_frame (pre @ bs @ post) m (length pre) = Inr (f, length pre + length bs)"
  by (rule frames.round[OF TrueI assms])

definition sample_frame :: frame where
  "sample_frame = \<lparr>frame_type = METHOD, channel = 1, payload = [0, 20, 0, 10, 0]\<rparr>"

lemma sample_encode: "encode_frame sample_frame 4096 = Inr [1, 0, 1, 0, 0, 0, 5, 0, 20, 0, 10, 0, 0xCE]"
  by (simp add: sample_frame_def encode_frame_Inr FRAME_OVERHEAD_def FRAME_END_def be_numerals)

theorem frame_roundtrip_witness:
  "decode_frame ([9, 9] @ [1, 0, 1, 0, 0, 0, 5, 0, 20, 0, 10, 0, 0xCE] @ [7]) 4096 (length [9 :: byte, 9]) =
     Inr (sample_frame, length [9 :: byte, 9] + length [1, 0, 1, 0, 0, 0, 5, 0, 20, 0, 10, 0, 0xCE :: byte])"
  by (rule frame_roundtrip[OF sample_encode])

text \<open>
  C33. Frame bounds: an encoded frame is at most \<open>frame_max\<close> octets on the wire, and a decoded
  frame was entirely inside the buffer and at most \<open>frame_max\<close> octets too, so that no payload
  longer than the negotiated bound is ever accepted or sent.
\<close>

theorem frame_bounds:
  "(encode_frame f m = Inr bs \<longrightarrow> int (length bs) \<le> m) \<and>
   (decode_frame data m off = Inr (g, p) \<longrightarrow>
      off < p \<and> p \<le> length data \<and> int (p - off) \<le> m \<and> length (payload g) = p - off - 8)"
proof (intro conjI impI)
  assume "encode_frame f m = Inr bs"
  then show "int (length bs) \<le> m"
    using encode_frame_length[of f m bs] by (simp add: encode_frame_Inr FRAME_OVERHEAD_def)
next
  assume "decode_frame data m off = Inr (g, p)"
  note r = decode_frame_Inr[OF this]
  then show "off < p" "p \<le> length data" "length (payload g) = p - off - 8" by simp_all
  from r show "int (p - off) \<le> m" by (simp add: FRAME_OVERHEAD_def)
qed

theorem frame_bounds_witness:
  "int (length [1, 0, 1, 0, 0, 0, 5, 0, 20, 0, 10, 0, 0xCE :: byte]) \<le> 4096"
  using frame_bounds[of sample_frame 4096 "[1, 0, 1, 0, 0, 0, 5, 0, 20, 0, 10, 0, 0xCE]" "[]" 0 sample_frame 0]
    sample_encode by blast

text \<open>
  Chunk independence: draining the receive buffer, keeping what is left, and draining again
  after more bytes arrived gives the same frames, rest and error as draining all bytes at once.
  How TCP cuts the stream into reads is invisible to the connection.
\<close>

theorem drain_chunk_independent:
  assumes "drain_buffer m buf = (fs, r, None)" "drain_buffer m (r @ b) = (gs, r', e)"
  shows "drain_buffer m (buf @ b) = (fs @ gs, r', e)"
  using frames.drain_chunks[of m buf fs r b gs r' e] assms by (simp add: drain_buffer_with)

lemma sample_drain: "drain_buffer 4096 [1, 0, 1] = ([], [1, 0, 1], None)"
  by (simp add: drain_buffer.simps decode_frame_def)

lemma sample_drain_rest:
  "drain_buffer 4096 ([1, 0, 1] @ [0, 0, 0, 5, 0, 20, 0, 10, 0, 0xCE]) = ([sample_frame], [], None)"
proof -
  have d: "decode_frame [1, 0, 1, 0, 0, 0, 5, 0, 20, 0, 10, 0, 0xCE] 4096 0 = Inr (sample_frame, 13)"
    using frames.round_start[OF TrueI sample_encode, of "[]"] by simp
  show ?thesis by (simp add: drain_buffer.simps d) (simp add: drain_buffer.simps decode_frame_def)
qed

theorem drain_chunk_independent_witness:
  "drain_buffer 4096 ([1, 0, 1] @ [0, 0, 0, 5, 0, 20, 0, 10, 0, 0xCE]) = ([] @ [sample_frame], [], None)"
  by (rule drain_chunk_independent[OF sample_drain sample_drain_rest])

text \<open>
  Stream decoding: the concatenation of encoded frames, followed by any proper prefix of one
  more, drains to exactly those frames, keeps the prefix for the next read and reports no error.
\<close>

theorem drain_stream:
  assumes "list_all2 (\<lambda>f bs. encode_frame f m = Inr bs) fs bss"
    and "encode_frame g m = Inr last_bs" "n < length last_bs"
  shows "drain_buffer m (concat bss @ take n last_bs) = (fs, take n last_bs, None)"
  using frames.drain_encoded[of m fs bss g last_bs n] assms by (simp add: drain_buffer_with)

theorem drain_stream_witness:
  "drain_buffer 4096 (concat [[1, 0, 1, 0, 0, 0, 5, 0, 20, 0, 10, 0, 0xCE]]
     @ take 4 [1, 0, 1, 0, 0, 0, 5, 0, 20, 0, 10, 0, 0xCE]) =
   ([sample_frame], take 4 [1, 0, 1, 0, 0, 0, 5, 0, 20, 0, 10, 0, 0xCE], None)"
  by (rule drain_stream[OF _ sample_encode]) (simp_all add: sample_encode)

end
