(* ===== verification/Floats.thy ===== *)
theory Floats
  imports Prelude
begin

text \<open>
  Python's \<open>float\<close> as the library's JSON uses it: a binary64 is its bit pattern, a finite one a whole
  number of units of 2 to the power -1074. Rounding is to the nearest, ties to even, of an exact
  ratio, so that nothing is approximated.
\<close>

section \<open>Bit patterns\<close>

type_synonym pyfloat = "64 word"

definition float_mag :: "pyfloat \<Rightarrow> nat" where
  "float_mag w = unat w mod 2 ^ 63"

definition float_neg :: "pyfloat \<Rightarrow> bool" where
  "float_neg w \<longleftrightarrow> 2 ^ 63 \<le> unat w"

definition float_pack :: "bool \<Rightarrow> nat \<Rightarrow> pyfloat" where
  "float_pack neg m = of_nat ((if neg then 2 ^ 63 else 0) + m)"

text \<open>The magnitude of the infinities; a larger one is not a number.\<close>

definition FLOAT_INF :: nat where
  "FLOAT_INF = 2047 * 2 ^ 52"

definition FLOAT_NAN :: "pyfloat" where
  "FLOAT_NAN = 0x7FF8000000000000"

definition is_finite :: "pyfloat \<Rightarrow> bool" where
  "is_finite w \<longleftrightarrow> float_mag w < FLOAT_INF"

definition is_nan :: "pyfloat \<Rightarrow> bool" where
  "is_nan w \<longleftrightarrow> FLOAT_INF < float_mag w"

lemma pack_parts:
  assumes "m < 2 ^ 63"
  shows "float_mag (float_pack neg m) = m" "float_neg (float_pack neg m) = neg"
proof -
  have n: "unat (of_nat n :: 64 word) = n" if "n < 2 ^ 64" for n using that by (simp add: unat_of_nat)
  have "unat (float_pack neg m) = (if neg then 2 ^ 63 else 0) + m"
    unfolding float_pack_def by (rule n) (use assms in simp)
  then show "float_mag (float_pack neg m) = m" "float_neg (float_pack neg m) = neg"
    using assms by (simp_all add: float_mag_def float_neg_def)
qed

lemma pack_unpack: "float_pack (float_neg w) (float_mag w) = w"
proof -
  have u: "unat w < 2 ^ 64" using unsigned_less[of w] by simp
  have "(if float_neg w then 2 ^ 63 else 0) + float_mag w = unat w"
  proof (cases "float_neg w")
    case True
    then have "unat w mod 2 ^ 63 = unat w - 2 ^ 63"
      using u by (simp add: float_neg_def mod_if)
    then show ?thesis using True by (simp add: float_mag_def float_neg_def)
  qed (simp add: float_neg_def float_mag_def)
  then show ?thesis by (simp add: float_pack_def)
qed

section \<open>Values and rounding\<close>

definition UNITS :: nat where
  "UNITS = 2 ^ 1074"

text \<open>The units of a magnitude: the exponent and the significand, with the hidden bit if it has one.\<close>

definition float_units :: "nat \<Rightarrow> nat" where
  "float_units m = (let e = max 1 (m div 2 ^ 52) - 1 in (m - e * 2 ^ 52) * 2 ^ e)"

fun bit_length :: "nat \<Rightarrow> nat" where
  "bit_length n = (if n = 0 then 0 else Suc (bit_length (n div 2)))"

declare bit_length.simps [simp del]

definition half_even :: "nat \<Rightarrow> nat \<Rightarrow> nat" where
  "half_even a b =
     (let m = a div b; r = a mod b in if b < 2 * r \<or> 2 * r = b \<and> odd m then m + 1 else m)"

text \<open>The magnitude of the binary64 next to \<open>n / d\<close>.\<close>

definition float_round :: "nat \<Rightarrow> nat \<Rightarrow> nat" where
  "float_round n d =
     (let a = n * UNITS; e = bit_length (a div d) - 53 in
      min FLOAT_INF (e * 2 ^ 52 + half_even a (d * 2 ^ e)))"

lemma bit_length_pow: "2 ^ k \<le> n \<Longrightarrow> n < 2 ^ Suc k \<Longrightarrow> bit_length n = Suc k"
proof (induction k arbitrary: n)
  case 0
  then have "n = Suc 0" by simp
  then show ?case by (simp add: bit_length.simps[of "Suc 0"] bit_length.simps[of 0])
next
  case (Suc k)
  then have "bit_length (n div 2) = Suc k" by (intro Suc.IH) auto
  moreover have "(0 :: nat) < 2 ^ Suc k" by simp
  then have "n \<noteq> 0" using Suc.prems(1) by linarith
  ultimately show ?case by (simp add: bit_length.simps[of n])
qed

lemma bit_length_small: "n < 2 ^ k \<Longrightarrow> bit_length n \<le> k"
proof (induction k arbitrary: n)
  case 0
  then show ?case by (simp add: bit_length.simps[of 0])
next
  case (Suc k)
  then have "bit_length (n div 2) \<le> k" by (intro Suc.IH) auto
  then show ?case by (simp add: bit_length.simps[of n])
qed

lemma half_even_exact: "0 < b \<Longrightarrow> half_even (m * b) b = m"
  by (simp add: half_even_def)

lemma half_even_scale:
  assumes "0 < c"
  shows "half_even (a * c) (b * c) = half_even a b"
proof -
  have "(a * c) div (b * c) = a div b" "(a * c) mod (b * c) = (a mod b) * c"
    using assms by (simp_all add: mult_mod_left)
  moreover have "b * c < 2 * ((a mod b) * c) \<longleftrightarrow> b < 2 * (a mod b)" "2 * ((a mod b) * c) = b * c \<longleftrightarrow> 2 * (a mod b) = b"
    using assms by (simp_all flip: mult.assoc)
  ultimately show ?thesis by (simp add: half_even_def Let_def)
qed

text \<open>Rounding sees the ratio only.\<close>

lemma float_round_scale:
  assumes "0 < c"
  shows "float_round (n * c) (d * c) = float_round n d"
proof -
  define a where "a = n * UNITS"
  have ac: "n * c * UNITS = a * c" by (simp add: a_def)
  have q: "a * c div (d * c) = a div d" using assms by simp
  have "half_even (a * c) (d * c * 2 ^ e) = half_even a (d * 2 ^ e)" for e
    using half_even_scale[OF assms, of a "d * 2 ^ e"] by (simp only: mult.assoc mult.commute[of c])
  then show ?thesis unfolding float_round_def Let_def ac q a_def[symmetric] by simp
qed

lemma significand_parts:
  fixes m B :: nat
  assumes "0 < B"
  defines "e \<equiv> max 1 (m div B) - 1"
  shows "e * B \<le> m" "m - e * B < 2 * B" "0 < e \<Longrightarrow> B \<le> m - e * B"
proof -
  have "e * B \<le> m \<and> m - e * B < 2 * B \<and> (0 < e \<longrightarrow> B \<le> m - e * B)"
  proof (cases "m div B")
    case 0
    then have "m < B" using assms(1) by (simp add: div_eq_0_iff)
    then show ?thesis by (simp add: e_def 0)
  next
    case (Suc j)
    have "m = Suc j * B + m mod B" using Suc by (metis div_mult_mod_eq)
    then obtain r where r: "m = B + j * B + r" "r < B" using assms(1) by (metis mod_less_divisor mult_Suc)
    have "e = j" by (simp add: e_def Suc)
    then show ?thesis using r by simp
  qed
  then show "e * B \<le> m" "m - e * B < 2 * B" "0 < e \<Longrightarrow> B \<le> m - e * B" by blast+
qed

text \<open>A value that is one is rounded to itself.\<close>

lemma float_round_exact:
  assumes "n * UNITS = float_units m * d" "m < FLOAT_INF" "0 < d"
  shows "float_round n d = m"
proof -
  define e where "e = max 1 (m div 2 ^ 52) - 1"
  define k where "k = m - e * 2 ^ 52"
  have u: "float_units m = k * 2 ^ e" by (simp add: float_units_def k_def e_def Let_def)
  have m: "m = e * 2 ^ 52 + k" and b: "k < 2 ^ 53" "0 < e \<longrightarrow> 2 ^ 52 \<le> k"
    using significand_parts[of "2 ^ 52" m] unfolding k_def e_def by simp_all
  have q: "n * UNITS div d = k * 2 ^ e" using assms(1,3) u by simp
  have "bit_length (k * 2 ^ e) - 53 = e"
  proof (cases "0 < e")
    case True
    have "2 ^ (52 + e) \<le> k * 2 ^ e" "k * 2 ^ e < 2 ^ Suc (52 + e)"
      using b True by (simp_all add: power_add)
    from bit_length_pow[OF this] show ?thesis by simp
  qed (use b(1) bit_length_small[of k 53] in simp)
  moreover have "half_even (n * UNITS) (d * 2 ^ e) = k"
    using half_even_exact[of "d * 2 ^ e" k] assms(1,3) u by (simp add: ac_simps)
  ultimately show ?thesis using assms(2) m by (simp add: float_round_def Let_def q)
qed

section \<open>Arithmetic\<close>

text \<open>\<open>float(i)\<close> of an int, and \<open>int(x)\<close> of a float.\<close>

definition float_of_int :: "int \<Rightarrow> pyfloat res" where
  "float_of_int i =
     (let m = float_round (nat \<bar>i\<bar>) 1 in
      if m = FLOAT_INF then Inl (OverflowError ''int too large to convert to float'') else Inr (float_pack (i < 0) m))"

definition float_trunc :: "pyfloat \<Rightarrow> int res" where
  "float_trunc w =
     (if is_nan w then Inl (ValueError ''cannot convert float NaN to integer'')
      else if \<not> is_finite w then Inl (OverflowError ''cannot convert float infinity to integer'')
      else let i = int (float_units (float_mag w) div UNITS) in Inr (if float_neg w then - i else i))"

text \<open>\<open>x <= y\<close>: the signed magnitude orders all floats but the NaNs.\<close>

definition float_key :: "pyfloat \<Rightarrow> int" where
  "float_key w = (if float_neg w then - int (float_mag w) else int (float_mag w))"

definition float_le :: "pyfloat \<Rightarrow> pyfloat \<Rightarrow> bool" where
  "float_le x y \<longleftrightarrow> \<not> is_nan x \<and> \<not> is_nan y \<and> float_key x \<le> float_key y"

definition signed_units :: "pyfloat \<Rightarrow> int" where
  "signed_units w = (let u = int (float_units (float_mag w)) in if float_neg w then - u else u)"

definition float_add :: "pyfloat \<Rightarrow> pyfloat \<Rightarrow> pyfloat" where
  "float_add x y =
     (if is_nan x \<or> is_nan y then FLOAT_NAN
      else if \<not> is_finite x then (if \<not> is_finite y \<and> float_neg x \<noteq> float_neg y then FLOAT_NAN else x)
      else if \<not> is_finite y then y
      else
        let s = signed_units x + signed_units y in
        if s = 0 then float_pack (float_neg x \<and> float_neg y) 0
        else float_pack (s < 0) (float_round (nat \<bar>s\<bar>) (UNITS)))"

text \<open>A sum that is a float is that float.\<close>

lemma float_add_exact:
  assumes "is_finite x" "is_finite y" "is_finite z" "signed_units x + signed_units y = signed_units z" "signed_units z \<noteq> 0"
  shows "float_add x y = z"
proof -
  let ?u = "float_units (float_mag z)"
  have "float_round ?u UNITS = float_mag z"
    using assms(3) by (intro float_round_exact) (simp_all add: is_finite_def UNITS_def)
  moreover have "nat \<bar>signed_units z\<bar> = ?u" "signed_units z < 0 \<longleftrightarrow> float_neg z"
    using assms(5) by (auto simp: signed_units_def Let_def split: if_splits)
  moreover have "\<not> is_nan x" "\<not> is_nan y" using assms(1,2) by (simp_all add: is_finite_def is_nan_def)
  ultimately show ?thesis using assms pack_unpack[of z] by (simp add: float_add_def)
qed

lemma float_le_trans: "float_le x y \<Longrightarrow> float_le y z \<Longrightarrow> float_le x z"
  by (auto simp: float_le_def)

end
