(* ===== verification/PyValues.thy ===== *)
theory PyValues
  imports Floats
begin

text \<open>
  Python dictionaries and conversions. A dict is an association list in insertion order with
  distinct keys: \<open>d[k] = v\<close> overwrites in place or appends, as CPython's dict does, so that
  iteration order (which the table encoder observes) is modelled.
\<close>

section \<open>Dictionaries\<close>

definition dict_get :: "('k \<times> 'v) list \<Rightarrow> 'k \<Rightarrow> 'v option" where
  "dict_get d k = map_of d k"

definition dict_get_or :: "('k \<times> 'v) list \<Rightarrow> 'k \<Rightarrow> 'v \<Rightarrow> 'v" where
  "dict_get_or d k v = (case dict_get d k of None \<Rightarrow> v | Some x \<Rightarrow> x)"

definition dict_item :: "('k \<times> 'v) list \<Rightarrow> 'k \<Rightarrow> 'v res" where
  "dict_item d k = (case dict_get d k of None \<Rightarrow> Inl (KeyError ''{}'') | Some x \<Rightarrow> Inr x)"

definition dict_has :: "('k \<times> 'v) list \<Rightarrow> 'k \<Rightarrow> bool" where
  "dict_has d k \<longleftrightarrow> dict_get d k \<noteq> None"

fun dict_set :: "('k \<times> 'v) list \<Rightarrow> 'k \<Rightarrow> 'v \<Rightarrow> ('k \<times> 'v) list" where
  "dict_set [] k v = [(k, v)]"
| "dict_set ((k', v') # d) k v =
     (if k' = k then (k', v) # d else (k', v') # dict_set d k v)"

text \<open>\<open>d.pop(k, None)\<close> and \<open>del d[k]\<close> as a new dict.\<close>

definition dict_del :: "('k \<times> 'v) list \<Rightarrow> 'k \<Rightarrow> ('k \<times> 'v) list" where
  "dict_del d k = filter (\<lambda>(k', _). k' \<noteq> k) d"

definition dict_ok :: "('k \<times> 'v) list \<Rightarrow> bool" where
  "dict_ok d \<longleftrightarrow> distinct (map fst d)"

lemma dict_get_Nil [simp]: "dict_get [] k = None"
  by (simp add: dict_get_def)

lemma dict_get_Cons [simp]: "dict_get ((k, v) # d) k' = (if k = k' then Some v else dict_get d k')"
  by (simp add: dict_get_def)

lemma dict_get_append: "dict_get (d @ d') k = (case dict_get d k of None \<Rightarrow> dict_get d' k | Some v \<Rightarrow> Some v)"
  by (simp add: dict_get_def map_add_def split: option.splits)

lemma dict_get_set [simp]: "dict_get (dict_set d k v) = (dict_get d)(k \<mapsto> v)"
  by (induction d k v rule: dict_set.induct) (auto simp: fun_eq_iff)

lemma dict_get_del [simp]: "dict_get (dict_del d k) = (dict_get d)(k := None)"
proof (induction d)
  case (Cons x d)
  then show ?case by (cases x) (auto simp: fun_eq_iff dict_del_def)
qed (simp add: dict_del_def fun_eq_iff)

lemma dict_get_None_iff: "dict_get d k = None \<longleftrightarrow> k \<notin> fst ` set d"
  by (simp add: dict_get_def map_of_eq_None_iff)

lemma dict_has_iff: "dict_has d k \<longleftrightarrow> k \<in> fst ` set d"
  by (simp add: dict_has_def dict_get_None_iff)

lemma keys_dict_set: "fst ` set (dict_set d k v) = insert k (fst ` set d)"
  by (induction d k v rule: dict_set.induct) auto

lemma keys_dict_del: "fst ` set (dict_del d k) = fst ` set d - {k}"
  by (auto simp: dict_del_def image_iff)

lemma map_fst_dict_set: "map fst (dict_set d k v) = (if k \<in> fst ` set d then map fst d else map fst d @ [k])"
  by (induction d k v rule: dict_set.induct) auto

lemma dict_ok_Nil [simp]: "dict_ok []"
  by (simp add: dict_ok_def)

lemma dict_ok_set [simp, inv_intros]: "dict_ok d \<Longrightarrow> dict_ok (dict_set d k v)"
  by (auto simp: dict_ok_def map_fst_dict_set)

lemma dict_ok_del [simp, inv_intros]: "dict_ok d \<Longrightarrow> dict_ok (dict_del d k)"
  by (simp add: dict_ok_def dict_del_def distinct_map_filter case_prod_unfold)

lemma dict_set_new: "k \<notin> fst ` set d \<Longrightarrow> dict_set d k v = d @ [(k, v)]"
  by (induction d k v rule: dict_set.induct) auto

lemma dict_get_in: "dict_get d k = Some v \<Longrightarrow> (k, v) \<in> set d"
  by (simp add: dict_get_def map_of_SomeD)

lemma dict_ok_in_get: "dict_ok d \<Longrightarrow> (k, v) \<in> set d \<Longrightarrow> dict_get d k = Some v"
  by (simp add: dict_ok_def dict_get_def)

lemma dict_item_Inr_iff: "dict_item d k = Inr v \<longleftrightarrow> dict_get d k = Some v"
  by (simp add: dict_item_def split: option.splits)

section \<open>Conversions of dynamically typed values\<close>

text \<open>\<open>bool(v)\<close>. A float is false exactly when it is a zero of either sign.\<close>

fun truthy :: "pyval \<Rightarrow> bool" where
  "truthy VNone = False"
| "truthy (VBool b) = b"
| "truthy (VInt n) = (n \<noteq> 0)"
| "truthy (VFloat w) = (w \<noteq> 0 \<and> w \<noteq> 0x8000000000000000)"
| "truthy (VStr s) = (s \<noteq> [])"
| "truthy (VBytes b) = (b \<noteq> [])"
| "truthy (VList xs) = (xs \<noteq> [])"
| "truthy (VTuple xs) = (xs \<noteq> [])"
| "truthy (VDict d) = (d \<noteq> [])"
| "truthy (VDecimal c e) = (c \<noteq> 0)"
| "truthy VDecimalSpecial = True"
| "truthy (VDatetime t) = True"
| "truthy VOther = True"

text \<open>
  \<open>int(v)\<close>. The library passes ints and bools itself, and a number that was read from JSON. The
  conversions of texts and decimals are outside of the model and marked as such; the rest is
  Python's TypeError.
\<close>

fun py_int :: "pyval \<Rightarrow> int res" where
  "py_int (VInt n) = Inr n"
| "py_int (VBool b) = Inr (if b then 1 else 0)"
| "py_int (VFloat w) = float_trunc w"
| "py_int (VStr _) = Inl (Unmodelled ''int() of a str'')"
| "py_int (VBytes _) = Inl (Unmodelled ''int() of bytes'')"
| "py_int (VDecimal _ _) = Inl (Unmodelled ''int() of a Decimal'')"
| "py_int VDecimalSpecial = Inl (Unmodelled ''int() of a Decimal'')"
| "py_int VOther = Inl (Unmodelled ''int() of an object'')"
| "py_int _ = Inl (TypeError ''int() argument must be a string, a bytes-like object or a real number'')"

text \<open>\<open>isinstance(v, int)\<close>: bool is a subclass of int.\<close>

fun is_int :: "pyval \<Rightarrow> bool" where
  "is_int (VInt _) = True"
| "is_int (VBool _) = True"
| "is_int _ = False"

fun int_of :: "pyval \<Rightarrow> int" where
  "int_of (VInt n) = n"
| "int_of (VBool b) = (if b then 1 else 0)"
| "int_of _ = 0"

lemma py_int_is_int: "is_int v \<Longrightarrow> py_int v = Inr (int_of v)"
  by (cases v) auto

text \<open>Every dictionary inside a value has distinct keys.\<close>

fun well_keyed :: "pyval \<Rightarrow> bool" where
  "well_keyed (VList xs) = list_all well_keyed xs"
| "well_keyed (VTuple xs) = list_all well_keyed xs"
| "well_keyed (VDict d) = (dict_ok d \<and> list_all (\<lambda>(_, v). well_keyed v) d)"
| "well_keyed _ = True"

text \<open>\<open>str(n)\<close> of a natural number.\<close>

fun dec_digits :: "nat \<Rightarrow> pystr" where
  "dec_digits n = (if n < 10 then [48 + n] else dec_digits (n div 10) @ [48 + n mod 10])"

declare dec_digits.simps [simp del]

end
