(* ===== verification/Utf8.thy ===== *)
theory Utf8
  imports Prelude
begin

text \<open>
  \<open>str.encode("utf-8")\<close> and \<open>bytes.decode("utf-8")\<close> in strict mode: surrogates cannot be
  encoded; overlong forms, surrogates, values above U+10FFFF and truncated sequences cannot be
  decoded. The core works on octets as numbers; the interface on bytes.
\<close>

definition is_scalar :: "nat \<Rightarrow> bool" where
  "is_scalar c \<longleftrightarrow> c < 0xD800 \<or> (0xE000 \<le> c \<and> c \<le> 0x10FFFF)"

definition utf8_char :: "nat \<Rightarrow> nat list option" where
  "utf8_char c =
     (if \<not> is_scalar c then None
      else if c < 0x80 then Some [c]
      else if c < 0x800 then Some [0xC0 + c div 64, 0x80 + c mod 64]
      else if c < 0x10000 then Some [0xE0 + c div 4096, 0x80 + c div 64 mod 64, 0x80 + c mod 64]
      else Some [0xF0 + c div 262144, 0x80 + c div 4096 mod 64, 0x80 + c div 64 mod 64, 0x80 + c mod 64])"

fun utf8_octets :: "pystr \<Rightarrow> nat list option" where
  "utf8_octets [] = Some []"
| "utf8_octets (c # s) =
     (case utf8_char c of None \<Rightarrow> None
      | Some x \<Rightarrow> (case utf8_octets s of None \<Rightarrow> None | Some y \<Rightarrow> Some (x @ y)))"

definition cont :: "nat \<Rightarrow> bool" where
  "cont b \<longleftrightarrow> 0x80 \<le> b \<and> b < 0xC0"

text \<open>One code point and the octets after it.\<close>

fun utf8_step :: "nat list \<Rightarrow> (nat \<times> nat list) option" where
  "utf8_step [] = None"
| "utf8_step (b0 # r) =
     (if b0 < 0x80 then Some (b0, r)
      else if 0xC2 \<le> b0 \<and> b0 < 0xE0 then
        (case r of b1 # r1 \<Rightarrow>
           if cont b1 then Some ((b0 - 0xC0) * 64 + (b1 - 0x80), r1) else None
         | _ \<Rightarrow> None)
      else if 0xE0 \<le> b0 \<and> b0 < 0xF0 then
        (case r of b1 # b2 # r2 \<Rightarrow>
           (let c = (b0 - 0xE0) * 4096 + (b1 - 0x80) * 64 + (b2 - 0x80)
            in if cont b1 \<and> cont b2 \<and> 0x800 \<le> c \<and> is_scalar c then Some (c, r2) else None)
         | _ \<Rightarrow> None)
      else if 0xF0 \<le> b0 \<and> b0 < 0xF5 then
        (case r of b1 # b2 # b3 # r3 \<Rightarrow>
           (let c = (b0 - 0xF0) * 262144 + (b1 - 0x80) * 4096 + (b2 - 0x80) * 64 + (b3 - 0x80)
            in if cont b1 \<and> cont b2 \<and> cont b3 \<and> 0x10000 \<le> c \<and> c \<le> 0x10FFFF then Some (c, r3) else None)
         | _ \<Rightarrow> None)
      else None)"

lemma utf8_step_shorter: "utf8_step bs = Some (c, r) \<Longrightarrow> length r < length bs"
  by (cases bs) (auto simp: Let_def split: if_splits list.splits)

function utf8_points :: "nat list \<Rightarrow> pystr option" where
  "utf8_points bs =
     (if bs = [] then Some []
      else case utf8_step bs of None \<Rightarrow> None
           | Some (c, r) \<Rightarrow> (case utf8_points r of None \<Rightarrow> None | Some s \<Rightarrow> Some (c # s)))"
  by pat_completeness auto
termination
  by (relation "measure length") (auto dest: utf8_step_shorter)

declare utf8_points.simps [simp del]

definition utf8_encode :: "pystr \<Rightarrow> bytes res" where
  "utf8_encode s = (case utf8_octets s of
       None \<Rightarrow> Inl (UnicodeError ''utf-8 codec cannot encode character'')
     | Some ns \<Rightarrow> Inr (map of_nat ns))"

definition utf8_decode :: "bytes \<Rightarrow> pystr res" where
  "utf8_decode bs = (case utf8_points (map unat bs) of
       None \<Rightarrow> Inl (UnicodeError ''utf-8 codec cannot decode byte'')
     | Some s \<Rightarrow> Inr s)"

section \<open>Round trip\<close>

definition encodable :: "pystr \<Rightarrow> bool" where
  "encodable s \<longleftrightarrow> list_all is_scalar s"

text \<open>The base-64 digits of a code point.\<close>

lemma base64_digits:
  fixes c :: nat
  shows "c div 4096 * 4096 + c div 64 mod 64 * 64 + c mod 64 = c"
    and "c div 262144 * 262144 + c div 4096 mod 64 * 4096 + c div 64 mod 64 * 64 + c mod 64 = c"
proof -
  define a b d where "a = c div 64" and "b = a div 64" and "d = b div 64"
  have b: "b = c div 4096" and d: "d = c div 262144"
    by (simp_all add: a_def b_def d_def div_mult2_eq[symmetric])
  have "c = a * 64 + c mod 64" "a = b * 64 + a mod 64" "b = d * 64 + b mod 64"
    by (simp_all add: a_def b_def d_def)
  then have "b * 4096 + a mod 64 * 64 + c mod 64 = c"
    and "d * 262144 + b mod 64 * 4096 + a mod 64 * 64 + c mod 64 = c"
    by linarith+
  then show "c div 4096 * 4096 + c div 64 mod 64 * 64 + c mod 64 = c"
    and "c div 262144 * 262144 + c div 4096 mod 64 * 4096 + c div 64 mod 64 * 64 + c mod 64 = c"
    by (simp_all only: a_def[symmetric] b[symmetric] d[symmetric])
qed

lemma utf8_step_char: "utf8_char c = Some x \<Longrightarrow> utf8_step (x @ r) = Some (c, r)"
proof -
  assume h: "utf8_char c = Some x"
  then have sc: "is_scalar c" by (auto simp: utf8_char_def split: if_splits)
  then have le: "c \<le> 0x10FFFF" by (auto simp: is_scalar_def)
  consider "c < 0x80" | "0x80 \<le> c" "c < 0x800" | "0x800 \<le> c" "c < 0x10000" | "0x10000 \<le> c"
    by linarith
  then show ?thesis
  proof cases
    case 1
    with h sc show ?thesis by (auto simp: utf8_char_def)
  next
    case 2
    have "2 \<le> c div 64" "c div 64 < 32" "c div 64 * 64 + c mod 64 = c" using 2 by auto
    with h sc 2 show ?thesis by (auto simp: utf8_char_def cont_def)
  next
    case 3
    have "c div 4096 < 16" "c div 4096 * 4096 + c div 64 mod 64 * 64 + c mod 64 = c"
      using 3 base64_digits(1)[of c] by auto
    with h sc 3 show ?thesis by (auto simp: utf8_char_def cont_def Let_def)
  next
    case 4
    have "c div 262144 < 5"
      "c div 262144 * 262144 + c div 4096 mod 64 * 4096 + c div 64 mod 64 * 64 + c mod 64 = c"
      using 4 le base64_digits(2)[of c] by auto
    with h sc 4 le show ?thesis by (auto simp: utf8_char_def cont_def Let_def)
  qed
qed

lemma utf8_char_bytes: "utf8_char c = Some x \<Longrightarrow> n \<in> set x \<Longrightarrow> n < 256"
  by (auto simp: utf8_char_def is_scalar_def split: if_splits)

lemma utf8_char_nonempty: "utf8_char c = Some x \<Longrightarrow> x \<noteq> []"
  by (auto simp: utf8_char_def split: if_splits)

lemma utf8_points_octets: "utf8_octets s = Some ns \<Longrightarrow> utf8_points ns = Some s"
proof (induction s arbitrary: ns)
  case Nil
  then show ?case by (simp add: utf8_points.simps)
next
  case (Cons c s)
  then obtain x y where x: "utf8_char c = Some x" and y: "utf8_octets s = Some y" and ns: "ns = x @ y"
    by (auto split: option.splits)
  have "x @ y \<noteq> []" using utf8_char_nonempty[OF x] by simp
  then show ?case
    using utf8_step_char[OF x, of y] Cons.IH[OF y] by (simp add: ns utf8_points.simps[of "x @ y"])
qed

lemma utf8_octets_bytes: "utf8_octets s = Some ns \<Longrightarrow> n \<in> set ns \<Longrightarrow> n < 256"
  by (induction s arbitrary: ns) (auto split: option.splits dest: utf8_char_bytes)

lemma map_unat_of_nat: "(\<And>n. n \<in> set ns \<Longrightarrow> n < 256) \<Longrightarrow> map unat (map of_nat ns :: bytes) = ns"
  by (induction ns) (auto simp: unat_of_nat)

lemma utf8_round [codec_simps]: "utf8_encode s = Inr bs \<Longrightarrow> utf8_decode bs = Inr s"
proof -
  assume "utf8_encode s = Inr bs"
  then obtain ns where ns: "utf8_octets s = Some ns" and bs: "bs = map of_nat ns"
    by (auto simp: utf8_encode_def split: option.splits)
  have "map unat bs = ns" unfolding bs by (rule map_unat_of_nat) (rule utf8_octets_bytes[OF ns])
  then show ?thesis using utf8_points_octets[OF ns] by (simp add: utf8_decode_def)
qed

lemma utf8_encode_total: "encodable s \<Longrightarrow> \<exists>bs. utf8_encode s = Inr bs"
proof -
  assume "encodable s"
  then have "\<exists>ns. utf8_octets s = Some ns"
    by (induction s) (auto simp: encodable_def utf8_char_def)
  then show ?thesis by (auto simp: utf8_encode_def)
qed

lemma utf8_encode_Inr_encodable: "utf8_encode s = Inr bs \<Longrightarrow> encodable s"
proof -
  have "utf8_octets s = Some ns \<Longrightarrow> encodable s" for ns
    by (induction s arbitrary: ns) (auto simp: encodable_def utf8_char_def split: option.splits if_splits)
  then show "utf8_encode s = Inr bs \<Longrightarrow> encodable s"
    by (auto simp: utf8_encode_def split: option.splits)
qed

text \<open>An ASCII string is its own encoding.\<close>

lemma utf8_ascii: "list_all (\<lambda>c. c < 0x80) s \<Longrightarrow> utf8_encode s = Inr (map of_nat s)"
proof -
  assume "list_all (\<lambda>c. c < 0x80) s"
  then have "utf8_octets s = Some s"
    by (induction s) (auto simp: utf8_char_def is_scalar_def)
  then show ?thesis by (simp add: utf8_encode_def)
qed

lemma utf8_empty: "utf8_decode [] = Inr []" "utf8_encode [] = Inr []"
  by (simp_all add: utf8_decode_def utf8_encode_def utf8_points.simps)

end
