(* ===== verification/FieldTable.thy ===== *)
theory FieldTable
  imports PyValues Utf8 WireCodec Frame
begin

text \<open>
  \<^verbatim>\<open>src/src/nuropb_rmq/transport/frame.py\<close>, lines 112 to 323: short and long strings, field
  values and field tables. Decoders take the whole buffer and an offset, as in the code, and
  return the value with the offset after it.
\<close>

definition DEFAULT_MAX_TABLE_DEPTH :: nat where "DEFAULT_MAX_TABLE_DEPTH = 32"

section \<open>Strings on the wire\<close>

definition encode_shortstr :: "pystr \<Rightarrow> bytes res" where
  "encode_shortstr value =
     bind_r (utf8_encode value) (\<lambda>raw.
       if length raw > 255 then Inl (AmqpCodecError ''shortstr exceeds 255 octets'')
       else Inr (of_nat (length raw) # raw))"

definition decode_shortstr :: "bytes \<Rightarrow> nat \<Rightarrow> (pystr \<times> nat) res" where
  "decode_shortstr data offset =
     (if offset \<ge> length data then Inl (AmqpCodecError ''shortstr missing length'')
      else
        let n = unat (data ! offset); start = offset + 1; end_pos = start + n in
        if end_pos > length data then Inl (AmqpCodecError ''shortstr truncated'')
        else bind_r (utf8_decode (pyslice data start end_pos)) (\<lambda>s. Inr (s, end_pos)))"

definition longstr_of_bytes :: "bytes \<Rightarrow> bytes res" where
  "longstr_of_bytes raw = bind_r (to_bytes 4 (int (length raw))) (\<lambda>n. Inr (n @ raw))"

text \<open>\<open>encode_longstr(value: bytes | str)\<close>; anything else fails at \<open>len\<close> or \<open>+\<close>.\<close>

fun encode_longstr :: "pyval \<Rightarrow> bytes res" where
  "encode_longstr (VStr s) = bind_r (utf8_encode s) longstr_of_bytes"
| "encode_longstr (VBytes b) = longstr_of_bytes b"
| "encode_longstr _ = Inl (TypeError ''a bytes-like object is required'')"

definition decode_longstr :: "bytes \<Rightarrow> nat \<Rightarrow> (bytes \<times> nat) res" where
  "decode_longstr data offset =
     (if offset + 4 > length data then Inl (AmqpCodecError ''longstr missing length'')
      else
        let n = from_be (pyslice data offset (offset + 4)) in
        if int n > DEFAULT_FRAME_MAX then Inl (AmqpCodecError ''longstr length {} exceeds ceiling'')
        else
          let start = offset + 4; end_pos = start + n in
          if end_pos > length data then Inl (AmqpCodecError ''longstr truncated'')
          else Inr (pyslice data start end_pos, end_pos))"

section \<open>Field values and tables: encoding\<close>

definition tag :: "char \<Rightarrow> byte" where
  "tag c = of_nat (of_char c)"

text \<open>
  \<open>Decimal\<close>: the scale is the negated exponent when that is negative; the coefficient must fit
  32 bits; the scale octet is \<open>scale & 0xFF\<close>.
\<close>

definition encode_decimal :: "int \<Rightarrow> int \<Rightarrow> bytes res" where
  "encode_decimal coeff expo =
     (let scale = (if expo < 0 then - expo else 0);
          int_val = (if expo < 0 then coeff else coeff * 10 ^ nat expo)
      in if \<not> (- 0x80000000 \<le> int_val \<and> int_val \<le> 0x7FFFFFFF)
         then Inl (AmqpCodecError ''Decimal magnitude exceeds 32-bit AMQP decimal'')
         else bind_r (to_bytes_signed 4 int_val) (\<lambda>b. Inr (tag CHR ''D'' # of_int scale # b)))"

function encode_field_value :: "nat \<Rightarrow> nat \<Rightarrow> pyval \<Rightarrow> bytes res"
  and encode_items :: "nat \<Rightarrow> nat \<Rightarrow> pyval list \<Rightarrow> bytes res"
  and encode_table :: "nat \<Rightarrow> nat \<Rightarrow> pydict \<Rightarrow> bytes res"
  and encode_entries :: "nat \<Rightarrow> nat \<Rightarrow> pydict \<Rightarrow> bytes res" where
  "encode_field_value max_depth depth value =
     (if depth > max_depth then Inl (AmqpCodecError ''field-table nesting exceeds max_depth {}'')
      else case value of
        VNone \<Rightarrow> Inr [tag CHR ''V'']
      | VBool b \<Rightarrow> Inr [tag CHR ''t'', if b then 1 else 0]
      | VInt n \<Rightarrow>
          if - 0x80000000 \<le> n \<and> n \<le> 0x7FFFFFFF
          then bind_r (to_bytes_signed 4 n) (\<lambda>b. Inr (tag CHR ''I'' # b))
          else bind_r (to_bytes_signed 8 n) (\<lambda>b. Inr (tag CHR ''L'' # b))
      | VFloat w \<Rightarrow> Inr (tag CHR ''d'' # be 8 (unat w))
      | VStr s \<Rightarrow> bind_r (encode_longstr (VStr s)) (\<lambda>b. Inr (tag CHR ''S'' # b))
      | VBytes x \<Rightarrow> bind_r (encode_longstr (VBytes x)) (\<lambda>b. Inr (tag CHR ''x'' # b))
      | VDict d \<Rightarrow> bind_r (encode_table max_depth (depth + 1) d) (\<lambda>b. Inr (tag CHR ''F'' # b))
      | VTuple xs \<Rightarrow>
          (case xs of
             [scale, ival] \<Rightarrow>
               if is_int scale \<and> is_int ival
               then bind_r (to_bytes_signed 4 (int_of ival))
                      (\<lambda>b. Inr (tag CHR ''D'' # of_int (int_of scale) # b))
               else Inl (AmqpCodecError ''unsupported field type {}'')
           | _ \<Rightarrow> Inl (AmqpCodecError ''unsupported field type {}''))
      | VList xs \<Rightarrow>
          bind_r (encode_items max_depth (depth + 1) xs) (\<lambda>parts.
            if int (length parts) > DEFAULT_FRAME_MAX
            then Inl (AmqpCodecError ''array length {} exceeds ceiling'')
            else bind_r (to_bytes 4 (int (length parts))) (\<lambda>n. Inr (tag CHR ''A'' # n @ parts)))
      | VDecimal c e \<Rightarrow> encode_decimal c e
      | VDecimalSpecial \<Rightarrow> Inl (AmqpCodecError ''Decimal infinity/NaN not supported in field tables'')
      | VDatetime t \<Rightarrow> bind_r (to_bytes 8 t) (\<lambda>b. Inr (tag CHR ''T'' # b))
      | VOther \<Rightarrow> Inl (AmqpCodecError ''unsupported field type {}''))"
| "encode_items max_depth depth [] = Inr []"
| "encode_items max_depth depth (x # xs) =
     cat_r [encode_field_value max_depth depth x, encode_items max_depth depth xs]"
| "encode_table max_depth depth table =
     (if depth > max_depth then Inl (AmqpCodecError ''field-table nesting exceeds max_depth {}'')
      else bind_r (encode_entries max_depth depth table) (\<lambda>parts.
             bind_r (to_bytes 4 (int (length parts))) (\<lambda>n. Inr (n @ parts))))"
| "encode_entries max_depth depth [] = Inr []"
| "encode_entries max_depth depth ((k, v) # kvs) =
     cat_r [encode_shortstr k, encode_field_value max_depth depth v, encode_entries max_depth depth kvs]"
  by pat_completeness auto
termination
  by (relation "measures [\<lambda>x. case x of
         Inl (Inl (_, _, v)) \<Rightarrow> 2 * size v
       | Inl (Inr (_, _, xs)) \<Rightarrow> 2 * size_list size xs
       | Inr (Inl (_, _, d)) \<Rightarrow> 2 * size_list (size_prod (\<lambda>_. 0) size) d + 1
       | Inr (Inr (_, _, d)) \<Rightarrow> 2 * size_list (size_prod (\<lambda>_. 0) size) d]") auto

declare encode_field_value.simps [simp del] encode_table.simps [simp del]

section \<open>Field values and tables: decoding\<close>

text \<open>
  \<open>struct.unpack(">f", b)[0]\<close>: the binary64 pattern of a binary32 pattern. Normal numbers are
  rebiased, subnormals normalised, infinities kept, NaNs quieted with their payload.
\<close>

fun high_bit :: "nat \<Rightarrow> nat" where
  "high_bit n = (if n < 2 then 0 else Suc (high_bit (n div 2)))"

definition single_to_double :: "nat \<Rightarrow> nat" where
  "single_to_double w =
     (let s = w div 2 ^ 31 mod 2; e = w div 2 ^ 23 mod 256; m = w mod 2 ^ 23;
          body = (if e = 255 then
                    2047 * 2 ^ 52 + (if m = 0 then 0 else if m < 2 ^ 22 then 2 ^ 51 + m * 2 ^ 29 else m * 2 ^ 29)
                  else if e = 0 then
                    (if m = 0 then 0
                     else let k = high_bit m in (k + 874) * 2 ^ 52 + (m - 2 ^ k) * 2 ^ (52 - k))
                  else (e + 896) * 2 ^ 52 + m * 2 ^ 29)
      in s * 2 ^ 63 + body)"

text \<open>
  The four functions of the decoder are mutually recursive: a value may be an array or a table,
  whose \<open>while pos < end\<close> loops decode values. That a loop stops rests on the decoder's own
  progress (every value consumes at least its tag), so termination is proved from a lemma about
  the function's results.
\<close>

definition need :: "bytes \<Rightarrow> nat \<Rightarrow> nat \<Rightarrow> string \<Rightarrow> 'a res \<Rightarrow> 'a res" where
  "need data offset n what k = (if offset + n > length data then Inl (AmqpCodecError what) else k)"

text \<open>The tags that do not recurse; \<open>offset\<close> is already past the tag.\<close>

definition decode_scalar :: "char \<Rightarrow> bytes \<Rightarrow> nat \<Rightarrow> (pyval \<times> nat) res" where
  "decode_scalar t data offset =
     (if t = CHR ''V'' then Inr (VNone, offset)
      else if t = CHR ''t'' then need data offset 1 ''bool truncated''
        (Inr (VBool (data ! offset \<noteq> 0), offset + 1))
      else if t = CHR ''b'' then need data offset 1 ''byte truncated''
        (Inr (VInt (from_be_signed (pyslice data offset (offset + 1))), offset + 1))
      else if t = CHR ''B'' then need data offset 1 ''ubyte truncated''
        (Inr (VInt (uint (data ! offset)), offset + 1))
      else if t = CHR ''U'' then need data offset 2 ''ushort truncated''
        (Inr (VInt (int (from_be (pyslice data offset (offset + 2)))), offset + 2))
      else if t = CHR ''u'' then need data offset 2 ''short truncated''
        (Inr (VInt (from_be_signed (pyslice data offset (offset + 2))), offset + 2))
      else if t = CHR ''i'' then need data offset 4 ''uint truncated''
        (Inr (VInt (int (from_be (pyslice data offset (offset + 4)))), offset + 4))
      else if t = CHR ''I'' then need data offset 4 ''int truncated''
        (Inr (VInt (from_be_signed (pyslice data offset (offset + 4))), offset + 4))
      else if t = CHR ''l'' then need data offset 8 ''ulong truncated''
        (Inr (VInt (int (from_be (pyslice data offset (offset + 8)))), offset + 8))
      else if t = CHR ''L'' then need data offset 8 ''long truncated''
        (Inr (VInt (from_be_signed (pyslice data offset (offset + 8))), offset + 8))
      else if t = CHR ''f'' then need data offset 4 ''float truncated''
        (Inr (VFloat (of_nat (single_to_double (from_be (pyslice data offset (offset + 4))))), offset + 4))
      else if t = CHR ''d'' then need data offset 8 ''double truncated''
        (Inr (VFloat (of_nat (from_be (pyslice data offset (offset + 8)))), offset + 8))
      else if t = CHR ''D'' then need data offset 5 ''decimal truncated''
        (Inr (VTuple [VInt (uint (data ! offset)),
                      VInt (from_be_signed (pyslice data (offset + 1) (offset + 5)))], offset + 5))
      else if t = CHR ''T'' then need data offset 8 ''timestamp truncated''
        (Inr (VInt (int (from_be (pyslice data offset (offset + 8)))), offset + 8))
      else if t = CHR ''s'' then
        bind_r (decode_shortstr data offset) (\<lambda>(s, p). Inr (VStr s, p))
      else if t = CHR ''S'' then
        bind_r (decode_longstr data offset) (\<lambda>(raw, p).
          bind_r (utf8_decode raw) (\<lambda>s. Inr (VStr s, p)))
      else if t = CHR ''x'' then
        bind_r (decode_longstr data offset) (\<lambda>(raw, p). Inr (VBytes raw, p))
      else Inl (AmqpCodecError ''unsupported field tag {}''))"

definition tag_char :: "byte \<Rightarrow> char" where
  "tag_char b = char_of (unat b)"

function (domintros) decode_field_value :: "nat \<Rightarrow> bytes \<Rightarrow> nat \<Rightarrow> nat \<Rightarrow> (pyval \<times> nat) res"
  and decode_items :: "nat \<Rightarrow> bytes \<Rightarrow> nat \<Rightarrow> nat \<Rightarrow> nat \<Rightarrow> (pyval list \<times> nat) res"
  and decode_table :: "nat \<Rightarrow> bytes \<Rightarrow> nat \<Rightarrow> nat \<Rightarrow> (pydict \<times> nat) res"
  and decode_entries :: "nat \<Rightarrow> bytes \<Rightarrow> nat \<Rightarrow> nat \<Rightarrow> nat \<Rightarrow> pydict \<Rightarrow> pydict res" where
  "decode_field_value max_depth data offset depth =
     (if depth > max_depth then Inl (AmqpCodecError ''field-table nesting exceeds max_depth {}'')
      else if offset \<ge> length data then Inl (AmqpCodecError ''missing field value type'')
      else
        let t = tag_char (data ! offset); off = offset + 1 in
        if t = CHR ''F'' then
          bind_r (decode_table max_depth data off (depth + 1)) (\<lambda>(d, p). Inr (VDict d, p))
        else if t = CHR ''A'' then
          (if off + 4 > length data then Inl (AmqpCodecError ''array missing length'')
           else
             let n = from_be (pyslice data off (off + 4)) in
             if int n > DEFAULT_FRAME_MAX then Inl (AmqpCodecError ''array length {} exceeds ceiling'')
             else
               let end_pos = off + 4 + n in
               if end_pos > length data then Inl (AmqpCodecError ''array truncated'')
               else bind_r (decode_items max_depth data end_pos (depth + 1) (off + 4))
                      (\<lambda>(items, _). Inr (VList items, end_pos)))
        else decode_scalar t data off)"
| "decode_items max_depth data end_pos depth pos =
     (if pos < end_pos
      then bind_r (decode_field_value max_depth data pos depth) (\<lambda>(item, pos').
             bind_r (decode_items max_depth data end_pos depth pos') (\<lambda>(items, p).
               Inr (item # items, p)))
      else Inr ([], pos))"
| "decode_table max_depth data offset depth =
     (if depth > max_depth then Inl (AmqpCodecError ''field-table nesting exceeds max_depth {}'')
      else if offset + 4 > length data then Inl (AmqpCodecError ''table missing length'')
      else
        let n = from_be (pyslice data offset (offset + 4)) in
        if int n > DEFAULT_FRAME_MAX then Inl (AmqpCodecError ''table length {} exceeds ceiling'')
        else
          let start = offset + 4; end_pos = start + n in
          if end_pos > length data then Inl (AmqpCodecError ''table truncated'')
          else bind_r (decode_entries max_depth data end_pos depth start [])
                 (\<lambda>result. Inr (result, end_pos)))"
| "decode_entries max_depth data end_pos depth pos result =
     (if pos < end_pos
      then bind_r (decode_shortstr data pos) (\<lambda>(key, pos').
             bind_r (decode_field_value max_depth data pos' (depth + 1)) (\<lambda>(value, pos'').
               decode_entries max_depth data end_pos depth pos'' (dict_set result key value)))
      else Inr result)"
  by pat_completeness auto

lemma decode_shortstr_progress: "decode_shortstr data off = Inr (s, p) \<Longrightarrow> off < p \<and> p \<le> length data"
  by (auto simp: decode_shortstr_def Let_def bind_r_Inr_iff split: if_splits)

lemma decode_longstr_progress: "decode_longstr data off = Inr (s, p) \<Longrightarrow> off < p \<and> p \<le> length data"
  by (auto simp: decode_longstr_def Let_def split: if_splits)

lemma decode_scalar_progress:
  assumes "decode_scalar t data off = Inr (v, p)" "off \<le> length data"
  shows "off \<le> p \<and> p \<le> length data"
  using assms
  by (auto simp: decode_scalar_def need_def bind_r_Inr_iff
      dest: decode_shortstr_progress decode_longstr_progress split: if_splits)

lemma decode_progress_dom:
  "decode_field_value_decode_items_decode_table_decode_entries_dom (Inl (Inl (m, data, off, d))) \<Longrightarrow>
     (\<forall>v p. decode_field_value m data off d = Inr (v, p) \<longrightarrow> off < p \<and> p \<le> length data)"
  "decode_field_value_decode_items_decode_table_decode_entries_dom (Inl (Inr (m, data, e, d, pos))) \<Longrightarrow> True"
  "decode_field_value_decode_items_decode_table_decode_entries_dom (Inr (Inl (m, data, off, d))) \<Longrightarrow>
     (\<forall>t p. decode_table m data off d = Inr (t, p) \<longrightarrow> off + 4 \<le> p \<and> p \<le> length data)"
  "decode_field_value_decode_items_decode_table_decode_entries_dom (Inr (Inr (m, data, e, d, pos, r))) \<Longrightarrow> True"
proof (induction rule: decode_field_value_decode_items_decode_table_decode_entries.pinduct)
  case (1 m data off d)
  then show ?case
    by (fastforce simp: decode_field_value.psimps Let_def bind_r_Inr_iff
        dest!: decode_scalar_progress split: if_splits)
next
  case (3 m data off d)
  then show ?case
    by (auto simp: decode_table.psimps Let_def bind_r_Inr_iff split: if_splits)
qed auto

termination decode_field_value
proof (relation "measures [\<lambda>x. case x of
         Inl (Inl (m, _, _, d)) \<Rightarrow> m + 2 - d
       | Inl (Inr (m, _, _, d, _)) \<Rightarrow> m + 2 - d
       | Inr (Inl (m, _, _, d)) \<Rightarrow> m + 2 - d
       | Inr (Inr (m, _, _, d, _, _)) \<Rightarrow> m + 2 - d,
      \<lambda>x. case x of Inl (Inl _) \<Rightarrow> 0 | Inl (Inr _) \<Rightarrow> 1 | Inr (Inl _) \<Rightarrow> 2 | Inr (Inr _) \<Rightarrow> 1,
      \<lambda>x. case x of
         Inl (Inl _) \<Rightarrow> 0 | Inl (Inr (_, _, e, _, pos)) \<Rightarrow> e - pos
       | Inr (Inl _) \<Rightarrow> 0 | Inr (Inr (_, _, e, _, pos, _)) \<Rightarrow> e - pos]", goal_cases)
  case 1
  show ?case by simp
qed (auto dest!: decode_progress_dom(1) decode_shortstr_progress)

declare decode_field_value.simps [simp del] decode_items.simps [simp del]
  decode_table.simps [simp del] decode_entries.simps [simp del]

section \<open>Bounds of the decoder\<close>

lemma decode_table_bounds:
  "decode_table m data off d = Inr (t, p) \<Longrightarrow> off + 4 \<le> p \<and> p \<le> length data"
  by (auto simp: decode_table.simps[of m data off d] Let_def bind_r_Inr_iff split: if_splits)

lemma decode_field_value_bounds:
  "decode_field_value m data off d = Inr (v, p) \<Longrightarrow> off < p \<and> p \<le> length data"
  by (fastforce simp: decode_field_value.simps[of m data off d] Let_def bind_r_Inr_iff
      dest!: decode_scalar_progress decode_table_bounds split: if_splits)

text \<open>The nesting of containers in a value.\<close>

fun nesting :: "pyval \<Rightarrow> nat" where
  "nesting (VList xs) = Suc (Max (set (0 # map nesting xs)))"
| "nesting (VDict d) = Suc (Max (set (0 # map (\<lambda>(_, v). nesting v) d)))"
| "nesting _ = 0"

section \<open>Round trips of strings\<close>

lemma decode_shortstr_round:
  assumes "encode_shortstr s = Inr bs"
  shows "decode_shortstr (pre @ bs @ post) (length pre) = Inr (s, length pre + length bs)"
proof -
  from assms obtain raw where raw: "utf8_encode s = Inr raw" "length raw \<le> 255"
    and bs: "bs = of_nat (length raw) # raw"
    by (auto simp: encode_shortstr_def bind_r_Inr_iff split: if_splits)
  have n: "unat (of_nat (length raw) :: byte) = length raw"
    using raw(2) by (simp add: unat_of_nat)
  have "pyslice (pre @ bs @ post) (length pre + 1) (length pre + 1 + length raw) = raw"
    by (rule pyslice_mid_eq[of _ "pre @ [of_nat (length raw)]" _ post]) (simp_all add: bs)
  then show ?thesis
    using raw utf8_round[OF raw(1)] by (simp add: decode_shortstr_def Let_def bs n)
qed

interpretation shortstr: wire_codec encode_shortstr decode_shortstr "\<lambda>_. True"
  by unfold_locales (rule decode_shortstr_round)

lemma decode_longstr_round:
  assumes "longstr_of_bytes x = Inr bs" "int (length x) \<le> DEFAULT_FRAME_MAX"
  shows "decode_longstr (pre @ bs @ post) (length pre) = Inr (x, length pre + length bs)"
proof -
  from assms(1) have bs: "bs = be 4 (length x) @ x" and l: "length x < 256 ^ 4"
    by (auto simp: longstr_of_bytes_def bind_r_Inr_iff to_bytes_Inr_iff simp flip: of_nat_power)
  have s1: "pyslice (pre @ bs @ post) (length pre) (length pre + 4) = be 4 (length x)"
    by (rule pyslice_mid_eq[of _ pre _ "x @ post"]) (simp_all add: bs)
  have s2: "pyslice (pre @ bs @ post) (length pre + 4) (length pre + 4 + length x) = x"
    by (rule pyslice_mid_eq[of _ "pre @ be 4 (length x)" _ post]) (simp_all add: bs)
  have n: "from_be (be 4 (length x)) = length x" using l by (rule from_be_be_id)
  show ?thesis
    unfolding decode_longstr_def Let_def s1 n s2 using assms(2) by (simp add: bs)
qed

interpretation longstr: wire_codec longstr_of_bytes decode_longstr "\<lambda>x. int (length x) \<le> DEFAULT_FRAME_MAX"
  by unfold_locales (rule decode_longstr_round)

section \<open>Round trip of field values and tables\<close>

text \<open>
  The values that come back as themselves: everything the encoder takes except dates and
  \<open>Decimal\<close> objects (which decode to an integer and a pair), pairs whose scale does not fit an
  octet, and other tuples.
\<close>

fun wire_pair :: "pyval list \<Rightarrow> bool" where
  "wire_pair [VInt s, VInt i] = (0 \<le> s \<and> s < 256)"
| "wire_pair _ = False"

fun_cases wire_pairE: "wire_pair xs"

fun wire_val :: "pyval \<Rightarrow> bool" where
  "wire_val (VList xs) = list_all wire_val xs"
| "wire_val (VDict d) = (dict_ok d \<and> list_all (\<lambda>(k, v). wire_val v) d)"
| "wire_val (VTuple xs) = wire_pair xs"
| "wire_val (VDecimal _ _) = False"
| "wire_val VDecimalSpecial = False"
| "wire_val (VDatetime _) = False"
| "wire_val VOther = False"
| "wire_val _ = True"

text \<open>
  The depth the decoder needs above its starting depth: a list costs one level, a table two
  (the encoder counts one).
\<close>

fun decode_weight :: "pyval \<Rightarrow> nat" where
  "decode_weight (VList xs) = (if xs = [] then 0 else Suc (Max (set (map decode_weight xs))))"
| "decode_weight (VDict d) = Suc (if d = [] then 0 else Suc (Max (set (map (\<lambda>(_, v). decode_weight v) d))))"
| "decode_weight _ = 0"

lemma tag_char_tag: "of_char c < (128::nat) \<Longrightarrow> tag_char (tag c) = c"
  by (simp add: tag_char_def tag_def unat_of_nat)

lemma tag_chars [simp]:
  "tag_char (tag CHR ''V'') = CHR ''V''" "tag_char (tag CHR ''t'') = CHR ''t''"
  "tag_char (tag CHR ''I'') = CHR ''I''" "tag_char (tag CHR ''L'') = CHR ''L''"
  "tag_char (tag CHR ''d'') = CHR ''d''" "tag_char (tag CHR ''S'') = CHR ''S''"
  "tag_char (tag CHR ''x'') = CHR ''x''" "tag_char (tag CHR ''F'') = CHR ''F''"
  "tag_char (tag CHR ''A'') = CHR ''A''" "tag_char (tag CHR ''D'') = CHR ''D''"
  "tag_char (tag CHR ''T'') = CHR ''T''"
  by (auto intro!: tag_char_tag)

text \<open>The scalar tags, one after the other; the buffer stands just after the tag.\<close>

lemma scalar_int32:
  assumes "- 0x80000000 \<le> n" "n \<le> 0x7FFFFFFF" "to_bytes_signed 4 n = Inr r"
  shows "decode_scalar CHR ''I'' (pre @ r @ post) (length pre) = Inr (VInt n, length pre + length r)"
proof -
  from assms(3) have r: "r = be 4 (nat (n mod 256 ^ 4))" by (simp add: to_bytes_signed_Inr_iff)
  then have l: "length r = 4" by simp
  have s: "pyslice (pre @ r @ post) (length pre) (length pre + 4) = r"
    by (rule pyslice_mid_eq[of _ pre _ post]) (simp_all add: l)
  have "from_be_signed r = n" unfolding r by (rule from_be_signed_be) (use assms in simp_all)
  with s l show ?thesis by (simp add: decode_scalar_def need_def)
qed

lemma scalar_int64:
  assumes "to_bytes_signed 8 n = Inr r"
  shows "decode_scalar CHR ''L'' (pre @ r @ post) (length pre) = Inr (VInt n, length pre + length r)"
proof -
  from assms have r: "r = be 8 (nat (n mod 256 ^ 8))"
    and b: "- (256 ^ 8 div 2) \<le> n" "n < 256 ^ 8 div 2" by (simp_all add: to_bytes_signed_Inr_iff)
  then have l: "length r = 8" by simp
  have s: "pyslice (pre @ r @ post) (length pre) (length pre + 8) = r"
    by (rule pyslice_mid_eq[of _ pre _ post]) (simp_all add: l)
  have "from_be_signed r = n" unfolding r by (rule from_be_signed_be) (use b in simp_all)
  with s l show ?thesis by (simp add: decode_scalar_def need_def)
qed

lemma scalar_double:
  "decode_scalar CHR ''d'' (pre @ be 8 (unat w) @ post) (length pre) =
     Inr (VFloat (w :: 64 word), length pre + 8)"
proof -
  have s: "pyslice (pre @ be 8 (unat w) @ post) (length pre) (length pre + 8) = be 8 (unat w)"
    by (rule pyslice_mid_eq[of _ pre _ post]) simp_all
  have "unat w < 2 ^ LENGTH(64)" by (rule unsigned_less)
  then have "from_be (be 8 (unat w)) = unat w" by (intro from_be_be_id) simp
  with s show ?thesis by (simp add: decode_scalar_def need_def)
qed

lemma scalar_pair:
  assumes "to_bytes_signed 4 n = Inr r" "0 \<le> s" "s < 256"
  shows "decode_scalar CHR ''D'' (pre @ (of_int s # r) @ post) (length pre) =
     Inr (VTuple [VInt s, VInt n], length pre + 5)"
proof -
  let ?d = "pre @ (of_int s # r) @ post"
  from assms have r: "r = be 4 (nat (n mod 256 ^ 4))"
    and b: "- (256 ^ 4 div 2) \<le> n" "n < 256 ^ 4 div 2" by (simp_all add: to_bytes_signed_Inr_iff)
  then have l: "length r = 4" by simp
  have t: "pyslice ?d (length pre + 1) (length pre + 5) = r"
    by (rule pyslice_mid_eq[of _ "pre @ [of_int s]" _ post]) (simp_all add: l)
  have i: "from_be_signed r = n" unfolding r by (rule from_be_signed_be) (use b in simp_all)
  have "uint (of_int s :: byte) = s mod 2 ^ LENGTH(8)" by (simp add: uint_word_of_int_eq take_bit_eq_mod)
  then have u: "uint (?d ! length pre) = s" using assms(2,3) by simp
  show ?thesis using t i u l by (simp add: decode_scalar_def need_def)
qed

lemma scalar_str:
  assumes "encode_longstr (VStr s) = Inr r" "int (length r) \<le> DEFAULT_FRAME_MAX"
  shows "decode_scalar CHR ''S'' (pre @ r @ post) (length pre) = Inr (VStr s, length pre + length r)"
proof -
  from assms(1) obtain raw where raw: "utf8_encode s = Inr raw" "longstr_of_bytes raw = Inr r"
    by (auto simp: bind_r_Inr_iff)
  then have "length raw \<le> length r" by (auto simp: longstr_of_bytes_def bind_r_Inr_iff)
  with raw assms(2) have "decode_longstr (pre @ r @ post) (length pre) = Inr (raw, length pre + length r)"
    by (intro decode_longstr_round) auto
  then show ?thesis using utf8_round[OF raw(1)] by (simp add: decode_scalar_def)
qed

lemma scalar_bytes:
  assumes "encode_longstr (VBytes x) = Inr r" "int (length r) \<le> DEFAULT_FRAME_MAX"
  shows "decode_scalar CHR ''x'' (pre @ r @ post) (length pre) = Inr (VBytes x, length pre + length r)"
proof -
  from assms(1) have "length x \<le> length r" by (auto simp: longstr_of_bytes_def bind_r_Inr_iff)
  with assms have "decode_longstr (pre @ r @ post) (length pre) = Inr (x, length pre + length r)"
    by (intro decode_longstr_round) auto
  then show ?thesis by (simp add: decode_scalar_def)
qed

lemma decode_tagged:
  assumes "d \<le> m" "tag_char b \<noteq> CHR ''F''" "tag_char b \<noteq> CHR ''A''"
  shows "decode_field_value m (pre @ (b # r) @ post) (length pre) d =
    decode_scalar (tag_char b) ((pre @ [b]) @ r @ post) (length (pre @ [b]))"
  using assms by (simp add: decode_field_value.simps[of m _ _ d] Let_def)

text \<open>Every value that does not contain others.\<close>

fun is_container :: "pyval \<Rightarrow> bool" where
  "is_container (VList _) = True"
| "is_container (VDict _) = True"
| "is_container _ = False"

lemma decode_leaf_round:
  assumes "\<not> is_container v" "wire_val v" "encode_field_value em e v = Inr bs"
    and "int (length bs) \<le> DEFAULT_FRAME_MAX" "d \<le> m"
  shows "decode_field_value m (pre @ bs @ post) (length pre) d = Inr (v, length pre + length bs)"
proof (cases v)
  case VNone
  with assms(3) have "bs = tag CHR ''V'' # []" by (simp add: encode_field_value.simps split: if_splits)
  then show ?thesis using decode_tagged[of d m "tag CHR ''V''" pre "[]" post] assms(5) VNone
    by (simp add: decode_scalar_def)
next
  case (VBool b)
  with assms(3) have "bs = tag CHR ''t'' # [if b then 1 else 0]"
    by (simp add: encode_field_value.simps split: if_splits)
  then show ?thesis using decode_tagged[of d m "tag CHR ''t''" pre "[if b then 1 else 0]" post] assms(5) VBool
    by (simp add: decode_scalar_def need_def nth_append)
next
  case (VInt n)
  show ?thesis
  proof (cases "- 0x80000000 \<le> n \<and> n \<le> 0x7FFFFFFF")
    case True
    with assms(3) VInt obtain r where r: "to_bytes_signed 4 n = Inr r" "bs = tag CHR ''I'' # r"
      by (auto simp: encode_field_value.simps bind_r_Inr_iff split: if_splits)
    then show ?thesis
      using decode_tagged[of d m "tag CHR ''I''" pre r post] assms(5) VInt True
        scalar_int32[OF _ _ r(1), of "pre @ [tag CHR ''I'']" post] by simp
  next
    case False
    with assms(3) VInt obtain r where r: "to_bytes_signed 8 n = Inr r" "bs = tag CHR ''L'' # r"
      by (auto simp: encode_field_value.simps bind_r_Inr_iff split: if_splits)
    then show ?thesis
      using decode_tagged[of d m "tag CHR ''L''" pre r post] assms(5) VInt
        scalar_int64[OF r(1), of "pre @ [tag CHR ''L'']" post] by simp
  qed
next
  case (VFloat w)
  with assms(3) have "bs = tag CHR ''d'' # be 8 (unat w)" by (simp add: encode_field_value.simps split: if_splits)
  then show ?thesis using decode_tagged[of d m "tag CHR ''d''" pre "be 8 (unat w)" post] assms(5) VFloat
      scalar_double[of "pre @ [tag CHR ''d'']" w post] by simp
next
  case (VStr s)
  with assms(3) obtain r where r: "encode_longstr (VStr s) = Inr r" "bs = tag CHR ''S'' # r"
    by (auto simp: encode_field_value.simps bind_r_Inr_iff split: if_splits)
  then show ?thesis using decode_tagged[of d m "tag CHR ''S''" pre r post] assms(4,5) VStr
      scalar_str[OF r(1), of "pre @ [tag CHR ''S'']" post] by simp
next
  case (VBytes x)
  with assms(3) obtain r where r: "encode_longstr (VBytes x) = Inr r" "bs = tag CHR ''x'' # r"
    by (auto simp: encode_field_value.simps bind_r_Inr_iff split: if_splits)
  then show ?thesis using decode_tagged[of d m "tag CHR ''x''" pre r post] assms(4,5) VBytes
      scalar_bytes[OF r(1), of "pre @ [tag CHR ''x'']" post] by simp
next
  case (VTuple xs)
  with assms(2) have "wire_pair xs" by simp
  then obtain s n where xs: "xs = [VInt s, VInt n]" "0 \<le> s" "s < 256"
    by (auto elim: wire_pairE)
  with assms(3) VTuple obtain r where r: "to_bytes_signed 4 n = Inr r" "bs = tag CHR ''D'' # of_int s # r"
    by (auto simp: encode_field_value.simps bind_r_Inr_iff split: if_splits)
  have "length r = 4" using r(1) by (auto simp: to_bytes_signed_Inr_iff)
  moreover have "decode_field_value m (pre @ bs @ post) (length pre) d =
      decode_scalar CHR ''D'' ((pre @ [tag CHR ''D'']) @ (of_int s # r) @ post) (length (pre @ [tag CHR ''D'']))"
    unfolding r(2) using decode_tagged[of d m "tag CHR ''D''" pre "of_int s # r" post] assms(5)
    by (simp only: tag_chars char.inject simp_thms)
  ultimately show ?thesis
    unfolding scalar_pair[OF r(1) xs(2,3), of "pre @ [tag CHR ''D'']" post] by (simp add: VTuple xs(1) r(2))
qed (use assms(1,2) in simp_all)

text \<open>Values that may be decoded \<open>room\<close> levels below the depth limit.\<close>

abbreviation fits :: "nat \<Rightarrow> nat \<Rightarrow> pyval \<Rightarrow> bool" where
  "fits m d v \<equiv> d + decode_weight v \<le> m"

lemma fits_list: "fits m d (VList xs) \<Longrightarrow> x \<in> set xs \<Longrightarrow> fits m (Suc d) x"
proof -
  assume f: "fits m d (VList xs)" and x: "x \<in> set xs"
  then have le: "decode_weight x \<le> Max (decode_weight ` set xs)" by (intro Max_ge) auto
  from f x have "Suc (d + Max (decode_weight ` set xs)) \<le> m" by (auto split: if_splits)
  with le show ?thesis by linarith
qed

lemma fits_dict: "fits m d (VDict t) \<Longrightarrow> (k, v) \<in> set t \<Longrightarrow> fits m (Suc (Suc d)) v"
proof -
  assume f: "fits m d (VDict t)" and kv: "(k, v) \<in> set t"
  then have le: "decode_weight v \<le> Max ((\<lambda>(_, v). decode_weight v) ` set t)" by (intro Max_ge) force+
  from f kv have "Suc (Suc (d + Max ((\<lambda>(_, v). decode_weight v) ` set t))) \<le> m" by (auto split: if_splits)
  with le show ?thesis by linarith
qed

lemma fits_dict_table: "fits m d (VDict t) \<Longrightarrow> Suc d \<le> m"
  by auto

lemma to_bytes_length:
  assumes "to_bytes 4 (int (length parts)) = Inr n"
  shows "n = be 4 (length parts)" "length n = 4" "from_be n = length parts"
proof -
  from assms show n: "n = be 4 (length parts)" by (simp add: to_bytes_Inr_iff)
  then show "length n = 4" by simp
  from assms have "length parts < 256 ^ 4" by (simp add: to_bytes_Inr_iff)
  then show "from_be n = length parts" unfolding n by (rule from_be_be_id)
qed

lemma dict_ok_snoc: "dict_ok (acc @ (k, v) # kvs) \<Longrightarrow> dict_set acc k v = acc @ [(k, v)]"
  by (intro dict_set_new) (auto simp: dict_ok_def)

text \<open>
  The round trip, by induction on the encoder. \<open>em\<close> and \<open>e\<close> are the limit and depth of the
  encoder, \<open>m\<close> and \<open>d\<close> those of the decoder.
\<close>

lemma decode_round:
  "wire_val v \<Longrightarrow> encode_field_value em e v = Inr bs \<Longrightarrow> int (length bs) \<le> DEFAULT_FRAME_MAX \<Longrightarrow>
     fits m d v \<Longrightarrow>
     decode_field_value m (pre @ bs @ post) (length pre) d = Inr (v, length pre + length bs)"
  "list_all wire_val xs \<Longrightarrow> encode_items em e xs = Inr bs \<Longrightarrow> int (length bs) \<le> DEFAULT_FRAME_MAX \<Longrightarrow>
     list_all (fits m d) xs \<Longrightarrow>
     decode_items m (pre @ bs @ post) (length pre + length bs) d (length pre) = Inr (xs, length pre + length bs)"
  "list_all (\<lambda>(_, v). wire_val v) t \<Longrightarrow> dict_ok t \<Longrightarrow> encode_table em e t = Inr bs \<Longrightarrow>
     int (length bs) \<le> DEFAULT_FRAME_MAX \<Longrightarrow> d \<le> m \<Longrightarrow> list_all (\<lambda>(_, v). fits m (Suc d) v) t \<Longrightarrow>
     decode_table m (pre @ bs @ post) (length pre) d = Inr (t, length pre + length bs)"
  "list_all (\<lambda>(_, v). wire_val v) t \<Longrightarrow> dict_ok (acc @ t) \<Longrightarrow> encode_entries em e t = Inr bs \<Longrightarrow>
     int (length bs) \<le> DEFAULT_FRAME_MAX \<Longrightarrow> list_all (\<lambda>(_, v). fits m (Suc d) v) t \<Longrightarrow>
     decode_entries m (pre @ bs @ post) (length pre + length bs) d (length pre) acc = Inr (acc @ t)"
proof (induction em e v and em e xs and em e t and em e t arbitrary: bs d pre post and bs d pre post
    and bs d pre post and bs d pre post acc
    rule: encode_field_value_encode_items_encode_table_encode_entries.induct)
  case (1 em e v)
  have e: "\<not> e > em" using "1.prems"(2) by (auto simp: encode_field_value.simps split: if_splits)
  consider (leaf) "\<not> is_container v" | (list) xs where "v = VList xs" | (dict) t where "v = VDict t"
    by (cases v) auto
  then show ?case
  proof cases
    case leaf
    then show ?thesis using "1.prems" by (intro decode_leaf_round) auto
  next
    case list
    obtain parts n where p: "encode_items em (e + 1) xs = Inr parts" "int (length parts) \<le> DEFAULT_FRAME_MAX"
      "to_bytes 4 (int (length parts)) = Inr n" "bs = tag CHR ''A'' # n @ parts"
      using "1.prems"(2) e by (auto simp: encode_field_value.simps list bind_r_Inr_iff split: if_splits)
    note n = to_bytes_length[OF p(3)]
    let ?d = "pre @ bs @ post" and ?pre = "(pre @ [tag CHR ''A'']) @ n"
    have d: "?d = ?pre @ parts @ post" by (simp add: p(4))
    have s: "pyslice ?d (length pre + 1) (length pre + 1 + 4) = n"
      by (rule pyslice_mid_eq[of _ "pre @ [tag CHR ''A'']" _ "parts @ post"]) (simp_all add: p(4) n)
    have it: "decode_items m ?d (length pre + 1 + 4 + length parts) (d + 1) (length pre + 1 + 4) =
        Inr (xs, length pre + 1 + 4 + length parts)"
      using "1.IH"(1)[OF e list, where bs = parts and d = "d + 1" and pre = ?pre and post = post]
        "1.prems" p fits_list[where d = d and m = m and xs = xs] unfolding d list by (simp add: n list_all_iff ac_simps)
    have k: "?d ! length pre = tag CHR ''A''" by (simp add: p(4))
    show ?thesis
      unfolding decode_field_value.simps[of m ?d "length pre" d] Let_def k tag_chars s n(3) it
      using "1.prems"(4) p(2) by (simp add: p(4) n(2) list)
  next
    case dict
    obtain r where r: "encode_table em (e + 1) t = Inr r" "bs = tag CHR ''F'' # r"
      using "1.prems"(2) e by (auto simp: encode_field_value.simps dict bind_r_Inr_iff split: if_splits)
    let ?d = "pre @ bs @ post" and ?pre = "pre @ [tag CHR ''F'']"
    have d: "?d = ?pre @ r @ post" by (simp add: r(2))
    have it: "decode_table m ?d (length pre + 1) (d + 1) = Inr (t, length pre + 1 + length r)"
      using "1.IH"(2)[OF e dict, where bs = r and d = "d + 1" and pre = ?pre and post = post]
        "1.prems" r fits_dict[where d = d and m = m and t = t] fits_dict_table[where d = d and m = m and t = t] unfolding d dict
      by (auto simp: list_all_iff ac_simps)
    have k: "?d ! length pre = tag CHR ''F''" by (simp add: r(2))
    show ?thesis
      unfolding decode_field_value.simps[of m ?d "length pre" d] Let_def k tag_chars it
      using "1.prems"(4) by (simp add: r(2) dict)
  qed
next
  case (2 em e)
  then show ?case by (simp add: decode_items.simps)
next
  case (3 em e x xs)
  from "3.prems"(2) obtain b r where b: "encode_field_value em e x = Inr b" and r: "encode_items em e xs = Inr r"
    and bs: "bs = b @ r" by (auto simp: bind_r_Inr_iff)
  let ?d = "pre @ bs @ post"
  have x: "decode_field_value m ?d (length pre) d = Inr (x, length pre + length b)"
    using "3.IH"(1)[where bs = b and d = d and pre = pre and post = "r @ post"] "3.prems" b by (simp add: bs)
  have xs: "decode_items m ?d (length pre + length bs) d (length pre + length b) = Inr (xs, length pre + length bs)"
    using "3.IH"(2)[where bs = r and d = d and pre = "pre @ b" and post = post] "3.prems" r
    by (simp add: bs ac_simps)
  have "0 < length b" using decode_field_value_bounds[OF x] by simp
  then show ?case
    by (simp add: decode_items.simps[of m ?d "length pre + length bs" d "length pre"] x xs) (simp add: bs)
next
  case (4 em e t)
  then have e: "\<not> e > em" by (auto simp: encode_table.simps split: if_splits)
  obtain parts n where p: "encode_entries em e t = Inr parts" "to_bytes 4 (int (length parts)) = Inr n" "bs = n @ parts"
    using "4.prems"(3) e by (auto simp: encode_table.simps bind_r_Inr_iff)
  note n = to_bytes_length[OF p(2)]
  let ?d = "pre @ bs @ post"
  have s: "pyslice ?d (length pre) (length pre + 4) = n"
    by (rule pyslice_mid_eq[of _ pre _ "parts @ post"]) (simp_all add: p n)
  have it: "decode_entries m ?d (length pre + 4 + length parts) d (length pre + 4) [] = Inr t"
    using "4.IH"[OF e, where bs = parts and d = d and pre = "pre @ n" and post = post and acc = "[]"] "4.prems" p
    by (simp add: n ac_simps)
  show ?case
    unfolding decode_table.simps[of m ?d "length pre" d] Let_def s n(3) it
    using "4.prems"(4,5) by (simp add: p(3) n(2))
next
  case (5 em e)
  then show ?case by (simp add: decode_entries.simps)
next
  case (6 em e k v kvs)
  from "6.prems"(3) obtain kb b r where kb: "encode_shortstr k = Inr kb" and b: "encode_field_value em e v = Inr b"
    and r: "encode_entries em e kvs = Inr r" and bs: "bs = kb @ b @ r" by (auto simp: bind_r_Inr_iff)
  let ?d = "pre @ bs @ post"
  have k: "decode_shortstr ?d (length pre) = Inr (k, length pre + length kb)"
    using decode_shortstr_round[OF kb, of pre "b @ r @ post"] by (simp add: bs)
  have v: "decode_field_value m ?d (length pre + length kb) (d + 1) = Inr (v, length pre + length kb + length b)"
    using "6.IH"(1)[where bs = b and d = "d + 1" and pre = "pre @ kb" and post = "r @ post"] "6.prems" b
    by (simp add: bs ac_simps)
  have kvs: "decode_entries m ?d (length pre + length bs) d (length pre + length kb + length b) (acc @ [(k, v)]) =
      Inr ((acc @ [(k, v)]) @ kvs)"
    using "6.IH"(2)[where bs = r and d = d and pre = "pre @ kb @ b" and post = post and acc = "acc @ [(k, v)]"]
      "6.prems" r by (simp add: bs ac_simps)
  have "0 < length kb" using decode_shortstr_progress[OF k] by simp
  then show ?case
    using k v kvs dict_ok_snoc[OF "6.prems"(2)]
    by (simp add: decode_entries.simps[of m ?d "length pre + length bs" d "length pre"]) (simp add: bs)
qed

text \<open>Tables as they are sent: depth limit 32, and small enough for the decoder's ceiling.\<close>

definition table_ok :: "pydict \<Rightarrow> bool" where
  "table_ok t \<longleftrightarrow> dict_ok t \<and> list_all (\<lambda>(_, v). wire_val v) t \<and>
     list_all (\<lambda>(_, v). fits DEFAULT_MAX_TABLE_DEPTH 1 v) t \<and>
     (case encode_table DEFAULT_MAX_TABLE_DEPTH 0 t of
        Inl _ \<Rightarrow> True | Inr bs \<Rightarrow> int (length bs) \<le> DEFAULT_FRAME_MAX)"

interpretation field_table: wire_codec "encode_table DEFAULT_MAX_TABLE_DEPTH 0"
  "\<lambda>data off. decode_table DEFAULT_MAX_TABLE_DEPTH data off 0" table_ok
  by unfold_locales (auto simp: table_ok_def intro!: decode_round(3))

section \<open>What the decoder can return\<close>

lemma decode_scalar_leaf:
  "decode_scalar t data off = Inr (v, p) \<Longrightarrow> nesting v = 0 \<and> well_keyed v"
  by (auto simp: decode_scalar_def need_def bind_r_Inr_iff split: if_splits)

lemma set_dict_set: "(k', v') \<in> set (dict_set d k v) \<Longrightarrow> v' = v \<or> (k', v') \<in> set d"
  by (induction d k v rule: dict_set.induct) (auto split: if_splits)

lemma add_Max_le:
  fixes d m :: nat
  assumes "finite A" "d \<le> m" "\<And>a. a \<in> A \<Longrightarrow> d + a \<le> m"
  shows "d + Max (insert 0 A) \<le> m"
proof -
  have "Max (insert 0 A) \<in> insert 0 A" using assms(1) by (intro Max_in) auto
  with assms(2,3) show ?thesis by auto
qed

lemma decode_shape:
  "decode_field_value m data off d = Inr (v, p) \<Longrightarrow> d + nesting v \<le> Suc m \<and> well_keyed v"
  "decode_items m data e d pos = Inr (xs, p) \<Longrightarrow> \<forall>x\<in>set xs. d + nesting x \<le> Suc m \<and> well_keyed x"
  "decode_table m data off d = Inr (t, p) \<Longrightarrow>
     d \<le> m \<and> dict_ok t \<and> (\<forall>(k, v)\<in>set t. Suc d + nesting v \<le> Suc m \<and> well_keyed v)"
  "decode_entries m data e d pos acc = Inr t \<Longrightarrow>
     dict_ok acc \<and> (\<forall>(k, v)\<in>set acc. Suc d + nesting v \<le> Suc m \<and> well_keyed v) \<Longrightarrow>
     dict_ok t \<and> (\<forall>(k, v)\<in>set t. Suc d + nesting v \<le> Suc m \<and> well_keyed v)"
proof (induction m data off d and m data e d pos and m data off d and m data e d pos acc
    arbitrary: v p and xs p and t p and t
    rule: decode_field_value_decode_items_decode_table_decode_entries.induct)
  case (1 m data off d)
  let ?c = "tag_char (data ! off)"
  have g: "\<not> d > m" "\<not> off \<ge> length data"
    using "1.prems" by (auto simp: decode_field_value.simps[of m data off d] split: if_splits)
  consider "?c = CHR ''F''" | "?c = CHR ''A''" | "?c \<noteq> CHR ''F''" "?c \<noteq> CHR ''A''" by blast
  then show ?case
  proof cases
    case 1
    with "1.prems" g obtain t q where t: "decode_table m data (off + 1) (d + 1) = Inr (t, q)" "v = VDict t"
      by (auto simp: decode_field_value.simps[of m data off d] Let_def bind_r_Inr_iff)
    from "1.IH"(1)[OF g refl refl 1 t(1)] show ?thesis
      by (auto simp: t(2) list_all_iff intro!: add_Max_le)
  next
    case 2
    let ?n = "from_be (pyslice data (off + 1) (off + 1 + 4))"
    from 2 "1.prems" g obtain xs q where
      c: "\<not> off + 1 + 4 > length data" "\<not> int ?n > DEFAULT_FRAME_MAX" "\<not> off + 1 + 4 + ?n > length data"
      and t: "decode_items m data (off + 1 + 4 + ?n) (d + 1) (off + 1 + 4) = Inr (xs, q)" "v = VList xs"
      by (auto simp: decode_field_value.simps[of m data off d] Let_def bind_r_Inr_iff split: if_splits)
    have n: "?c \<noteq> CHR ''F''" using 2 by simp
    from "1.IH"(2)[OF g refl refl n 2 c(1) refl c(2) refl c(3) t(1)] g show ?thesis
      by (auto simp: t(2) list_all_iff intro!: add_Max_le)
  next
    case 3
    with "1.prems" g have "decode_scalar ?c data (off + 1) = Inr (v, p)"
      by (simp add: decode_field_value.simps[of m data off d] Let_def)
    then show ?thesis using decode_scalar_leaf g by fastforce
  qed
next
  case (2 m data e d pos)
  show ?case
  proof (cases "pos < e")
    case True
    with "2.prems" obtain x q ys where x: "decode_field_value m data pos d = Inr (x, q)"
      and ys: "decode_items m data e d q = Inr (ys, p)" and xs: "xs = x # ys"
      by (auto simp: decode_items.simps[of m data e d pos] bind_r_Inr_iff)
    from "2.IH"(1)[OF True x] "2.IH"(2)[OF True x refl ys] show ?thesis by (simp add: xs)
  next
    case False
    with "2.prems" show ?thesis by (simp add: decode_items.simps[of m data e d pos])
  qed
next
  case (3 m data off d)
  let ?n = "from_be (pyslice data off (off + 4))"
  from "3.prems" have c: "\<not> d > m" "\<not> off + 4 > length data" "\<not> int ?n > DEFAULT_FRAME_MAX"
      "\<not> off + 4 + ?n > length data"
    and t: "decode_entries m data (off + 4 + ?n) d (off + 4) [] = Inr t"
    by (auto simp: decode_table.simps[of m data off d] Let_def bind_r_Inr_iff split: if_splits)
  from "3.IH"[OF c(1,2) refl c(3) refl refl c(4) t] c(1) show ?case by simp
next
  case (4 m data e d pos acc)
  show ?case
  proof (cases "pos < e")
    case True
    with "4.prems" obtain k q v q' where k: "decode_shortstr data pos = Inr (k, q)"
      and v: "decode_field_value m data q (d + 1) = Inr (v, q')"
      and r: "decode_entries m data e d q' (dict_set acc k v) = Inr t"
      by (auto simp: decode_entries.simps[of m data e d pos] bind_r_Inr_iff)
    from "4.IH"(1)[OF True k refl v] have "Suc d + nesting v \<le> Suc m \<and> well_keyed v" by simp
    with "4.prems"(2) have "dict_ok (dict_set acc k v) \<and>
        (\<forall>(k, v)\<in>set (dict_set acc k v). Suc d + nesting v \<le> Suc m \<and> well_keyed v)"
      by (auto dest!: set_dict_set)
    from "4.IH"(2)[OF True k refl v refl r this] show ?thesis .
  next
    case False
    with "4.prems" show ?thesis by (simp add: decode_entries.simps[of m data e d pos])
  qed
qed

section \<open>Where encoder and decoder disagree\<close>

text \<open>A table of one entry whose value is such a table, \<open>n\<close> levels deep.\<close>

fun chain_table :: "nat \<Rightarrow> pydict" where
  "chain_table 0 = []"
| "chain_table (Suc n) = [(S ''k'', VDict (chain_table n))]"

lemma encode_key_k: "encode_shortstr (S ''k'') = Inr [1, 107]"
proof -
  have "utf8_encode (S ''k'') = Inr (map of_nat (S ''k''))" by (rule utf8_ascii) (simp add: S_def)
  then show ?thesis by (simp add: encode_shortstr_def S_def)
qed

fun chain_bytes :: "nat \<Rightarrow> bytes" where
  "chain_bytes 0 = be 4 0"
| "chain_bytes (Suc n) =
     (let b = [1, 107] @ tag CHR ''F'' # chain_bytes n in be 4 (length b) @ b)"

lemma length_chain_bytes: "length (chain_bytes n) = 7 * n + 4"
  by (induction n) (auto simp: Let_def)

lemma length_field: "length b < 256 ^ 4 \<Longrightarrow> to_bytes 4 (int (length b)) = Inr (be 4 (length b))"
  by (simp add: to_bytes_def)

lemma encode_chain:
  "e + n \<le> em \<Longrightarrow> n \<le> 1000 \<Longrightarrow> encode_table em e (chain_table n) = Inr (chain_bytes n)"
proof (induction n arbitrary: e)
  case 0
  then show ?case by (simp add: encode_table.simps to_bytes_def)
next
  case (Suc n)
  let ?b = "[1, 107] @ tag CHR ''F'' # chain_bytes n"
  have v: "encode_field_value em e (VDict (chain_table n)) = Inr (tag CHR ''F'' # chain_bytes n)"
    using Suc.IH[of "e + 1"] Suc.prems by (simp add: encode_field_value.simps)
  have "to_bytes 4 (int (length ?b)) = Inr (be 4 (length ?b))"
    using Suc.prems(2) by (intro length_field) (simp add: length_chain_bytes)
  moreover have "encode_entries em e (chain_table (Suc n)) = Inr ?b"
    by (simp add: encode_key_k v)
  ultimately show ?case
    using Suc.prems(1) by (simp add: encode_table.simps[of em e "chain_table (Suc n)"] Let_def del: chain_table.simps)
qed

lemma decode_chain_refused:
  "d \<le> m \<Longrightarrow> m < d + 2 * n \<Longrightarrow> n \<le> 1000 \<Longrightarrow>
   decode_table m (pre @ chain_bytes n @ post) (length pre) d =
     Inl (AmqpCodecError ''field-table nesting exceeds max_depth {}'')"
proof (induction n arbitrary: d pre post)
  case (Suc n)
  let ?b = "[1, 107] @ tag CHR ''F'' # chain_bytes n"
  let ?d = "pre @ chain_bytes (Suc n) @ post" and ?o = "length pre"
  let ?pre = "pre @ be 4 (length ?b) @ [1, 107, tag CHR ''F'']"
  have bs: "chain_bytes (Suc n) = be 4 (length ?b) @ ?b" by (simp add: Let_def)
  have dd: "?d = ?pre @ chain_bytes n @ post" by (simp add: Let_def)
  have s: "pyslice ?d ?o (?o + 4) = be 4 (length ?b)"
    by (rule pyslice_mid_eq[of _ pre _ "?b @ post"]) (simp_all add: Let_def)
  have l: "length ?b < 256 ^ 4" using Suc.prems(3) by (simp add: length_chain_bytes)
  have k: "decode_shortstr ?d (?o + 4) = Inr (S ''k'', ?o + 6)"
    using decode_shortstr_round[OF encode_key_k, of "pre @ be 4 (length ?b)" "tag CHR ''F'' # chain_bytes n @ post"]
    by (simp add: Let_def add.commute)
  have t: "?d ! (?o + 6) = tag CHR ''F''"
    using nth_mid[of "pre @ be 4 (length ?b) @ [1, 107]" "tag CHR ''F''" "chain_bytes n @ post"]
    by (simp add: Let_def add.commute)
  have inner: "m < d + 1 \<or> decode_table m ?d (?o + 7) (d + 1 + 1) =
      Inl (AmqpCodecError ''field-table nesting exceeds max_depth {}'')"
  proof (cases "d + 1 + 1 \<le> m")
    case True
    then show ?thesis
      using Suc.IH[of "d + 1 + 1" ?pre post] Suc.prems unfolding dd by (simp add: add.commute)
  next
    case False
    then show ?thesis by (auto simp: decode_table.simps)
  qed
  have v: "decode_field_value m ?d (?o + 6) (d + 1) =
      Inl (AmqpCodecError ''field-table nesting exceeds max_depth {}'')"
    unfolding decode_field_value.simps[of m ?d "?o + 6"] Let_def t tag_chars
    using inner by (auto simp: bs ac_simps)
  have e: "decode_entries m ?d (?o + 4 + length ?b) d (?o + 4) [] =
      Inl (AmqpCodecError ''field-table nesting exceeds max_depth {}'')"
    unfolding decode_entries.simps[of m ?d "?o + 4 + length ?b" d "?o + 4" "[]"] k bind_r_simps prod.case v
    by simp
  show ?case
    unfolding decode_table.simps[of m ?d ?o d] Let_def s from_be_be_id[OF l] e
    using Suc.prems l by (simp add: bs length_chain_bytes DEFAULT_FRAME_MAX_def del: chain_bytes.simps)
qed simp

section \<open>Properties\<close>

text \<open>
  C25. Field-table round trip: for a table with distinct keys whose values the wire format keeps,
  nested at most as deep as the decoder follows, the decoder returns the encoded table, entries
  in order, and stops right after it, wherever the table stands in the payload.
\<close>

theorem table_roundtrip:
  assumes "table_ok t" "encode_table DEFAULT_MAX_TABLE_DEPTH 0 t = Inr bs"
  shows "decode_table DEFAULT_MAX_TABLE_DEPTH (pre @ bs @ post) (length pre) 0 = Inr (t, length pre + length bs)"
  by (rule field_table.round[OF assms])

definition sample_table :: pydict where
  "sample_table = [(S ''k'', VInt (-2)), (S ''kk'', VBool True), (S ''kkk'', VDict [(S ''k'', VList [VNone])])]"

lemma encode_k: "encode_shortstr (S (replicate n CHR ''k'')) = Inr (of_nat n # replicate n 107)" if "n < 256"
proof -
  have "utf8_encode (S (replicate n CHR ''k'')) = Inr (map of_nat (S (replicate n CHR ''k'')))"
    by (rule utf8_ascii) (simp add: S_def list_all_length)
  then show ?thesis using that by (simp add: encode_shortstr_def S_def)
qed

lemma encode_sample: "\<exists>bs. encode_table DEFAULT_MAX_TABLE_DEPTH 0 sample_table = Inr bs \<and> int (length bs) \<le> DEFAULT_FRAME_MAX"
  using encode_k[of 1] encode_k[of 2] encode_k[of 3]
  by (simp add: sample_table_def encode_table.simps encode_field_value.simps DEFAULT_MAX_TABLE_DEPTH_def
      to_bytes_def to_bytes_signed_def numeral_2_eq_2 numeral_3_eq_3 DEFAULT_FRAME_MAX_def)

lemma sample_table_ok: "table_ok sample_table"
proof -
  have "dict_ok sample_table \<and> list_all (\<lambda>(_, v). wire_val v) sample_table \<and>
      list_all (\<lambda>(_, v). fits DEFAULT_MAX_TABLE_DEPTH 1 v) sample_table"
    by (simp add: sample_table_def dict_ok_def DEFAULT_MAX_TABLE_DEPTH_def)
  then show ?thesis using encode_sample by (auto simp: table_ok_def)
qed

theorem table_roundtrip_witness:
  "\<exists>bs. encode_table DEFAULT_MAX_TABLE_DEPTH 0 sample_table = Inr bs \<and>
     decode_table DEFAULT_MAX_TABLE_DEPTH ([7] @ bs @ [8]) (length [7 :: byte]) 0 =
       Inr (sample_table, length [7 :: byte] + length bs)"
proof -
  obtain bs where "encode_table DEFAULT_MAX_TABLE_DEPTH 0 sample_table = Inr bs"
    using encode_sample by blast
  then show ?thesis using table_roundtrip[OF sample_table_ok] by blast
qed

text \<open>
  C34. What decoding a field table can return: the decoder always returns (it is a total function),
  the offset after the table lies inside the payload, keys are distinct in every dictionary of the
  result, and no value is nested deeper than the limit, whatever bytes the broker sends.
\<close>

theorem table_decode_safe:
  assumes "decode_table m data off 0 = Inr (t, p)"
  shows "off + 4 \<le> p \<and> p \<le> length data \<and> well_keyed (VDict t) \<and> nesting (VDict t) \<le> Suc m"
proof -
  from decode_table_bounds[OF assms] decode_shape(3)[OF assms] have
    b: "off + 4 \<le> p \<and> p \<le> length data" and d: "dict_ok t" and v: "\<forall>(k, v)\<in>set t. nesting v \<le> m \<and> well_keyed v"
    by auto
  from v have "0 + Max (insert 0 ((\<lambda>(_, v). nesting v) ` set t)) \<le> m" by (intro add_Max_le) auto
  with b d v show ?thesis by (auto simp: list_all_iff)
qed

lemma sample_empty: "decode_table 32 [0, 0, 0, 0] 0 0 = Inr ([], 4)"
  by (simp add: decode_table.simps decode_entries.simps pyslice_def from_be_def DEFAULT_FRAME_MAX_def)

theorem table_decode_safe_witness:
  "0 + 4 \<le> (4::nat) \<and> 4 \<le> length [0, 0, 0, 0 :: byte] \<and> well_keyed (VDict []) \<and> nesting (VDict []) \<le> Suc 32"
  by (rule table_decode_safe[OF sample_empty])

text \<open>
  The nesting limits of encoder and decoder differ: the encoder counts one level for a nested
  table, the decoder two, so every table nested 17 to 32 deep is encoded without an error and
  refused by the decoder of the same library with the nesting error.
\<close>

theorem nesting_limits_differ:
  assumes "16 < n" "n \<le> 32"
  shows "\<exists>bs. encode_table DEFAULT_MAX_TABLE_DEPTH 0 (chain_table n) = Inr bs \<and>
    decode_table DEFAULT_MAX_TABLE_DEPTH bs 0 0 =
      Inl (AmqpCodecError ''field-table nesting exceeds max_depth {}'')"
  using encode_chain[of 0 n DEFAULT_MAX_TABLE_DEPTH] assms
    decode_chain_refused[of 0 DEFAULT_MAX_TABLE_DEPTH n "[]" "[]"]
  by (auto simp: DEFAULT_MAX_TABLE_DEPTH_def)

theorem nesting_limits_differ_witness:
  "\<exists>bs. encode_table DEFAULT_MAX_TABLE_DEPTH 0 (chain_table 17) = Inr bs \<and>
    decode_table DEFAULT_MAX_TABLE_DEPTH bs 0 0 =
      Inl (AmqpCodecError ''field-table nesting exceeds max_depth {}'')"
  by (rule nesting_limits_differ) simp_all

text \<open>
  A value inside a table may run past the table's declared length: a table that declares three
  octets, whose only entry is a key and the tag of a 32-bit integer, is accepted, the integer is
  read from the four octets after the table, and the offset returned is the declared end, so those
  four octets are read again as whatever follows the table.
\<close>

theorem table_value_overruns:
  assumes "length r = 4" "0 < m"
  shows "decode_table m ([0, 0, 0, 3, 1, 107, tag CHR ''I''] @ r @ post) 0 0 =
    Inr ([(S ''k'', VInt (from_be_signed r))], 7)"
proof -
  let ?d = "[0, 0, 0, 3, 1, 107, tag CHR ''I''] @ r @ post"
  have k: "decode_shortstr ?d 4 = Inr (S ''k'', 6)"
    using shortstr.round_at[OF TrueI encode_key_k, of ?d "[0, 0, 0, 3]" "tag CHR ''I'' # r @ post" 4] by simp
  have s: "pyslice ?d 7 11 = r"
    by (rule pyslice_mid_eq[of _ "[0, 0, 0, 3, 1, 107, tag CHR ''I'']" _ post]) (simp_all add: assms)
  have t: "?d ! 6 = tag CHR ''I''" by simp
  have v: "decode_field_value m ?d 6 1 = Inr (VInt (from_be_signed r), 11)"
    unfolding decode_field_value.simps[of m ?d 6 1] Let_def t tag_chars
    using s assms by (simp add: decode_scalar_def need_def)
  have e: "decode_entries m ?d 7 0 4 [] = Inr [(S ''k'', VInt (from_be_signed r))]"
    using k v by (simp add: decode_entries.simps[of m ?d 7 0 4 "[]"]) (simp add: decode_entries.simps)
  have n: "from_be (pyslice ?d 0 (0 + 4)) = 3" by (simp add: pyslice_def from_be_def)
  show ?thesis
    unfolding decode_table.simps[of m ?d 0 0] Let_def n using e assms by (simp add: DEFAULT_FRAME_MAX_def)
qed

theorem table_value_overruns_witness:
  "decode_table 32 ([0, 0, 0, 3, 1, 107, tag CHR ''I''] @ [0, 0, 0, 9] @ []) 0 0 =
    Inr ([(S ''k'', VInt (from_be_signed [0, 0, 0, 9]))], 7)"
  by (rule table_value_overruns) simp_all

text \<open>
  The scale of a decimal is truncated to an octet without an error: a decimal with 256 more
  fractional digits has the same encoding, so 1E-256 goes out as 1.
\<close>

theorem decimal_scale_truncated:
  "encode_field_value m d (VDecimal c (- 256 - int n)) = encode_field_value m d (VDecimal c (- int n))"
proof -
  have e: "encode_decimal c (- int k) =
      (if \<not> (- 0x80000000 \<le> c \<and> c \<le> 0x7FFFFFFF)
       then Inl (AmqpCodecError ''Decimal magnitude exceeds 32-bit AMQP decimal'')
       else bind_r (to_bytes_signed 4 c) (\<lambda>b. Inr (tag CHR ''D'' # of_int (int k) # b)))" for k
    by (auto simp: encode_decimal_def Let_def)
  have w: "(of_int (int (256 + n)) :: byte) = of_int (int n)" by simp
  have "- 256 - int n = - int (256 + n)" by simp
  then have "encode_decimal c (- 256 - int n) = encode_decimal c (- int n)"
    by (simp only: e w)
  then show ?thesis by (simp add: encode_field_value.simps)
qed

end
