(* ===== verification/FailClosed.thy ===== *)
theory FailClosed
  imports Prelude
begin

text \<open>
  The contract both protocol state machines share. An operation that is not legal raises and
  moves the machine to its error state; in the error state every operation is refused, but for
  those in \<open>resets\<close> (the unguarded \<open>on_close_ok\<close>).
\<close>

type_synonym ('e, 's) sm_step = "'e \<Rightarrow> 's \<Rightarrow> unit res \<times> 's"

text \<open>Operations in sequence; an exception leaves the state the operation set.\<close>

fun run_events :: "('e, 's) sm_step \<Rightarrow> 'e list \<Rightarrow> 's \<Rightarrow> 's" where
  "run_events step [] s = s"
| "run_events step (e # es) s = run_events step es (snd (step e s))"

lemma run_events_append [simp]: "run_events step (es @ fs) s = run_events step fs (run_events step es s)"
  by (induction es arbitrary: s) auto

lemma run_events_invariant:
  assumes "P s" "\<And>s e. P s \<Longrightarrow> P (snd (step e s))"
  shows "P (run_events step es s)"
  using assms(1) by (induction es arbitrary: s) (auto intro: assms(2))

locale fail_closed =
  fixes step :: "('e, 's) sm_step"
    and is_error :: "'s \<Rightarrow> bool"
    and resets :: "'e \<Rightarrow> bool"
  assumes raise_error: "fst (step e s) = Inl x \<Longrightarrow> is_error (snd (step e s))"
    and error_refuses: "is_error s \<Longrightarrow> \<not> resets e \<Longrightarrow> \<exists>x. fst (step e s) = Inl x"
begin

lemma error_stays: "is_error s \<Longrightarrow> \<not> resets e \<Longrightarrow> is_error (snd (step e s))"
  using error_refuses raise_error by blast

lemma error_run: "is_error s \<Longrightarrow> list_all (\<lambda>e. \<not> resets e) es \<Longrightarrow> is_error (run_events step es s)"
  by (induction es arbitrary: s) (auto intro: error_stays)

text \<open>After a refused operation nothing succeeds any more.\<close>

lemma refused_for_good:
  assumes "fst (step e s) = Inl x" "list_all (\<lambda>e. \<not> resets e) es" "\<not> resets e'"
  shows "is_error (run_events step es (snd (step e s))) \<and>
    (\<exists>y. fst (step e' (run_events step es (snd (step e s)))) = Inl y)"
  using error_run[OF raise_error[OF assms(1)] assms(2)] error_refuses assms(3) by blast

end

end
