(* ===== verification/MethodIds.thy ===== *)
theory MethodIds
  imports Main
begin

text \<open>
  \<^verbatim>\<open>src/src/nuropb_rmq/protocol/methods.py\<close>, lines 31 to 77: class and method numbers.
\<close>

abbreviation CONNECTION :: int where "CONNECTION \<equiv> 10"
abbreviation CHANNEL :: int where "CHANNEL \<equiv> 20"
abbreviation EXCHANGE :: int where "EXCHANGE \<equiv> 40"
abbreviation QUEUE :: int where "QUEUE \<equiv> 50"
abbreviation BASIC :: int where "BASIC \<equiv> 60"
abbreviation CONFIRM :: int where "CONFIRM \<equiv> 85"

abbreviation CONNECTION_START :: int where "CONNECTION_START \<equiv> 10"
abbreviation CONNECTION_START_OK :: int where "CONNECTION_START_OK \<equiv> 11"
abbreviation CONNECTION_SECURE :: int where "CONNECTION_SECURE \<equiv> 20"
abbreviation CONNECTION_TUNE :: int where "CONNECTION_TUNE \<equiv> 30"
abbreviation CONNECTION_TUNE_OK :: int where "CONNECTION_TUNE_OK \<equiv> 31"
abbreviation CONNECTION_OPEN :: int where "CONNECTION_OPEN \<equiv> 40"
abbreviation CONNECTION_OPEN_OK :: int where "CONNECTION_OPEN_OK \<equiv> 41"
abbreviation CONNECTION_CLOSE :: int where "CONNECTION_CLOSE \<equiv> 50"
abbreviation CONNECTION_CLOSE_OK :: int where "CONNECTION_CLOSE_OK \<equiv> 51"
abbreviation CONNECTION_BLOCKED :: int where "CONNECTION_BLOCKED \<equiv> 60"
abbreviation CONNECTION_UNBLOCKED :: int where "CONNECTION_UNBLOCKED \<equiv> 61"
abbreviation CONNECTION_UPDATE_SECRET :: int where "CONNECTION_UPDATE_SECRET \<equiv> 70"
abbreviation CONNECTION_UPDATE_SECRET_OK :: int where "CONNECTION_UPDATE_SECRET_OK \<equiv> 71"

abbreviation CHANNEL_OPEN :: int where "CHANNEL_OPEN \<equiv> 10"
abbreviation CHANNEL_OPEN_OK :: int where "CHANNEL_OPEN_OK \<equiv> 11"
abbreviation CHANNEL_CLOSE :: int where "CHANNEL_CLOSE \<equiv> 40"
abbreviation CHANNEL_CLOSE_OK :: int where "CHANNEL_CLOSE_OK \<equiv> 41"

abbreviation QUEUE_DECLARE :: int where "QUEUE_DECLARE \<equiv> 10"
abbreviation QUEUE_DECLARE_OK :: int where "QUEUE_DECLARE_OK \<equiv> 11"
abbreviation QUEUE_BIND :: int where "QUEUE_BIND \<equiv> 20"
abbreviation QUEUE_BIND_OK :: int where "QUEUE_BIND_OK \<equiv> 21"

abbreviation EXCHANGE_DECLARE :: int where "EXCHANGE_DECLARE \<equiv> 10"
abbreviation EXCHANGE_DECLARE_OK :: int where "EXCHANGE_DECLARE_OK \<equiv> 11"

abbreviation BASIC_QOS :: int where "BASIC_QOS \<equiv> 10"
abbreviation BASIC_QOS_OK :: int where "BASIC_QOS_OK \<equiv> 11"
abbreviation BASIC_CONSUME :: int where "BASIC_CONSUME \<equiv> 20"
abbreviation BASIC_CONSUME_OK :: int where "BASIC_CONSUME_OK \<equiv> 21"
abbreviation BASIC_CANCEL :: int where "BASIC_CANCEL \<equiv> 30"
abbreviation BASIC_CANCEL_OK :: int where "BASIC_CANCEL_OK \<equiv> 31"
abbreviation BASIC_PUBLISH :: int where "BASIC_PUBLISH \<equiv> 40"
abbreviation BASIC_RETURN :: int where "BASIC_RETURN \<equiv> 50"
abbreviation BASIC_DELIVER :: int where "BASIC_DELIVER \<equiv> 60"
abbreviation BASIC_ACK :: int where "BASIC_ACK \<equiv> 80"
abbreviation BASIC_REJECT :: int where "BASIC_REJECT \<equiv> 90"
abbreviation BASIC_NACK :: int where "BASIC_NACK \<equiv> 120"

abbreviation CONFIRM_SELECT :: int where "CONFIRM_SELECT \<equiv> 10"
abbreviation CONFIRM_SELECT_OK :: int where "CONFIRM_SELECT_OK \<equiv> 11"

end
