(* ===== verification/ConnectionSM.thy ===== *)
theory ConnectionSM
  imports FailClosed MethodIds
begin

text \<open>
  \<^verbatim>\<open>src/src/nuropb_rmq/protocol/connection_sm.py\<close>: the connection state machine. Each method
  returns its result and the new machine; \<open>reject\<close> moves to \<open>ERROR\<close> and raises.
\<close>

datatype conn_state =
    INIT | TCP_CONNECTED | TLS_HANDSHAKING | TLS_VERIFIED | START | START_OK | TUNE | TUNE_OK
  | OPEN | OPEN_OK | CLOSING | CLOSED | ERROR

record conn_sm =
  sm_state :: conn_state
  sm_heartbeat :: int

definition conn_sm_init :: conn_sm where
  "conn_sm_init = \<lparr>sm_state = INIT, sm_heartbeat = 60\<rparr>"

definition sm_is_open :: "conn_sm \<Rightarrow> bool" where
  "sm_is_open sm \<longleftrightarrow> sm_state sm = OPEN_OK"

definition sm_goto :: "conn_state \<Rightarrow> conn_sm \<Rightarrow> unit res \<times> conn_sm" where
  "sm_goto new sm = (Inr (), sm\<lparr>sm_state := new\<rparr>)"

definition sm_reject :: "string \<Rightarrow> conn_sm \<Rightarrow> unit res \<times> conn_sm" where
  "sm_reject reason sm = (Inl (ProtocolError reason), sm\<lparr>sm_state := ERROR\<rparr>)"

definition on_tcp_connected :: "bool \<Rightarrow> conn_sm \<Rightarrow> unit res \<times> conn_sm" where
  "on_tcp_connected tls sm =
     (if sm_state sm \<noteq> INIT then sm_reject ''tcp connect in state {}'' sm
      else sm_goto (if tls then TLS_HANDSHAKING else TCP_CONNECTED) sm)"

definition on_tls_verified :: "conn_sm \<Rightarrow> unit res \<times> conn_sm" where
  "on_tls_verified sm =
     (if sm_state sm \<noteq> TLS_HANDSHAKING then sm_reject ''tls verified in state {}'' sm
      else sm_goto TLS_VERIFIED sm)"

definition allow_amqp_header :: "conn_sm \<Rightarrow> unit res \<times> conn_sm" where
  "allow_amqp_header sm =
     (if sm_state sm = TLS_HANDSHAKING then sm_reject ''AMQP header before TLS verified'' sm
      else if sm_state sm \<noteq> TCP_CONNECTED \<and> sm_state sm \<noteq> TLS_VERIFIED
      then sm_reject ''AMQP header in state {}'' sm
      else (Inr (), sm))"

definition on_connection_start :: "conn_sm \<Rightarrow> unit res \<times> conn_sm" where
  "on_connection_start sm =
     (if sm_state sm \<noteq> TCP_CONNECTED \<and> sm_state sm \<noteq> TLS_VERIFIED
      then sm_reject ''connection.start in state {}'' sm
      else sm_goto START sm)"

definition on_connection_start_ok_sent :: "conn_sm \<Rightarrow> unit res \<times> conn_sm" where
  "on_connection_start_ok_sent sm =
     (if sm_state sm \<noteq> START then sm_reject ''connection.start-ok in state {}'' sm
      else sm_goto START_OK sm)"

definition on_connection_tune :: "conn_sm \<Rightarrow> unit res \<times> conn_sm" where
  "on_connection_tune sm =
     (if sm_state sm \<noteq> START_OK then sm_reject ''connection.tune in state {}'' sm
      else sm_goto TUNE sm)"

definition on_connection_tune_ok_sent :: "int \<Rightarrow> conn_sm \<Rightarrow> unit res \<times> conn_sm" where
  "on_connection_tune_ok_sent hb sm =
     (if sm_state sm \<noteq> TUNE then sm_reject ''connection.tune-ok in state {}'' sm
      else if hb \<le> 0 \<or> hb > 60 then sm_reject ''invalid heartbeat {}'' sm
      else sm_goto TUNE_OK (sm\<lparr>sm_heartbeat := hb\<rparr>))"

definition on_connection_open_sent :: "conn_sm \<Rightarrow> unit res \<times> conn_sm" where
  "on_connection_open_sent sm =
     (if sm_state sm \<noteq> TUNE_OK then sm_reject ''connection.open in state {}'' sm
      else sm_goto OPEN sm)"

definition on_connection_open_ok :: "conn_sm \<Rightarrow> unit res \<times> conn_sm" where
  "on_connection_open_ok sm =
     (if sm_state sm \<noteq> OPEN then sm_reject ''connection.open-ok in state {}'' sm
      else sm_goto OPEN_OK sm)"

definition sm_begin_close :: "conn_sm \<Rightarrow> unit res \<times> conn_sm" where
  "sm_begin_close sm =
     (if sm_state sm = CLOSED \<or> sm_state sm = ERROR then sm_reject ''close in terminal state {}'' sm
      else sm_goto CLOSING sm)"

definition sm_on_close_ok :: "conn_sm \<Rightarrow> unit res \<times> conn_sm" where
  "sm_on_close_ok sm = sm_goto CLOSED sm"

text \<open>The table \<open>legal\<close>: the states in which a connection method may be sent.\<close>

definition legal_states :: "int \<Rightarrow> conn_state list option" where
  "legal_states method_id =
     (if method_id = CONNECTION_START_OK then Some [START]
      else if method_id = CONNECTION_TUNE_OK then Some [TUNE]
      else if method_id = CONNECTION_OPEN then Some [TUNE_OK]
      else if method_id = CONNECTION_CLOSE then Some [OPEN_OK, OPEN, TUNE_OK, TUNE, START_OK, START]
      else if method_id = CONNECTION_CLOSE_OK then Some [CLOSING]
      else if method_id = CONNECTION_UPDATE_SECRET then Some [OPEN_OK]
      else None)"

definition assert_can_send_connection_method :: "int \<Rightarrow> conn_sm \<Rightarrow> unit res \<times> conn_sm" where
  "assert_can_send_connection_method method_id sm =
     (case legal_states method_id of
        None \<Rightarrow> sm_reject ''unknown connection method {}'' sm
      | Some allowed \<Rightarrow>
          if sm_state sm \<notin> set allowed then sm_reject ''connection method {} illegal in {}'' sm
          else (Inr (), sm))"

section \<open>Histories\<close>

datatype conn_event =
    TcpConnected bool | TlsVerified | AmqpHeader | ConnStart | StartOkSent | ConnTune
  | TuneOkSent int | OpenSent | OpenOk | BeginClose | CloseOk | CanSend int | Reject string

fun conn_step :: "conn_event \<Rightarrow> conn_sm \<Rightarrow> unit res \<times> conn_sm" where
  "conn_step (TcpConnected tls) sm = on_tcp_connected tls sm"
| "conn_step TlsVerified sm = on_tls_verified sm"
| "conn_step AmqpHeader sm = allow_amqp_header sm"
| "conn_step ConnStart sm = on_connection_start sm"
| "conn_step StartOkSent sm = on_connection_start_ok_sent sm"
| "conn_step ConnTune sm = on_connection_tune sm"
| "conn_step (TuneOkSent hb) sm = on_connection_tune_ok_sent hb sm"
| "conn_step OpenSent sm = on_connection_open_sent sm"
| "conn_step OpenOk sm = on_connection_open_ok sm"
| "conn_step BeginClose sm = sm_begin_close sm"
| "conn_step CloseOk sm = sm_on_close_ok sm"
| "conn_step (CanSend m) sm = assert_can_send_connection_method m sm"
| "conn_step (Reject r) sm = sm_reject r sm"

abbreviation conn_run :: "conn_event list \<Rightarrow> conn_sm \<Rightarrow> conn_sm" where
  "conn_run \<equiv> run_events conn_step"

lemmas conn_ops =
  sm_goto_def sm_reject_def on_tcp_connected_def on_tls_verified_def allow_amqp_header_def
  on_connection_start_def on_connection_start_ok_sent_def on_connection_tune_def
  on_connection_tune_ok_sent_def on_connection_open_sent_def on_connection_open_ok_def
  sm_begin_close_def sm_on_close_ok_def assert_can_send_connection_method_def

lemma error_not_legal: "legal_states m = Some ss \<Longrightarrow> ERROR \<notin> set ss"
  by (auto simp: legal_states_def split: if_splits)

interpretation conn: fail_closed conn_step "\<lambda>sm. sm_state sm = ERROR" "\<lambda>e. e = CloseOk"
proof
  show "sm_state (snd (conn_step e s)) = ERROR" if "fst (conn_step e s) = Inl x" for e s x
    using that by (cases e) (auto simp: conn_ops split: if_splits option.splits)
  show "\<exists>x. fst (conn_step e s) = Inl x" if "sm_state s = ERROR" "e \<noteq> CloseOk" for e s
    using that by (cases e) (auto simp: conn_ops dest: error_not_legal split: option.splits)
qed

section \<open>The order of the states\<close>

text \<open>\<open>auto()\<close> numbers the members of the enum in the order of the handshake.\<close>

fun conn_rank :: "conn_state \<Rightarrow> nat" where
  "conn_rank INIT = 1" | "conn_rank TCP_CONNECTED = 2" | "conn_rank TLS_HANDSHAKING = 3"
| "conn_rank TLS_VERIFIED = 4" | "conn_rank START = 5" | "conn_rank START_OK = 6"
| "conn_rank TUNE = 7" | "conn_rank TUNE_OK = 8" | "conn_rank OPEN = 9" | "conn_rank OPEN_OK = 10"
| "conn_rank CLOSING = 11" | "conn_rank CLOSED = 12" | "conn_rank ERROR = 13"

lemma conn_rank_inject: "conn_rank a = conn_rank b \<Longrightarrow> a = b"
  by (cases a; cases b) simp_all

instantiation conn_state :: linorder
begin

definition less_eq_conn_state :: "conn_state \<Rightarrow> conn_state \<Rightarrow> bool" where
  "less_eq_conn_state a b \<longleftrightarrow> conn_rank a \<le> conn_rank b"

definition less_conn_state :: "conn_state \<Rightarrow> conn_state \<Rightarrow> bool" where
  "less_conn_state a b \<longleftrightarrow> conn_rank a < conn_rank b"

instance
  by standard (auto simp: less_eq_conn_state_def less_conn_state_def dest: conn_rank_inject)

end

lemmas conn_order = less_eq_conn_state_def less_conn_state_def

lemma conn_step_forward:
  "sm_state sm \<noteq> ERROR \<Longrightarrow> sm_state sm \<noteq> CLOSED \<Longrightarrow> sm_state sm \<le> sm_state (snd (conn_step e sm))"
  by (cases e; cases "sm_state sm") (auto simp: conn_ops conn_order split: option.splits)

lemma conn_terminal_step:
  "CLOSED \<le> sm_state sm \<Longrightarrow> CLOSED \<le> sm_state (snd (conn_step e sm))"
  by (cases e; cases "sm_state sm") (auto simp: conn_ops conn_order split: option.splits)

section \<open>The handshake\<close>

text \<open>The events that change the state when they are legal; the other two only check it.\<close>

fun conn_moves :: "conn_event \<Rightarrow> bool" where
  "conn_moves AmqpHeader = False"
| "conn_moves (CanSend m) = False"
| "conn_moves e = True"

definition handshake_start :: "bool \<Rightarrow> conn_event list" where
  "handshake_start tls = TcpConnected tls # (if tls then [TlsVerified] else []) @ [ConnStart]"

text \<open>The moves that lead to a state, with or without TLS and with the heartbeat agreed.\<close>

fun handshake_to :: "bool \<Rightarrow> int \<Rightarrow> conn_state \<Rightarrow> conn_event list" where
  "handshake_to tls hb INIT = []"
| "handshake_to tls hb TCP_CONNECTED = [TcpConnected tls]"
| "handshake_to tls hb TLS_HANDSHAKING = [TcpConnected tls]"
| "handshake_to tls hb TLS_VERIFIED = [TcpConnected tls, TlsVerified]"
| "handshake_to tls hb START = handshake_start tls"
| "handshake_to tls hb START_OK = handshake_start tls @ [StartOkSent]"
| "handshake_to tls hb TUNE = handshake_start tls @ [StartOkSent, ConnTune]"
| "handshake_to tls hb TUNE_OK = handshake_start tls @ [StartOkSent, ConnTune, TuneOkSent hb]"
| "handshake_to tls hb OPEN = handshake_start tls @ [StartOkSent, ConnTune, TuneOkSent hb, OpenSent]"
| "handshake_to tls hb OPEN_OK =
     handshake_start tls @ [StartOkSent, ConnTune, TuneOkSent hb, OpenSent, OpenOk]"
| "handshake_to tls hb _ = []"

definition handshake_inv :: "bool \<Rightarrow> conn_event list \<Rightarrow> conn_sm \<Rightarrow> bool" where
  "handshake_inv tls es sm \<longleftrightarrow>
     CLOSING \<le> sm_state sm \<or>
     (sm_state sm = TCP_CONNECTED \<longrightarrow> \<not> tls) \<and> (sm_state sm \<in> {TLS_HANDSHAKING, TLS_VERIFIED} \<longrightarrow> tls) \<and>
     filter conn_moves es = handshake_to tls (sm_heartbeat sm) (sm_state sm)"

lemma handshake_inv_late: "CLOSING \<le> sm_state sm \<Longrightarrow> handshake_inv tls es sm"
  by (simp add: handshake_inv_def)

lemma conn_late_step: "CLOSING \<le> sm_state sm \<Longrightarrow> CLOSING \<le> sm_state (snd (conn_step e sm))"
  by (cases e; cases "sm_state sm") (auto simp: conn_ops conn_order split: option.splits)

lemma handshake_inv_step:
  assumes inv: "handshake_inv tls es sm"
  shows "\<exists>tls'. handshake_inv tls' (es @ [e]) (snd (conn_step e sm))"
proof (cases "CLOSING \<le> sm_state sm")
  case True
  then show ?thesis by (blast intro: handshake_inv_late conn_late_step)
next
  case False
  have "handshake_inv (case e of TcpConnected t \<Rightarrow> t | _ \<Rightarrow> tls) (es @ [e]) (snd (conn_step e sm))"
    using inv False
    by (cases e; cases "sm_state sm")
      (simp_all add: handshake_inv_def handshake_start_def conn_ops conn_order split: option.splits)
  then show ?thesis by blast
qed

lemma handshake_inv_run: "\<exists>tls. handshake_inv tls es (conn_run es conn_sm_init)"
proof (induction es rule: rev_induct)
  case Nil
  then show ?case by (simp add: handshake_inv_def conn_sm_init_def)
next
  case (snoc e es)
  then show ?case using handshake_inv_step by auto
qed

lemma heartbeat_step:
  "sm_heartbeat sm \<in> {1..60} \<Longrightarrow> sm_heartbeat (snd (conn_step e sm)) \<in> {1..60}"
  by (cases e) (auto simp: conn_ops split: option.splits)

lemma heartbeat_run: "sm_heartbeat (conn_run es conn_sm_init) \<in> {1..60}"
  by (rule run_events_invariant[where P = "\<lambda>sm. sm_heartbeat sm \<in> {1..60}"])
    (simp add: conn_sm_init_def, rule heartbeat_step)

lemma conn_run_after_closed:
  "CLOSED \<le> sm_state sm \<Longrightarrow> CLOSED \<le> sm_state (conn_run es sm)"
  by (rule run_events_invariant[where P = "\<lambda>sm. CLOSED \<le> sm_state sm"]) (assumption, rule conn_terminal_step)

lemma conn_run_forward:
  "sm_state sm \<le> sm_state (conn_run es sm) \<or> sm_state (conn_run es sm) = CLOSED"
proof (induction es arbitrary: sm)
  case (Cons e es)
  show ?case
  proof (cases "CLOSED \<le> sm_state sm")
    case True
    then have "CLOSED \<le> sm_state (conn_run (e # es) sm)" by (rule conn_run_after_closed)
    then show ?thesis by (cases "sm_state (conn_run (e # es) sm)"; cases "sm_state sm") (auto simp: conn_order)
  next
    case False
    then have "sm_state sm \<le> sm_state (snd (conn_step e sm))"
      by (intro conn_step_forward) (auto simp: conn_order)
    with Cons.IH[of "snd (conn_step e sm)"] show ?thesis by auto
  qed
qed simp

section \<open>Properties\<close>

text \<open>
  C26. A connection is open only after the whole handshake, in order: whatever methods were
  called, if the machine is in \<open>OPEN_OK\<close> then the calls that move it were exactly the TCP
  connection, the verification when TLS is used, start, start-ok, tune, tune-ok with the heartbeat
  the machine holds, open and open-ok, none of them twice and none refused. The heartbeat of any
  machine is between 1 and 60.\<close>

theorem conn_open_only_by_handshake:
  "sm_heartbeat (conn_run es conn_sm_init) \<in> {1..60} \<and>
   (sm_is_open (conn_run es conn_sm_init) \<longrightarrow>
     (\<exists>tls. filter conn_moves es = handshake_to tls (sm_heartbeat (conn_run es conn_sm_init)) OPEN_OK))"
  using heartbeat_run[of es] handshake_inv_run[of es]
  by (auto simp: sm_is_open_def handshake_inv_def conn_order)

theorem conn_open_only_by_handshake_witness:
  "\<exists>tls. filter conn_moves [TcpConnected True, TlsVerified, AmqpHeader, ConnStart, CanSend 11,
      StartOkSent, ConnTune, TuneOkSent 30, OpenSent, OpenOk] = handshake_to tls 30 OPEN_OK"
  using conn_open_only_by_handshake[of "[TcpConnected True, TlsVerified, AmqpHeader, ConnStart,
    CanSend 11, StartOkSent, ConnTune, TuneOkSent 30, OpenSent, OpenOk]"]
  by (simp add: conn_ops legal_states_def conn_sm_init_def sm_is_open_def del: handshake_to.simps)

text \<open>
  The machine fails closed: once a method has been refused, with a \<open>ProtocolError\<close>, every
  later method is refused too and the machine stays in \<open>ERROR\<close>, unless the broker's close-ok is
  processed.\<close>

theorem conn_refused_for_good:
  assumes "fst (conn_step e sm) = Inl x" "CloseOk \<notin> set es" "e' \<noteq> CloseOk"
  shows "sm_state (conn_run (e # es) sm) = ERROR \<and> (\<exists>y. fst (conn_step e' (conn_run (e # es) sm)) = Inl y)"
  using conn.refused_for_good[of e sm x es e'] assms by (auto simp: list_all_iff)

theorem conn_refused_for_good_witness:
  "sm_state (conn_run [ConnTune, ConnStart] conn_sm_init) = ERROR"
  using conn_refused_for_good[of ConnTune conn_sm_init "ProtocolError ''connection.tune in state {}''"
    "[ConnStart]" OpenOk]
  by (simp add: conn_ops conn_sm_init_def)

text \<open>
  A connection machine never goes back: over any further calls its state only advances in the
  order the enum lists the states, or it ends in \<open>CLOSED\<close>; and once \<open>CLOSED\<close> or in \<open>ERROR\<close> it is
  never anything else, so that a machine is never open twice.\<close>

theorem conn_never_reopens:
  "(sm_state (conn_run es sm) \<le> sm_state (conn_run (es @ fs) sm) \<or> sm_state (conn_run (es @ fs) sm) = CLOSED) \<and>
   (CLOSED \<le> sm_state (conn_run es sm) \<longrightarrow>
      sm_state (conn_run (es @ fs) sm) \<in> {CLOSED, ERROR} \<and> \<not> sm_is_open (conn_run (es @ fs) sm))"
proof -
  have "CLOSED \<le> s \<Longrightarrow> s \<in> {CLOSED, ERROR}" for s
    by (cases s) (auto simp: conn_order)
  moreover have "\<not> CLOSED \<le> OPEN_OK" by (simp add: conn_order)
  ultimately show ?thesis
    using conn_run_forward[of "conn_run es sm" fs] conn_run_after_closed[of "conn_run es sm" fs]
    by (auto simp: sm_is_open_def)
qed

theorem conn_never_reopens_witness:
  "sm_state (conn_run ([BeginClose, CloseOk] @ [TcpConnected True, CloseOk]) conn_sm_init) \<in> {CLOSED, ERROR}"
  using conn_never_reopens[of "[BeginClose, CloseOk]" conn_sm_init "[TcpConnected True, CloseOk]"]
  by (simp add: conn_ops conn_sm_init_def conn_order)

end
