(* ===== verification/ChannelSM.thy ===== *)
theory ChannelSM
  imports FailClosed
begin

text \<open>
  \<^verbatim>\<open>src/src/nuropb_rmq/protocol/channel_sm.py\<close>: the channel state machine. The members of the enum
  carry the prefix \<open>Ch_\<close>; a machine raises and moves to \<open>Ch_ERROR\<close> like the connection's.
\<close>

datatype chan_state = Ch_CLOSED | Ch_OPENING | Ch_OPEN | Ch_CLOSING | Ch_ERROR

record chan_sm =
  ch_id :: int
  ch_state :: chan_state

definition chan_sm_init :: "int \<Rightarrow> chan_sm" where
  "chan_sm_init channel_id = \<lparr>ch_id = channel_id, ch_state = Ch_CLOSED\<rparr>"

definition ch_is_open :: "chan_sm \<Rightarrow> bool" where
  "ch_is_open sm \<longleftrightarrow> ch_state sm = Ch_OPEN"

definition ch_goto :: "chan_state \<Rightarrow> chan_sm \<Rightarrow> unit res \<times> chan_sm" where
  "ch_goto new sm = (Inr (), sm\<lparr>ch_state := new\<rparr>)"

definition ch_reject :: "string \<Rightarrow> chan_sm \<Rightarrow> unit res \<times> chan_sm" where
  "ch_reject reason sm = (Inl (ProtocolError reason), sm\<lparr>ch_state := Ch_ERROR\<rparr>)"

definition ch_on_open_sent :: "chan_sm \<Rightarrow> unit res \<times> chan_sm" where
  "ch_on_open_sent sm =
     (if ch_state sm \<noteq> Ch_CLOSED then ch_reject ''channel.open in state {}'' sm
      else ch_goto Ch_OPENING sm)"

definition ch_on_open_ok :: "chan_sm \<Rightarrow> unit res \<times> chan_sm" where
  "ch_on_open_ok sm =
     (if ch_state sm \<noteq> Ch_OPENING then ch_reject ''channel.open-ok in state {}'' sm
      else ch_goto Ch_OPEN sm)"

definition ch_begin_close :: "chan_sm \<Rightarrow> unit res \<times> chan_sm" where
  "ch_begin_close sm =
     (if ch_state sm \<noteq> Ch_OPEN then ch_reject ''channel.close in state {}'' sm
      else ch_goto Ch_CLOSING sm)"

definition ch_on_close_ok :: "chan_sm \<Rightarrow> unit res \<times> chan_sm" where
  "ch_on_close_ok sm = ch_goto Ch_CLOSED sm"

definition ch_assert_open_for_ops :: "chan_sm \<Rightarrow> unit res \<times> chan_sm" where
  "ch_assert_open_for_ops sm =
     (if ch_state sm \<noteq> Ch_OPEN then ch_reject ''channel op requires OPEN, got {}'' sm
      else (Inr (), sm))"

section \<open>Histories\<close>

datatype chan_event = ChOpenSent | ChOpenOk | ChBeginClose | ChCloseOk | ChAssertOpen | ChReject string

fun chan_step :: "chan_event \<Rightarrow> chan_sm \<Rightarrow> unit res \<times> chan_sm" where
  "chan_step ChOpenSent sm = ch_on_open_sent sm"
| "chan_step ChOpenOk sm = ch_on_open_ok sm"
| "chan_step ChBeginClose sm = ch_begin_close sm"
| "chan_step ChCloseOk sm = ch_on_close_ok sm"
| "chan_step ChAssertOpen sm = ch_assert_open_for_ops sm"
| "chan_step (ChReject r) sm = ch_reject r sm"

abbreviation chan_run :: "chan_event list \<Rightarrow> chan_sm \<Rightarrow> chan_sm" where
  "chan_run \<equiv> run_events chan_step"

lemmas chan_ops =
  ch_goto_def ch_reject_def ch_on_open_sent_def ch_on_open_ok_def ch_begin_close_def
  ch_on_close_ok_def ch_assert_open_for_ops_def

interpretation chan: fail_closed chan_step "\<lambda>sm. ch_state sm = Ch_ERROR" "\<lambda>e. e = ChCloseOk"
proof
  show "ch_state (snd (chan_step e s)) = Ch_ERROR" if "fst (chan_step e s) = Inl x" for e s x
    using that by (cases e) (auto simp: chan_ops split: if_splits)
  show "\<exists>x. fst (chan_step e s) = Inl x" if "ch_state s = Ch_ERROR" "e \<noteq> ChCloseOk" for e s
    using that by (cases e) (auto simp: chan_ops)
qed

lemma chan_id_step: "ch_id (snd (chan_step e sm)) = ch_id sm"
  by (cases e) (auto simp: chan_ops)

lemma chan_id_run: "ch_id (chan_run es sm) = ch_id sm"
  by (induction es arbitrary: sm) (auto simp: chan_id_step)

text \<open>The only call after which a machine is in \<open>OPENING\<close>, and the two after which it is open.\<close>

lemma chan_opening_iff:
  "ch_state (snd (chan_step e sm)) = Ch_OPENING \<longleftrightarrow> e = ChOpenSent \<and> ch_state sm = Ch_CLOSED"
  by (cases e; cases "ch_state sm") (auto simp: chan_ops)

lemma chan_open_iff:
  "ch_state (snd (chan_step e sm)) = Ch_OPEN \<longleftrightarrow>
     e = ChOpenOk \<and> ch_state sm = Ch_OPENING \<or> e = ChAssertOpen \<and> ch_state sm = Ch_OPEN"
  by (cases e; cases "ch_state sm") (auto simp: chan_ops)

lemma chan_run_opening_iff:
  "ch_state (chan_run es (chan_sm_init c)) = Ch_OPENING \<longleftrightarrow>
     (\<exists>as. es = as @ [ChOpenSent] \<and> ch_state (chan_run as (chan_sm_init c)) = Ch_CLOSED)"
  by (induction es rule: rev_induct) (auto simp: chan_sm_init_def chan_opening_iff)

lemma chan_run_asserts: "ch_state sm = Ch_OPEN \<Longrightarrow> chan_run (replicate n ChAssertOpen) sm = sm"
  by (induction n) (auto simp: chan_ops)

text \<open>
  A channel machine is open exactly when open was called on a closed machine, the very next
  call was open-ok, and every call since was the check that the channel is open: any other call,
  in any other order, leaves it not open. The channel's number never changes.\<close>

theorem chan_open_exactly_after_open_ok:
  "(ch_is_open (chan_run es (chan_sm_init c)) \<longleftrightarrow>
     (\<exists>as n. es = as @ [ChOpenSent, ChOpenOk] @ replicate n ChAssertOpen \<and>
             ch_state (chan_run as (chan_sm_init c)) = Ch_CLOSED)) \<and>
   ch_id (chan_run es (chan_sm_init c)) = c"
proof -
  have "\<exists>as n. es = as @ [ChOpenSent, ChOpenOk] @ replicate n ChAssertOpen \<and>
      ch_state (chan_run as (chan_sm_init c)) = Ch_CLOSED"
    if "ch_state (chan_run es (chan_sm_init c)) = Ch_OPEN"
    using that
  proof (induction es rule: rev_induct)
    case (snoc e es)
    then consider "e = ChOpenOk" "ch_state (chan_run es (chan_sm_init c)) = Ch_OPENING"
      | "e = ChAssertOpen" "ch_state (chan_run es (chan_sm_init c)) = Ch_OPEN"
      by (auto simp: chan_open_iff)
    then show ?case
    proof cases
      case 1
      then obtain as where "es = as @ [ChOpenSent]" "ch_state (chan_run as (chan_sm_init c)) = Ch_CLOSED"
        by (auto simp: chan_run_opening_iff)
      with 1 show ?thesis by (intro exI[of _ as] exI[of _ 0]) simp
    next
      case 2
      with snoc.IH obtain as n where "es = as @ [ChOpenSent, ChOpenOk] @ replicate n ChAssertOpen"
        "ch_state (chan_run as (chan_sm_init c)) = Ch_CLOSED"
        by blast
      with 2 show ?thesis
        by (intro exI[of _ as] exI[of _ "Suc n"]) (simp add: replicate_append_same)
    qed
  qed (simp add: chan_sm_init_def)
  then show ?thesis
    by (auto simp: ch_is_open_def chan_id_run chan_sm_init_def chan_run_asserts chan_ops)
qed

text \<open>
  \<open>on_close_ok\<close> has no guard: after a refused call, when every other call is refused, one
  close-ok makes the failed machine \<open>CLOSED\<close>, from where the same channel opens again.\<close>

theorem chan_error_cleared_by_close_ok:
  assumes "fst (chan_step e sm) = Inl x"
  shows "(\<forall>e'. e' \<noteq> ChCloseOk \<longrightarrow> (\<exists>y. fst (chan_step e' (snd (chan_step e sm))) = Inl y)) \<and>
    ch_is_open (chan_run [e, ChCloseOk, ChOpenSent, ChOpenOk] sm)"
  using chan.refused_for_good[of e sm x "[]"] assms
  by (auto simp: ch_is_open_def chan_ops)

theorem chan_error_cleared_by_close_ok_witness:
  "ch_is_open (chan_run [ChAssertOpen, ChCloseOk, ChOpenSent, ChOpenOk] (chan_sm_init 1))"
  using chan_error_cleared_by_close_ok[of ChAssertOpen "chan_sm_init 1"
    "ProtocolError ''channel op requires OPEN, got {}''"]
  by (simp add: chan_ops chan_sm_init_def)

end
