(* ===== verification/Methods.thy ===== *)
theory Methods
  imports FieldTable MethodIds
begin

text \<open>
  \<^verbatim>\<open>src/src/nuropb_rmq/protocol/methods.py\<close>: AMQP methods and the content header of class basic.
  The arguments of a method are a dict, as in the code; a key read with \<open>args[k]\<close> may raise
  \<open>KeyError\<close>, one read with \<open>args.get(k, d)\<close> has its default.
\<close>

record amqp_method =
  m_class :: int
  m_method :: int
  m_args :: pydict

section \<open>Arguments of a method\<close>

text \<open>\<open>encode_shortstr(v)\<close> and \<open>encode_table(v)\<close> on a dynamically typed value.\<close>

fun shortstr_value :: "pyval \<Rightarrow> bytes res" where
  "shortstr_value (VStr s) = encode_shortstr s"
| "shortstr_value VOther = Inl (Unmodelled ''encode() of an object'')"
| "shortstr_value _ = Inl (AttributeError ''object has no attribute 'encode' '')"

fun table_value :: "pyval \<Rightarrow> bytes res" where
  "table_value (VDict d) = encode_table DEFAULT_MAX_TABLE_DEPTH 0 d"
| "table_value VOther = Inl (Unmodelled ''items() of an object'')"
| "table_value _ = Inl (AttributeError ''object has no attribute 'items' '')"

definition short_arg :: "pydict \<Rightarrow> string \<Rightarrow> string \<Rightarrow> bytes res" where
  "short_arg args k dflt = shortstr_value (dict_get_or args (S k) (VStr (S dflt)))"

definition short_req :: "pydict \<Rightarrow> string \<Rightarrow> bytes res" where
  "short_req args k = bind_r (dict_item args (S k)) shortstr_value"

definition table_arg :: "pydict \<Rightarrow> string \<Rightarrow> bytes res" where
  "table_arg args k = table_value (dict_get_or args (S k) (VDict []))"

definition int_arg :: "pydict \<Rightarrow> string \<Rightarrow> nat \<Rightarrow> int \<Rightarrow> bytes res" where
  "int_arg args k width dflt =
     bind_r (py_int (dict_get_or args (S k) (VInt dflt))) (to_bytes width)"

definition int_req :: "pydict \<Rightarrow> string \<Rightarrow> nat \<Rightarrow> bytes res" where
  "int_req args k width =
     bind_r (dict_item args (S k)) (\<lambda>v. bind_r (py_int v) (to_bytes width))"

definition is_set :: "pydict \<Rightarrow> string \<Rightarrow> bool" where
  "is_set args k = truthy (dict_get_or args (S k) VNone)"

text \<open>\<open>bits |= 1\<close>, \<open>bits |= 2\<close>, \<open>bits |= 4\<close>, ... for the names that are set, in order.\<close>

fun bits_of :: "pydict \<Rightarrow> string list \<Rightarrow> nat" where
  "bits_of args [] = 0"
| "bits_of args (k # ks) = (if is_set args k then 1 else 0) + 2 * bits_of args ks"

definition bits_arg :: "pydict \<Rightarrow> string list \<Rightarrow> bytes res" where
  "bits_arg args ks = byte_of_int (int (bits_of args ks))"

section \<open>Encoding a method\<close>

definition encode_close_args :: "pydict \<Rightarrow> bytes res" where
  "encode_close_args args =
     cat_r [int_arg args ''reply_code'' 2 200, short_arg args ''reply_text'' '''',
            int_arg args ''class_id'' 2 0, int_arg args ''method_id'' 2 0]"

definition encode_secret :: "pydict \<Rightarrow> bytes res" where
  "encode_secret args =
     (case dict_get_or args (S ''new_secret'') (VBytes []) of
        VStr s \<Rightarrow> bind_r (utf8_encode s) (\<lambda>b. encode_longstr (VBytes b))
      | v \<Rightarrow> encode_longstr v)"

definition encode_args :: "int \<Rightarrow> int \<Rightarrow> pydict \<Rightarrow> bytes res" where
  "encode_args cid mid args =
     (if cid = CONNECTION \<and> mid = CONNECTION_START_OK then
        cat_r [table_arg args ''client_properties'', short_req args ''mechanism'',
               bind_r (dict_item args (S ''response'')) encode_longstr, short_arg args ''locale'' ''en_US'']
      else if cid = CONNECTION \<and> mid = CONNECTION_TUNE_OK then
        cat_r [int_req args ''channel_max'' 2, int_req args ''frame_max'' 4, int_req args ''heartbeat'' 2]
      else if cid = CONNECTION \<and> mid = CONNECTION_OPEN then
        cat_r [short_arg args ''virtual_host'' ''/'', short_arg args ''capabilities'' '''',
               bits_arg args [''insist'']]
      else if cid = CONNECTION \<and> mid = CONNECTION_CLOSE then encode_close_args args
      else if cid = CONNECTION \<and> mid = CONNECTION_CLOSE_OK then Inr []
      else if cid = CONNECTION \<and> mid = CONNECTION_UPDATE_SECRET then
        cat_r [encode_secret args, short_arg args ''reason'' '''']
      else if cid = CHANNEL \<and> mid = CHANNEL_OPEN then short_arg args ''out_of_band'' ''''
      else if cid = CHANNEL \<and> mid = CHANNEL_OPEN_OK then
        encode_longstr (dict_get_or args (S ''channel_id'') (VBytes []))
      else if cid = CHANNEL \<and> mid = CHANNEL_CLOSE then encode_close_args args
      else if cid = CHANNEL \<and> mid = CHANNEL_CLOSE_OK then Inr []
      else if cid = QUEUE \<and> mid = QUEUE_DECLARE then
        cat_r [int_arg args ''ticket'' 2 0, short_arg args ''queue'' '''',
               bits_arg args [''passive'', ''durable'', ''exclusive'', ''auto_delete'', ''nowait''],
               table_arg args ''arguments'']
      else if cid = EXCHANGE \<and> mid = EXCHANGE_DECLARE then
        cat_r [int_arg args ''ticket'' 2 0, short_req args ''exchange'', short_arg args ''type'' ''direct'',
               bits_arg args [''passive'', ''durable'', ''auto_delete'', ''internal'', ''nowait''],
               table_arg args ''arguments'']
      else if cid = QUEUE \<and> mid = QUEUE_BIND then
        cat_r [int_arg args ''ticket'' 2 0, short_arg args ''queue'' '''', short_arg args ''exchange'' '''',
               short_arg args ''routing_key'' '''', bits_arg args [''nowait''], table_arg args ''arguments'']
      else if cid = BASIC \<and> mid = BASIC_PUBLISH then
        cat_r [int_arg args ''ticket'' 2 0, short_arg args ''exchange'' '''',
               short_arg args ''routing_key'' '''', bits_arg args [''mandatory'', ''immediate'']]
      else if cid = BASIC \<and> mid = BASIC_RETURN then
        cat_r [int_arg args ''reply_code'' 2 312, short_arg args ''reply_text'' '''',
               short_arg args ''exchange'' '''', short_arg args ''routing_key'' '''']
      else if cid = BASIC \<and> mid = BASIC_CONSUME then
        cat_r [int_arg args ''ticket'' 2 0, short_arg args ''queue'' '''',
               short_arg args ''consumer_tag'' '''',
               bits_arg args [''no_local'', ''no_ack'', ''exclusive'', ''nowait''],
               table_arg args ''arguments'']
      else if cid = BASIC \<and> mid = BASIC_ACK then
        cat_r [int_req args ''delivery_tag'' 8, bits_arg args [''multiple'']]
      else if cid = BASIC \<and> mid = BASIC_REJECT then
        cat_r [int_req args ''delivery_tag'' 8, bits_arg args [''requeue'']]
      else if cid = BASIC \<and> mid = BASIC_NACK then
        cat_r [int_req args ''delivery_tag'' 8, bits_arg args [''multiple'', ''requeue'']]
      else if cid = BASIC \<and> mid = BASIC_CANCEL then
        cat_r [short_arg args ''consumer_tag'' '''', bits_arg args [''nowait'']]
      else if cid = BASIC \<and> mid = BASIC_QOS then
        cat_r [int_arg args ''prefetch_size'' 4 0, int_arg args ''prefetch_count'' 2 0,
               bits_arg args [''global_'']]
      else if cid = CONFIRM \<and> mid = CONFIRM_SELECT then bits_arg args [''nowait'']
      else Inl (AmqpCodecError ''encode unsupported method {}.{}''))"

definition encode_method :: "amqp_method \<Rightarrow> bytes res" where
  "encode_method m =
     bind_r (cat_r [to_bytes 2 (m_class m), to_bytes 2 (m_method m)]) (\<lambda>ids.
       bind_r (encode_args (m_class m) (m_method m) (m_args m)) (\<lambda>args. Inr (ids @ args)))"

section \<open>Decoding a method\<close>

text \<open>\<open>int.from_bytes(payload[off:off+width], "big")\<close>: a slice past the end is shorter, not an error.\<close>

definition int_at :: "bytes \<Rightarrow> nat \<Rightarrow> nat \<Rightarrow> pyval" where
  "int_at data off width = VInt (int (from_be (pyslice data off (off + width))))"

definition short_at :: "bytes \<Rightarrow> nat \<Rightarrow> (pyval \<times> nat) res" where
  "short_at data off = bind_r (decode_shortstr data off) (\<lambda>(s, p). Inr (VStr s, p))"

definition long_at :: "bytes \<Rightarrow> nat \<Rightarrow> (pyval \<times> nat) res" where
  "long_at data off = bind_r (decode_longstr data off) (\<lambda>(b, p). Inr (VBytes b, p))"

definition decode_start_args :: "bytes \<Rightarrow> nat \<Rightarrow> pydict res" where
  "decode_start_args data off =
     bind_r (index_r data off) (\<lambda>major. bind_r (index_r data (off + 1)) (\<lambda>minor.
     bind_r (decode_table DEFAULT_MAX_TABLE_DEPTH data (off + 2) 0) (\<lambda>(props, p1).
     bind_r (decode_longstr data p1) (\<lambda>(mechs, p2). bind_r (utf8_decode mechs) (\<lambda>mechanisms.
     bind_r (decode_longstr data p2) (\<lambda>(locs, p3). bind_r (utf8_decode locs) (\<lambda>locales.
     Inr [(S ''version_major'', VInt (uint major)), (S ''version_minor'', VInt (uint minor)),
          (S ''server_properties'', VDict props), (S ''mechanisms'', VStr mechanisms),
          (S ''locales'', VStr locales)])))))))"

definition decode_close_args :: "bytes \<Rightarrow> nat \<Rightarrow> pydict res" where
  "decode_close_args data off =
     bind_r (short_at data (off + 2)) (\<lambda>(text, p).
     Inr [(S ''reply_code'', int_at data off 2), (S ''reply_text'', text),
          (S ''class_id'', int_at data p 2), (S ''method_id'', int_at data (p + 2) 2)])"

definition decode_deliver_args :: "bytes \<Rightarrow> nat \<Rightarrow> pydict res" where
  "decode_deliver_args data off =
     bind_r (short_at data off) (\<lambda>(ctag, p).
     bind_r (index_r data (p + 8)) (\<lambda>red.
     bind_r (short_at data (p + 9)) (\<lambda>(exch, p2).
     bind_r (short_at data p2) (\<lambda>(key, p3).
     Inr [(S ''consumer_tag'', ctag), (S ''delivery_tag'', int_at data p 8),
          (S ''redelivered'', VBool (red \<noteq> 0)), (S ''exchange'', exch), (S ''routing_key'', key)]))))"

definition decode_return_args :: "bytes \<Rightarrow> nat \<Rightarrow> pydict res" where
  "decode_return_args data off =
     bind_r (short_at data (off + 2)) (\<lambda>(text, p).
     bind_r (short_at data p) (\<lambda>(exch, p2).
     bind_r (short_at data p2) (\<lambda>(key, p3).
     Inr [(S ''reply_code'', int_at data off 2), (S ''reply_text'', text),
          (S ''exchange'', exch), (S ''routing_key'', key)])))"

definition one_arg :: "string \<Rightarrow> (pyval \<times> nat) res \<Rightarrow> pydict res" where
  "one_arg k r = bind_r r (\<lambda>(v, _). Inr [(S k, v)])"

definition decode_args :: "int \<Rightarrow> int \<Rightarrow> bytes \<Rightarrow> nat \<Rightarrow> pydict res" where
  "decode_args cid mid data off =
     (if cid = CONNECTION \<and> mid = CONNECTION_START then decode_start_args data off
      else if cid = CONNECTION \<and> mid = CONNECTION_TUNE then
        Inr [(S ''channel_max'', int_at data off 2), (S ''frame_max'', int_at data (off + 2) 4),
             (S ''heartbeat'', int_at data (off + 6) 2)]
      else if cid = CONNECTION \<and> mid = CONNECTION_OPEN_OK then one_arg ''reserved_1'' (short_at data off)
      else if cid = CONNECTION \<and> mid = CONNECTION_CLOSE then decode_close_args data off
      else if cid = CONNECTION \<and> mid = CONNECTION_CLOSE_OK then Inr []
      else if cid = CHANNEL \<and> mid = CHANNEL_OPEN_OK then one_arg ''channel_id'' (long_at data off)
      else if cid = CHANNEL \<and> mid = CHANNEL_CLOSE then decode_close_args data off
      else if cid = CHANNEL \<and> mid = CHANNEL_CLOSE_OK then Inr []
      else if cid = QUEUE \<and> mid = QUEUE_DECLARE_OK then
        bind_r (short_at data off) (\<lambda>(q, p).
          Inr [(S ''queue'', q), (S ''message_count'', int_at data p 4),
               (S ''consumer_count'', int_at data (p + 4) 4)])
      else if cid = EXCHANGE \<and> mid = EXCHANGE_DECLARE_OK then Inr []
      else if cid = QUEUE \<and> mid = QUEUE_BIND_OK then Inr []
      else if cid = BASIC \<and> mid = BASIC_CONSUME_OK then one_arg ''consumer_tag'' (short_at data off)
      else if cid = BASIC \<and> mid = BASIC_DELIVER then decode_deliver_args data off
      else if cid = BASIC \<and> mid = BASIC_QOS_OK then Inr []
      else if cid = BASIC \<and> mid = BASIC_CANCEL_OK then one_arg ''consumer_tag'' (short_at data off)
      else if cid = BASIC \<and> mid = BASIC_ACK then
        Inr [(S ''delivery_tag'', int_at data off 8),
             (S ''multiple'', VBool (off + 9 \<le> length data \<and> data ! (off + 8) \<noteq> 0))]
      else if cid = BASIC \<and> mid = BASIC_NACK then
        let bits = (if off + 9 \<le> length data then data ! (off + 8) else 0) in
        Inr [(S ''delivery_tag'', int_at data off 8), (S ''multiple'', VBool (bit bits 0)),
             (S ''requeue'', VBool (bit bits 1))]
      else if cid = CONNECTION \<and> mid = CONNECTION_BLOCKED then one_arg ''reason'' (short_at data off)
      else if cid = CONNECTION \<and> mid = CONNECTION_UNBLOCKED then Inr []
      else if cid = CONNECTION \<and> mid = CONNECTION_SECURE then one_arg ''challenge'' (long_at data off)
      else if cid = CONNECTION \<and> mid = CONNECTION_UPDATE_SECRET_OK then Inr []
      else if cid = BASIC \<and> mid = BASIC_RETURN then decode_return_args data off
      else if cid = CONFIRM \<and> mid = CONFIRM_SELECT_OK then Inr []
      else Inr [(S ''raw'', VBytes (drop 4 data))])"

definition decode_method :: "bytes \<Rightarrow> amqp_method res" where
  "decode_method data =
     (if length data < 4 then Inl (AmqpCodecError ''method payload too short'')
      else
        let class_id = int (from_be (pyslice data 0 2)); method_id = int (from_be (pyslice data 2 4)) in
        bind_r (decode_args class_id method_id data 4) (\<lambda>args.
          Inr \<lparr>m_class = class_id, m_method = method_id, m_args = args\<rparr>))"

section \<open>The content header\<close>

text \<open>
  The fourteen \<open>if\<close> statements of \<open>encode_content_header\<close> and of \<open>decode_content_header\<close>, as one
  table in the order of the code: the name, the bit of the flags, how the value is written.
\<close>

datatype prop_kind = PShort | PTable | POctet | PTime

definition basic_props :: "(pystr \<times> nat \<times> prop_kind) list" where
  "basic_props =
     [(S ''content_type'', 15, PShort), (S ''content_encoding'', 14, PShort), (S ''headers'', 13, PTable),
      (S ''delivery_mode'', 12, POctet), (S ''priority'', 11, POctet), (S ''correlation_id'', 10, PShort),
      (S ''reply_to'', 9, PShort), (S ''expiration'', 8, PShort), (S ''message_id'', 7, PShort),
      (S ''timestamp'', 6, PTime), (S ''type'', 5, PShort), (S ''user_id'', 4, PShort),
      (S ''app_id'', 3, PShort), (S ''cluster_id'', 2, PShort)]"

fun encode_prop :: "prop_kind \<Rightarrow> pyval \<Rightarrow> bytes res" where
  "encode_prop PShort v = shortstr_value v"
| "encode_prop PTable v = table_value v"
| "encode_prop POctet v = bind_r (py_int v) byte_of_int"
| "encode_prop PTime (VDatetime t) = to_bytes 8 t"
| "encode_prop PTime v = bind_r (py_int v) (to_bytes 8)"

text \<open>\<open>flags |= 1 << bit\<close> and \<open>prop_body += ...\<close> for each property present; the bits are distinct.\<close>

fun encode_props :: "(pystr \<times> nat \<times> prop_kind) list \<Rightarrow> pydict \<Rightarrow> (nat \<times> bytes) res" where
  "encode_props [] props = Inr (0, [])"
| "encode_props ((n, b, k) # ps) props =
     (case dict_get props n of
        None \<Rightarrow> encode_props ps props
      | Some v \<Rightarrow>
          bind_r (encode_prop k v) (\<lambda>x. bind_r (encode_props ps props) (\<lambda>(f, y). Inr (2 ^ b + f, x @ y))))"

definition encode_content_header :: "int \<Rightarrow> int \<Rightarrow> pydict \<Rightarrow> bytes res" where
  "encode_content_header class_id body_size props =
     bind_r (encode_props basic_props props) (\<lambda>(flags, body).
       cat_r [to_bytes 2 class_id, to_bytes 2 0, to_bytes 8 body_size, to_bytes 2 (int flags), Inr body])"

fun decode_prop :: "prop_kind \<Rightarrow> bytes \<Rightarrow> nat \<Rightarrow> (pyval \<times> nat) res" where
  "decode_prop PShort data off = short_at data off"
| "decode_prop PTable data off =
     bind_r (decode_table DEFAULT_MAX_TABLE_DEPTH data off 0) (\<lambda>(d, p). Inr (VDict d, p))"
| "decode_prop POctet data off = bind_r (index_r data off) (\<lambda>b. Inr (VInt (uint b), off + 1))"
| "decode_prop PTime data off =
     (if off + 8 > length data then Inl (AmqpCodecError ''truncated timestamp'')
      else Inr (int_at data off 8, off + 8))"

fun decode_props :: "(pystr \<times> nat \<times> prop_kind) list \<Rightarrow> nat \<Rightarrow> bytes \<Rightarrow> nat \<Rightarrow> pydict res" where
  "decode_props [] flags data off = Inr []"
| "decode_props ((n, b, k) # ps) flags data off =
     (if bit flags b then
        bind_r (decode_prop k data off) (\<lambda>(v, off'). bind_r (decode_props ps flags data off') (\<lambda>d.
          Inr ((n, v) # d)))
      else decode_props ps flags data off)"

definition decode_content_header :: "bytes \<Rightarrow> (int \<times> int \<times> pydict) res" where
  "decode_content_header data =
     (if length data < 14 then Inl (AmqpCodecError ''content header too short'')
      else
        bind_r (decode_props basic_props (from_be (pyslice data 12 14)) data 14) (\<lambda>props.
          Inr (int (from_be (pyslice data 0 2)), int (from_be (pyslice data 4 12)), props)))"

section \<open>Parts of a payload\<close>

lemma int_at_mid:
  assumes "to_bytes k v = Inr b" "data = pre @ b @ post" "off = length pre"
  shows "int_at data off k = VInt v"
proof -
  from assms(1) have b: "b = be k (nat v)" "0 \<le> v" "v < 256 ^ k"
    by (auto simp: to_bytes_Inr_iff)
  have "pyslice data off (off + k) = be k (nat v)"
    by (rule pyslice_mid_eq[of _ pre _ post]) (simp_all add: assms(2,3) b(1))
  moreover have "from_be (be k (nat v)) = nat v"
    using b by (intro from_be_be_id) (simp add: nat_less_iff)
  ultimately show ?thesis using b by (simp add: int_at_def)
qed

lemma to_bytes_len: "to_bytes k v = Inr b \<Longrightarrow> length b = k"
  by (auto simp: to_bytes_Inr_iff)

lemma short_at_mid:
  assumes "encode_shortstr s = Inr b" "data = pre @ b @ post" "off = length pre"
  shows "short_at data off = Inr (VStr s, off + length b)"
  using shortstr.round_at[OF TrueI assms] by (simp add: short_at_def)

lemma byte_of_int_Inr_iff: "byte_of_int v = Inr b \<longleftrightarrow> 0 \<le> v \<and> v < 256 \<and> b = [of_int v]"
  by (auto simp: byte_of_int_def)

section \<open>Round trip of the content header\<close>

text \<open>
  What a property reads as: a \<open>datetime\<close> comes back as its number of seconds, a bool as 0 or 1 and a
  float without its fraction; every other value as it was. Headers must be a table that round-trips by itself.
\<close>

fun prop_read :: "prop_kind \<Rightarrow> pyval \<Rightarrow> pyval" where
  "prop_read PTime (VDatetime t) = VInt t"
| "prop_read PTime (VBool b) = VInt (if b then 1 else 0)"
| "prop_read POctet (VBool b) = VInt (if b then 1 else 0)"
| "prop_read PTime (VFloat w) = (case float_trunc w of Inr i \<Rightarrow> VInt i | Inl _ \<Rightarrow> VFloat w)"
| "prop_read POctet (VFloat w) = (case float_trunc w of Inr i \<Rightarrow> VInt i | Inl _ \<Rightarrow> VFloat w)"
| "prop_read k v = v"

fun prop_ok :: "prop_kind \<Rightarrow> pyval \<Rightarrow> bool" where
  "prop_ok PTable (VDict d) = table_ok d"
| "prop_ok k v = True"

fun read_props :: "(pystr \<times> nat \<times> prop_kind) list \<Rightarrow> pydict \<Rightarrow> pydict" where
  "read_props [] props = []"
| "read_props ((n, b, k) # ps) props =
     (case dict_get props n of
        None \<Rightarrow> read_props ps props
      | Some v \<Rightarrow> (n, prop_read k v) # read_props ps props)"

definition props_ok :: "(pystr \<times> nat \<times> prop_kind) list \<Rightarrow> pydict \<Rightarrow> bool" where
  "props_ok ps props \<longleftrightarrow>
     list_all (\<lambda>(n, b, k). case dict_get props n of None \<Rightarrow> True | Some v \<Rightarrow> prop_ok k v) ps"

lemma octet_round:
  assumes "byte_of_int n = Inr bs"
  shows "decode_prop POctet (pre @ bs @ post) (length pre) = Inr (VInt n, length pre + length bs)"
  using assms by (auto simp: byte_of_int_Inr_iff index_r_def uint_word_of_int)

lemma time_round:
  assumes "to_bytes 8 t = Inr bs"
  shows "decode_prop PTime (pre @ bs @ post) (length pre) = Inr (VInt t, length pre + length bs)"
  using int_at_mid[OF assms refl refl, of pre post] to_bytes_len[OF assms] by simp

lemma short_prop_round:
  assumes "shortstr_value v = Inr bs"
  shows "decode_prop PShort (pre @ bs @ post) (length pre) = Inr (v, length pre + length bs)"
  using assms by (cases v) (auto intro!: short_at_mid)

lemma table_prop_round:
  assumes "table_value v = Inr bs" "prop_ok PTable v"
  shows "decode_prop PTable (pre @ bs @ post) (length pre) = Inr (v, length pre + length bs)"
  using assms field_table.round by (cases v) auto

lemma prop_round:
  assumes "encode_prop k v = Inr bs" "prop_ok k v"
  shows "decode_prop k (pre @ bs @ post) (length pre) = Inr (prop_read k v, length pre + length bs)"
proof (cases k)
  case PShort
  then show ?thesis using assms short_prop_round by simp
next
  case PTable
  then show ?thesis using assms table_prop_round by simp
next
  case POctet
  then show ?thesis using assms octet_round by (cases v) (auto simp: bind_r_Inr_iff simp del: decode_prop.simps)
next
  case PTime
  then show ?thesis using assms time_round by (cases v) (auto simp: bind_r_Inr_iff simp del: decode_prop.simps)
qed

lemma flag_bits:
  fixes F :: nat
  assumes "take_bit B F = 2 ^ b + f" "f < 2 ^ b" "b < B"
  shows "bit F b" "take_bit b F = f"
proof -
  have "(2 ^ b + f) div 2 ^ b = (1 :: nat)" using assms(2) by (simp add: div_add_self1)
  then have "bit (take_bit B F) b" using assms(1) by (simp add: bit_iff_odd)
  then show "bit F b" using assms(3) by (simp add: bit_take_bit_iff)
  have "take_bit b (take_bit B F) = f" using assms(1,2) by (simp add: take_bit_eq_mod)
  then show "take_bit b F = f" using assms(3) by (simp add: min_def)
qed

lemma flag_unset:
  fixes F :: nat
  assumes "take_bit B F < 2 ^ b" "b < B"
  shows "\<not> bit F b" "take_bit b F = take_bit B F"
proof -
  have "\<not> bit (take_bit B F) b" using assms by (simp add: bit_iff_odd)
  then show "\<not> bit F b" using assms(2) by (simp add: bit_take_bit_iff)
  have "take_bit b (take_bit B F) = take_bit B F"
    using assms(1) by (simp add: take_bit_eq_mod)
  then show "take_bit b F = take_bit B F" using assms(2) by (simp add: min_def)
qed

abbreviation prop_bits :: "(pystr \<times> nat \<times> prop_kind) list \<Rightarrow> nat list" where
  "prop_bits ps \<equiv> map (\<lambda>a. fst (snd a)) ps"

lemma encode_props_bound:
  assumes "encode_props ps props = Inr (f, body)" "sorted_wrt (>) (B # prop_bits ps)"
  shows "f < 2 ^ B"
  using assms
proof (induction ps props arbitrary: f body B rule: encode_props.induct)
  case (2 n b k ps props)
  have b: "b < B" "sorted_wrt (>) (b # prop_bits ps)" using "2.prems"(2) by auto
  show ?case
  proof (cases "dict_get props n")
    case None
    have "sorted_wrt (>) (B # prop_bits ps)" using "2.prems"(2) by auto
    then show ?thesis using "2.IH"(1)[OF None] "2.prems" None by simp
  next
    case (Some v)
    then obtain x f' y where e: "encode_prop k v = Inr x" "encode_props ps props = Inr (f', y)" "f = 2 ^ b + f'"
      using "2.prems"(1) by (auto simp: bind_r_Inr_iff)
    have "f' < 2 ^ b" using "2.IH"(2)[OF Some e(1,2) b(2)] .
    then have "f < 2 ^ Suc b" using e(3) by simp
    also have "(2::nat) ^ Suc b \<le> 2 ^ B" using b(1) by (intro power_increasing) auto
    finally show ?thesis .
  qed
qed simp

lemma props_round:
  assumes "encode_props ps props = Inr (f, body)" "sorted_wrt (>) (B # prop_bits ps)"
    and "take_bit B F = f" "props_ok ps props"
  shows "decode_props ps F (pre @ body @ post) (length pre) = Inr (read_props ps props)"
  using assms
proof (induction ps props arbitrary: f body B pre rule: encode_props.induct)
  case (2 n b k ps props)
  have b: "b < B" "sorted_wrt (>) (b # prop_bits ps)" "props_ok ps props"
    using "2.prems"(2,4) by (auto simp: props_ok_def)
  show ?case
  proof (cases "dict_get props n")
    case None
    then have e: "encode_props ps props = Inr (f, body)" using "2.prems"(1) by simp
    have "f < 2 ^ b" using encode_props_bound[OF e b(2)] .
    then have "\<not> bit F b" "take_bit b F = f" using flag_unset[of B F b] "2.prems"(3) b(1) by auto
    then show ?thesis using "2.IH"(1)[OF None e b(2) _ b(3)] None by simp
  next
    case (Some v)
    then obtain x f' y where e: "encode_prop k v = Inr x" "encode_props ps props = Inr (f', y)"
      "f = 2 ^ b + f'" "body = x @ y"
      using "2.prems"(1) by (auto simp: bind_r_Inr_iff)
    have f': "f' < 2 ^ b" using encode_props_bound[OF e(2) b(2)] .
    then have F: "bit F b" "take_bit b F = f'"
      using flag_bits[of B F b f'] "2.prems"(3) e(3) b(1) by auto
    have "prop_ok k v" using "2.prems"(4) Some by (simp add: props_ok_def)
    from prop_round[OF e(1) this, of pre "y @ post"]
    have d: "decode_prop k (pre @ body @ post) (length pre) = Inr (prop_read k v, length pre + length x)"
      by (simp add: e(4))
    have "decode_props ps F ((pre @ x) @ y @ post) (length (pre @ x)) = Inr (read_props ps props)"
      by (rule "2.IH"(2)[OF Some e(1,2) b(2) F(2) b(3)])
    then show ?thesis using F(1) d Some by (simp add: e(4))
  qed
qed simp

lemma basic_bits: "sorted_wrt (>) (16 # prop_bits basic_props)"
  by (simp add: basic_props_def)

lemma header_round:
  assumes "encode_content_header class_id body_size props = Inr bs" "props_ok basic_props props"
  shows "decode_content_header (bs @ post) = Inr (class_id, body_size, read_props basic_props props)"
proof -
  obtain f body where e: "encode_props basic_props props = Inr (f, body)"
    and c: "0 \<le> class_id" "class_id < 256 ^ 2" and z: "0 \<le> body_size" "body_size < 256 ^ 8"
    and bs: "bs = be 2 (nat class_id) @ be 2 0 @ be 8 (nat body_size) @ be 2 f @ body"
    using assms(1) by (auto simp: encode_content_header_def bind_r_Inr_iff to_bytes_Inr_iff)
  have f: "f < 2 ^ 16" by (rule encode_props_bound[OF e basic_bits])
  have s1: "pyslice (bs @ post) 0 2 = be 2 (nat class_id)"
    by (rule pyslice_mid_eq[of _ "[]"]) (simp_all add: bs)
  have s2: "pyslice (bs @ post) 4 12 = be 8 (nat body_size)"
    by (rule pyslice_mid_eq[of _ "be 2 (nat class_id) @ be 2 0"]) (simp_all add: bs)
  have s3: "pyslice (bs @ post) 12 14 = be 2 f"
    by (rule pyslice_mid_eq[of _ "be 2 (nat class_id) @ be 2 0 @ be 8 (nat body_size)"]) (simp_all add: bs)
  have n: "from_be (be 2 (nat class_id)) = nat class_id" "from_be (be 8 (nat body_size)) = nat body_size"
    "from_be (be 2 f) = f"
    using c z f by (simp_all add: from_be_be nat_less_iff)
  have "take_bit 16 f = f" using f by (simp add: take_bit_eq_mod)
  from props_round[OF e basic_bits this assms(2),
      of "be 2 (nat class_id) @ be 2 0 @ be 8 (nat body_size) @ be 2 f" post]
  have "decode_props basic_props f (bs @ post) 14 = Inr (read_props basic_props props)"
    by (simp add: bs)
  moreover have "14 \<le> length (bs @ post)" by (simp add: bs)
  ultimately show ?thesis
    using c z unfolding decode_content_header_def s1 s2 s3 n by simp
qed

text \<open>Each property by its name.\<close>

lemma dict_get_read_props:
  "distinct (map fst ps) \<Longrightarrow> dict_get (read_props ps props) n =
     (case map_of ps n of None \<Rightarrow> None | Some (b, k) \<Rightarrow> map_option (prop_read k) (dict_get props n))"
proof (induction ps arbitrary: n)
  case (Cons p ps)
  obtain m b k where p: "p = (m, b, k)" by (cases p)
  have "map_of ps m = None" using Cons.prems by (simp add: p map_of_eq_None_iff)
  then have m: "dict_get (read_props ps props) m = None" using Cons.IH[of m] Cons.prems by simp
  show ?case using Cons.IH[of n] Cons.prems m by (cases "dict_get props m") (auto simp: p)
qed simp

lemma basic_props_distinct: "distinct (map fst basic_props)"
  by (simp add: basic_props_def S_def)

text \<open>
  C32. The content header round-trips. If a header encodes, and its table of headers, if any, is one that the
  decoder reads back (\<open>props_ok\<close>: nested no deeper than the decoder's limit, which counts faster than the
  encoder's, without \<open>Decimal\<close> or \<open>datetime\<close> values and no longer than a default frame), then decoding it,
  whatever follows it, returns the class, the size of the body and the basic properties that were given, in the order of
  the flags and each as it reads: a \<open>datetime\<close> as its seconds, a bool of a number as 0 or 1, a float
  without its fraction, anything else unchanged. By name: a basic property that was given has the value
  it reads as; one that was not given, and any name that is not of a basic property, is absent.\<close>

theorem content_header_roundtrip:
  assumes "encode_content_header class_id body_size props = Inr bs" "props_ok basic_props props"
  shows "decode_content_header (bs @ post) = Inr (class_id, body_size, read_props basic_props props) \<and>
    dict_get (read_props basic_props props) n =
      (case map_of basic_props n of None \<Rightarrow> None | Some (flag, k) \<Rightarrow> map_option (prop_read k) (dict_get props n))"
  using header_round[OF assms] by (simp add: dict_get_read_props[OF basic_props_distinct])

definition sample_props :: pydict where
  "sample_props = [(S ''reply_to'', VStr (S ''q'')), (S ''priority'', VInt 7), (S ''timestamp'', VDatetime 5),
     (S ''unknown'', VNone)]"

lemma utf8_letter: "utf8_encode (S ''q'') = Inr [113]"
  by (simp add: S_def utf8_ascii)

theorem content_header_roundtrip_witness:
  "\<exists>bs. encode_content_header 60 3 sample_props = Inr bs \<and>
     decode_content_header (bs @ [1, 2]) = Inr (60, 3,
       [(S ''priority'', VInt 7), (S ''reply_to'', VStr (S ''q'')), (S ''timestamp'', VInt 5)])"
proof -
  let ?h = "encode_content_header 60 3 sample_props"
  have "\<exists>bs. ?h = Inr bs"
    by (simp add: encode_content_header_def basic_props_def sample_props_def encode_shortstr_def utf8_letter
        byte_of_int_def to_bytes_def)
  moreover have "props_ok basic_props sample_props"
    by (simp add: props_ok_def basic_props_def sample_props_def)
  moreover have "read_props basic_props sample_props =
      [(S ''priority'', VInt 7), (S ''reply_to'', VStr (S ''q'')), (S ''timestamp'', VInt 5)]"
    by (simp add: basic_props_def sample_props_def)
  ultimately show ?thesis using content_header_roundtrip[of 60 3 sample_props _ "[1, 2]", THEN conjunct1] by metis
qed

section \<open>Methods the library both writes and reads\<close>

inductive two_way :: "amqp_method \<Rightarrow> bool" where
  closing: "(cid, mid) \<in> {(CONNECTION, CONNECTION_CLOSE), (CHANNEL, CHANNEL_CLOSE)} \<Longrightarrow>
    two_way \<lparr>m_class = cid, m_method = mid, m_args =
      [(S ''reply_code'', VInt code), (S ''reply_text'', VStr text),
       (S ''class_id'', VInt c), (S ''method_id'', VInt m)]\<rparr>"
| closed: "(cid, mid) \<in> {(CONNECTION, CONNECTION_CLOSE_OK), (CHANNEL, CHANNEL_CLOSE_OK)} \<Longrightarrow>
    two_way \<lparr>m_class = cid, m_method = mid, m_args = []\<rparr>"
| opened: "int (length x) \<le> DEFAULT_FRAME_MAX \<Longrightarrow>
    two_way \<lparr>m_class = CHANNEL, m_method = CHANNEL_OPEN_OK, m_args = [(S ''channel_id'', VBytes x)]\<rparr>"
| ack: "two_way \<lparr>m_class = BASIC, m_method = BASIC_ACK, m_args =
    [(S ''delivery_tag'', VInt t), (S ''multiple'', VBool b)]\<rparr>"
| nack: "two_way \<lparr>m_class = BASIC, m_method = BASIC_NACK, m_args =
    [(S ''delivery_tag'', VInt t), (S ''multiple'', VBool b), (S ''requeue'', VBool r)]\<rparr>"
| ret: "two_way \<lparr>m_class = BASIC, m_method = BASIC_RETURN, m_args =
    [(S ''reply_code'', VInt code), (S ''reply_text'', VStr text),
     (S ''exchange'', VStr e), (S ''routing_key'', VStr k)]\<rparr>"

text \<open>
  The first four octets are read back as the two numbers, and the rest is read after them.
\<close>

lemma decode_method_ids:
  assumes "to_bytes 2 cid = Inr a" "to_bytes 2 mid = Inr b"
  shows "decode_method ((a @ b) @ rest) =
    bind_r (decode_args cid mid ((a @ b) @ rest) 4) (\<lambda>args. Inr \<lparr>m_class = cid, m_method = mid, m_args = args\<rparr>)"
proof -
  have l: "length a = 2" "length b = 2" using assms by (auto dest: to_bytes_len)
  have c: "int (from_be (pyslice ((a @ b) @ rest) 0 2)) = cid"
    using int_at_mid[OF assms(1), of "(a @ b) @ rest" "[]" "b @ rest" 0] by (simp add: int_at_def numeral_2_eq_2)
  have m: "int (from_be (pyslice ((a @ b) @ rest) 2 4)) = mid"
    using int_at_mid[OF assms(2), of "(a @ b) @ rest" a rest 2] l by (simp add: int_at_def)
  show ?thesis unfolding decode_method_def Let_def c m by (simp add: l)
qed

lemma encode_method_InrE:
  assumes "encode_method m = Inr bs"
  obtains a b c where "to_bytes 2 (m_class m) = Inr a" "to_bytes 2 (m_method m) = Inr b"
    "encode_args (m_class m) (m_method m) (m_args m) = Inr c" "bs = (a @ b) @ c" "length (a @ b) = 4"
proof -
  from assms obtain a b c where e: "to_bytes 2 (m_class m) = Inr a" "to_bytes 2 (m_method m) = Inr b"
    "encode_args (m_class m) (m_method m) (m_args m) = Inr c" and "bs = (a @ b) @ c"
    by (auto simp: encode_method_def bind_r_Inr_iff)
  with to_bytes_len[OF e(1)] to_bytes_len[OF e(2)] that show thesis by simp
qed

lemma bits_of_less: "bits_of args ks < 2 ^ length ks"
  by (induction ks) auto

lemma close_args_round:
  assumes "encode_close_args [(S ''reply_code'', VInt code), (S ''reply_text'', VStr text),
      (S ''class_id'', VInt c), (S ''method_id'', VInt m)] = Inr bs"
  shows "decode_close_args (pre @ bs @ post) (length pre) =
    Inr [(S ''reply_code'', VInt code), (S ''reply_text'', VStr text),
      (S ''class_id'', VInt c), (S ''method_id'', VInt m)]"
proof -
  obtain x t y z where e: "to_bytes 2 code = Inr x" "encode_shortstr text = Inr t" "to_bytes 2 c = Inr y"
    "to_bytes 2 m = Inr z" and bs: "bs = x @ t @ y @ z"
    using assms
    by (auto simp: encode_close_args_def bind_r_Inr_iff int_arg_def short_arg_def dict_get_or_def)
  note l = to_bytes_len[OF e(1)] to_bytes_len[OF e(3)] to_bytes_len[OF e(4)]
  have "int_at (pre @ bs @ post) (length pre) 2 = VInt code"
    by (rule int_at_mid[OF e(1)]) (simp_all add: bs)
  moreover have "short_at (pre @ bs @ post) (length pre + 2) = Inr (VStr text, length pre + 2 + length t)"
    by (rule short_at_mid[OF e(2), of _ "pre @ x" "y @ z @ post"]) (simp_all add: bs l)
  moreover have "int_at (pre @ bs @ post) (length pre + 2 + length t) 2 = VInt c"
    by (rule int_at_mid[OF e(3), of _ "pre @ x @ t" "z @ post"]) (simp_all add: bs l)
  moreover have "int_at (pre @ bs @ post) (length pre + 2 + length t + 2) 2 = VInt m"
    by (rule int_at_mid[OF e(4), of _ "pre @ x @ t @ y" post]) (simp_all add: bs l)
  ultimately show ?thesis by (simp add: decode_close_args_def)
qed

lemma return_args_round:
  assumes "encode_args BASIC BASIC_RETURN [(S ''reply_code'', VInt code), (S ''reply_text'', VStr text),
      (S ''exchange'', VStr e), (S ''routing_key'', VStr k)] = Inr bs"
  shows "decode_return_args (pre @ bs @ post) (length pre) =
    Inr [(S ''reply_code'', VInt code), (S ''reply_text'', VStr text),
      (S ''exchange'', VStr e), (S ''routing_key'', VStr k)]"
proof -
  obtain x t y z where e: "to_bytes 2 code = Inr x" "encode_shortstr text = Inr t" "encode_shortstr e = Inr y"
    "encode_shortstr k = Inr z" and bs: "bs = x @ t @ y @ z"
    using assms
    by (auto simp: encode_args_def bind_r_Inr_iff int_arg_def short_arg_def dict_get_or_def)
  note l = to_bytes_len[OF e(1)]
  have "int_at (pre @ bs @ post) (length pre) 2 = VInt code"
    by (rule int_at_mid[OF e(1)]) (simp_all add: bs)
  moreover have "short_at (pre @ bs @ post) (length pre + 2) = Inr (VStr text, length pre + 2 + length t)"
    by (rule short_at_mid[OF e(2), of _ "pre @ x" "y @ z @ post"]) (simp_all add: bs l)
  moreover have "short_at (pre @ bs @ post) (length pre + 2 + length t) =
      Inr (VStr e, length pre + 2 + length t + length y)"
    by (rule short_at_mid[OF e(3), of _ "pre @ x @ t" "z @ post"]) (simp_all add: bs l)
  moreover have "short_at (pre @ bs @ post) (length pre + 2 + length t + length y) =
      Inr (VStr k, length pre + 2 + length t + length y + length z)"
    by (rule short_at_mid[OF e(4), of _ "pre @ x @ t @ y" post]) (simp_all add: bs l)
  ultimately show ?thesis by (simp add: decode_return_args_def)
qed

lemma tagged_args_round:
  assumes "cat_r [to_bytes 8 t, bits_arg args ks] = Inr bs" "length ks \<le> 2"
  shows "int_at (pre @ bs @ post) (length pre) 8 = VInt t"
    and "length pre + 9 \<le> length (pre @ bs @ post)"
    and "(pre @ bs @ post) ! (length pre + 8) = of_nat (bits_of args ks)"
proof -
  obtain x y where e: "to_bytes 8 t = Inr x" "bits_arg args ks = Inr y" and bs: "bs = x @ y"
    using assms(1) by (auto simp: bind_r_Inr_iff)
  have y: "y = [of_nat (bits_of args ks)]"
    using e(2) by (auto simp: bits_arg_def byte_of_int_Inr_iff)
  note l = to_bytes_len[OF e(1)]
  show "int_at (pre @ bs @ post) (length pre) 8 = VInt t"
    by (rule int_at_mid[OF e(1)]) (simp_all add: bs)
  show "length pre + 9 \<le> length (pre @ bs @ post)" by (simp add: bs y l)
  show "(pre @ bs @ post) ! (length pre + 8) = of_nat (bits_of args ks)"
    using nth_mid[of "pre @ x" "of_nat (bits_of args ks)" post] by (simp add: bs y l)
qed

lemma close_dispatch:
  "encode_args 10 50 = encode_close_args" "encode_args 20 40 = encode_close_args"
  "decode_args 10 50 = decode_close_args" "decode_args 20 40 = decode_close_args"
  "decode_args 10 51 = (\<lambda>_ _. Inr [])" "decode_args 20 41 = (\<lambda>_ _. Inr [])"
  by (simp_all add: fun_eq_iff encode_args_def decode_args_def)

lemma two_way_args:
  assumes "two_way meth" "encode_args (m_class meth) (m_method meth) (m_args meth) = Inr d"
  shows "decode_args (m_class meth) (m_method meth) (pre @ d @ post) (length pre) = Inr (m_args meth)"
  using assms(1)
proof (cases rule: two_way.cases)
  case (closing cid mid code reason c m)
  from closing(2) consider "cid = 10" "mid = 50" | "cid = 20" "mid = 40" by blast
  then have "encode_args cid mid = encode_close_args" "decode_args cid mid = decode_close_args"
    by (cases; simp add: close_dispatch)+
  then show ?thesis
    using close_args_round[of code reason c m d pre post] assms(2) by (simp add: closing(1))
next
  case (closed cid mid)
  from closed(2) consider "cid = 10" "mid = 51" | "cid = 20" "mid = 41" by blast
  then show ?thesis by (cases; simp add: closed(1) close_dispatch)
next
  case (opened x)
  have "longstr_of_bytes x = Inr d"
    using assms(2) by (simp add: opened(1) encode_args_def dict_get_or_def)
  from longstr.round[OF opened(2) this, of pre post] show ?thesis
    by (simp add: decode_args_def opened(1) one_arg_def long_at_def)
next
  case (ack t q)
  have "cat_r [to_bytes 8 t, bits_arg (m_args meth) [''multiple'']] = Inr d"
    using assms(2) by (simp add: ack encode_args_def int_req_def dict_item_def)
  from tagged_args_round[OF this, of pre post] show ?thesis
    by (simp add: decode_args_def ack is_set_def dict_get_or_def)
next
  case (nack t q r)
  have "cat_r [to_bytes 8 t, bits_arg (m_args meth) [''multiple'', ''requeue'']] = Inr d"
    using assms(2) by (simp add: nack encode_args_def int_req_def dict_item_def)
  from tagged_args_round[OF this, of pre post] show ?thesis
    by (cases q; cases r) (simp_all add: decode_args_def nack is_set_def dict_get_or_def)
next
  case (ret code reason x k)
  then show ?thesis
    using return_args_round[of code reason x k d pre post] assms(2)
    by (simp add: decode_args_def)
qed

text \<open>A method both sides know is read back, whatever follows it.\<close>

lemma method_round:
  assumes "two_way meth" "encode_method meth = Inr bs"
  shows "decode_method (bs @ post) = Inr meth"
proof -
  obtain a b d where e: "to_bytes 2 (m_class meth) = Inr a" "to_bytes 2 (m_method meth) = Inr b"
    "encode_args (m_class meth) (m_method meth) (m_args meth) = Inr d"
    and bs: "bs = (a @ b) @ d" and l: "length (a @ b) = 4"
    by (rule encode_method_InrE[OF assms(2)])
  have "decode_args (m_class meth) (m_method meth) ((a @ b) @ d @ post) (length (a @ b)) = Inr (m_args meth)"
    using two_way_args[OF assms(1) e(3)] .
  then show ?thesis
    using decode_method_ids[OF e(1,2), of "d @ post"] unfolding l bs by simp
qed

text \<open>
  C35. The methods the library can both write and read (close, close-ok and open-ok of a connection
  or channel, ack, nack and return) round-trip: what \<open>encode_method\<close> accepts, \<open>decode_method\<close>
  reads back with the same numbers and the same arguments, whatever follows it.\<close>

theorem method_roundtrip:
  assumes "two_way meth" "encode_method meth = Inr bs"
  shows "decode_method (bs @ post) = Inr meth"
  by (rule method_round[OF assms])

theorem method_roundtrip_witness:
  "\<exists>bs. encode_method \<lparr>m_class = 60, m_method = 120, m_args = [(S ''delivery_tag'', VInt 9),
       (S ''multiple'', VBool True), (S ''requeue'', VBool False)]\<rparr> = Inr bs \<and>
     decode_method (bs @ [5]) = Inr \<lparr>m_class = 60, m_method = 120, m_args = [(S ''delivery_tag'', VInt 9),
       (S ''multiple'', VBool True), (S ''requeue'', VBool False)]\<rparr>"
proof -
  have "\<exists>bs. encode_method \<lparr>m_class = 60, m_method = 120, m_args = [(S ''delivery_tag'', VInt 9),
       (S ''multiple'', VBool True), (S ''requeue'', VBool False)]\<rparr> = Inr bs"
    by (simp add: encode_method_def encode_args_def int_req_def dict_item_def bits_arg_def byte_of_int_def
        is_set_def dict_get_or_def to_bytes_def)
  then show ?thesis using method_roundtrip[OF two_way.nack] by blast
qed

text \<open>
  Methods of fixed-size fields have no length check: \<open>decode_method\<close> accepts a
  \<open>connection.tune\<close> cut anywhere after its four octets of numbers, reading each missing octet as
  absent, so that the empty one is read as a negotiation to zero channels, zero octets per frame
  and no heartbeat; an ack cut short is an ack of delivery 0.\<close>

theorem truncated_methods_accepted:
  "(\<exists>args. decode_method ([0, 10, 0, 30] @ rest) = Inr \<lparr>m_class = CONNECTION, m_method = CONNECTION_TUNE, m_args = args\<rparr>) \<and>
   decode_method [0, 10, 0, 30] = Inr \<lparr>m_class = CONNECTION, m_method = CONNECTION_TUNE, m_args =
     [(S ''channel_max'', VInt 0), (S ''frame_max'', VInt 0), (S ''heartbeat'', VInt 0)]\<rparr> \<and>
   decode_method [0, 60, 0, 80] = Inr \<lparr>m_class = BASIC, m_method = BASIC_ACK, m_args =
     [(S ''delivery_tag'', VInt 0), (S ''multiple'', VBool False)]\<rparr>"
proof -
  have "to_bytes 2 10 = Inr [0, 10]" "to_bytes 2 30 = Inr [0, 30]" "to_bytes 2 60 = Inr [0, 60]"
    "to_bytes 2 80 = Inr [0, 80]"
    by (simp_all add: to_bytes_def be_numerals)
  note d = decode_method_ids[OF this(1,2)] decode_method_ids[OF this(3,4)]
  show ?thesis
    using d(1)[of rest] d(1)[of "[]"] d(2)[of "[]"]
    by (simp add: decode_args_def int_at_def pyslice_def)
qed

end
