(* ===== verification/Futures.thy ===== *)
theory Futures
  imports PyValues
begin

text \<open>
  asyncio futures, as the library uses them. A heap of futures is a list; the identity of a future
  is its position, \<open>create_future\<close> appends a pending one. Every settlement in the library is
  guarded by \<open>if not fut.done()\<close>, so that \<open>settle\<close> leaves a finished future alone.

  The locale \<open>pending_table\<close> is the contract that the publisher-confirm tracker and the
  correlation table share: a table from keys to futures whose entries are popped and settled.
\<close>

datatype 'v fut = Pending | Result 'v | Failed py_exc | Cancelled

type_synonym 'v fheap = "'v fut list"

definition fut_done :: "'v fheap \<Rightarrow> nat \<Rightarrow> bool" where
  "fut_done h i \<longleftrightarrow> i < length h \<and> h ! i \<noteq> Pending"

definition create_future :: "'v fheap \<Rightarrow> nat \<times> 'v fheap" where
  "create_future h = (length h, h @ [Pending])"

definition settle :: "nat \<Rightarrow> 'v fut \<Rightarrow> 'v fheap \<Rightarrow> 'v fheap" where
  "settle i r h = (if i < length h \<and> h ! i = Pending then h[i := r] else h)"

lemma length_settle [simp]: "length (settle i r h) = length h"
  by (simp add: settle_def)

lemma nth_settle: "j < length h \<Longrightarrow> settle i r h ! j = (if j = i \<and> h ! i = Pending then r else h ! j)"
  by (auto simp: settle_def nth_list_update)

lemma settle_other [simp]: "j \<noteq> i \<Longrightarrow> settle i r h ! j = h ! j"
  by (simp add: settle_def)

lemma settle_twice: "r \<noteq> Pending \<Longrightarrow> settle i r' (settle i r h) = settle i r h"
  by (auto simp: settle_def)

lemma settle_commute: "i \<noteq> j \<Longrightarrow> settle i r (settle j r' h) = settle j r' (settle i r h)"
  by (auto simp: settle_def list_update_swap)

text \<open>Settling every future of a list, as when a table is failed as a whole.\<close>

fun settle_list :: "nat list \<Rightarrow> 'v fut \<Rightarrow> 'v fheap \<Rightarrow> 'v fheap" where
  "settle_list [] r h = h"
| "settle_list (i # fs) r h = settle_list fs r (settle i r h)"

lemma settle_list_nth:
  "j < length h \<Longrightarrow> settle_list fs r h ! j = (if j \<in> set fs \<and> h ! j = Pending then r else h ! j)"
  by (induction fs r h rule: settle_list.induct) (auto simp: nth_settle)

lemma length_settle_list [simp]: "length (settle_list fs r h) = length h"
  by (induction fs r h rule: settle_list.induct) auto

text \<open>A later heap: no future is lost and a finished one keeps its result.\<close>

definition heap_le :: "'v fheap \<Rightarrow> 'v fheap \<Rightarrow> bool" where
  "heap_le h h' \<longleftrightarrow> length h \<le> length h' \<and> (\<forall>i < length h. h ! i \<noteq> Pending \<longrightarrow> h' ! i = h ! i)"

lemma heap_le_refl [simp]: "heap_le h h"
  by (simp add: heap_le_def)

lemma heap_le_trans: "heap_le a b \<Longrightarrow> heap_le b c \<Longrightarrow> heap_le a c"
  by (simp add: heap_le_def)

lemma heap_le_settle [simp, intro]: "heap_le h (settle i r h)"
  by (auto simp: heap_le_def nth_settle)

lemma heap_le_append [simp, intro]: "heap_le h (h @ xs)"
  by (simp add: heap_le_def nth_append)

text \<open>
  A table of pending futures. \<open>resolve k r\<close> pops the entry of \<open>k\<close>, if any, and settles its future
  with \<open>r\<close>; two keys never share a future.
\<close>

locale pending_table =
  fixes entry :: "'s \<Rightarrow> 'k \<Rightarrow> nat option"
    and futures :: "'s \<Rightarrow> 'v fheap"
    and resolve :: "'k \<Rightarrow> 'v fut \<Rightarrow> 's \<Rightarrow> 's"
    and valid :: "'s \<Rightarrow> bool"
  assumes entry_resolve: "valid s \<Longrightarrow> entry (resolve k r s) = (entry s)(k := None)"
    and futures_resolve: "valid s \<Longrightarrow> futures (resolve k r s) =
      (case entry s k of None \<Rightarrow> futures s | Some i \<Rightarrow> settle i r (futures s))"
    and valid_resolve: "valid s \<Longrightarrow> valid (resolve k r s)"
    and entry_bound: "valid s \<Longrightarrow> entry s k = Some i \<Longrightarrow> i < length (futures s)"
    and entry_inj: "valid s \<Longrightarrow> entry s k = Some i \<Longrightarrow> entry s k' = Some i \<Longrightarrow> k = k'"
begin

fun resolve_all :: "('k \<times> 'v fut) list \<Rightarrow> 's \<Rightarrow> 's" where
  "resolve_all [] s = s"
| "resolve_all ((k, r) # krs) s = resolve_all krs (resolve k r s)"

lemma resolve_all_append: "resolve_all (xs @ ys) s = resolve_all ys (resolve_all xs s)"
  by (induction xs arbitrary: s) auto

lemma valid_resolve_all: "valid s \<Longrightarrow> valid (resolve_all krs s)"
  by (induction krs s rule: resolve_all.induct) (simp_all add: valid_resolve)

lemma entry_resolve_all:
  "valid s \<Longrightarrow> entry (resolve_all krs s) = (\<lambda>k. if k \<in> fst ` set krs then None else entry s k)"
proof (induction krs s rule: resolve_all.induct)
  case (2 k r krs s)
  then have "entry (resolve_all krs (resolve k r s)) =
      (\<lambda>k'. if k' \<in> fst ` set krs then None else entry (resolve k r s) k')"
    by (simp add: valid_resolve)
  then show ?case using "2.prems" by (auto simp: entry_resolve fun_eq_iff)
qed simp

lemma heap_le_resolve: "valid s \<Longrightarrow> heap_le (futures s) (futures (resolve k r s))"
  by (auto simp: futures_resolve split: option.split)

lemma heap_le_resolve_all: "valid s \<Longrightarrow> heap_le (futures s) (futures (resolve_all krs s))"
proof (induction krs s rule: resolve_all.induct)
  case (2 k r krs s)
  then have "heap_le (futures (resolve k r s)) (futures (resolve_all krs (resolve k r s)))"
    by (simp add: valid_resolve)
  with heap_le_resolve[OF "2.prems"] show ?case by (auto intro: heap_le_trans)
qed simp

lemma length_resolve_all: "valid s \<Longrightarrow> length (futures (resolve_all krs s)) = length (futures s)"
  by (induction krs s rule: resolve_all.induct)
    (simp_all add: futures_resolve valid_resolve split: option.split)

text \<open>A future that no listed entry leads to is not touched.\<close>

lemma resolve_all_missed:
  assumes "valid s" "\<forall>k \<in> fst ` set krs. entry s k \<noteq> Some i"
  shows "futures (resolve_all krs s) ! i = futures s ! i"
  using assms
proof (induction krs s rule: resolve_all.induct)
  case (2 k r krs s)
  have "\<forall>k' \<in> fst ` set krs. entry (resolve k r s) k' \<noteq> Some i"
    using "2.prems" by (simp add: entry_resolve[OF "2.prems"(1)])
  note IH = "2.IH"[OF valid_resolve[OF "2.prems"(1)] this]
  show ?case
  proof (cases "entry s k")
    case (Some j)
    then have "j \<noteq> i" using "2.prems"(2) by auto
    with IH Some show ?thesis by (simp add: futures_resolve[OF "2.prems"(1)])
  next
    case None
    then show ?thesis using IH by (simp add: futures_resolve[OF "2.prems"(1)])
  qed
qed simp

text \<open>The first resolution wins: the future of a key gets the first result addressed to the key.\<close>

lemma first_wins:
  assumes "valid s" "entry s k = Some i" "futures s ! i = Pending"
  shows "futures (resolve_all krs s) ! i =
    (case find (\<lambda>(k', _). k' = k) krs of None \<Rightarrow> Pending | Some (_, r) \<Rightarrow> r)"
  using assms
proof (induction krs arbitrary: s)
  case (Cons kr krs)
  obtain k' r where kr: "kr = (k', r)" by (cases kr)
  note v = valid_resolve[OF Cons.prems(1), of k' r]
  note b = entry_bound[OF Cons.prems(1,2)]
  show ?case
  proof (cases "k' = k")
    case True
    have "futures (resolve k r s) ! i = r"
      using Cons.prems(2,3) b by (simp add: futures_resolve[OF Cons.prems(1)] nth_settle)
    moreover have "entry (resolve k r s) k'' \<noteq> Some i" for k''
      using entry_inj[OF Cons.prems(1,2), of k''] by (auto simp: entry_resolve[OF Cons.prems(1)])
    ultimately show ?thesis
      using resolve_all_missed[of "resolve k r s" krs i] v by (simp add: kr True)
  next
    case False
    have "entry (resolve k' r s) k = Some i"
      using Cons.prems(2) False by (simp add: entry_resolve[OF Cons.prems(1)])
    moreover have "entry s k' \<noteq> Some i" using entry_inj[OF Cons.prems(1,2), of k'] False by auto
    then have "futures (resolve k' r s) ! i = Pending"
      using Cons.prems(3) b
      by (cases "entry s k'") (simp_all add: futures_resolve[OF Cons.prems(1)] nth_settle)
    ultimately show ?thesis using Cons.IH[OF v] False by (simp add: kr)
  qed
qed simp

end

text \<open>
  Both tables are dicts from keys to futures: entries with distinct keys, distinct futures, all of
  them allocated.
\<close>

definition table_valid :: "('k \<times> nat) list \<Rightarrow> 'v fheap \<Rightarrow> bool" where
  "table_valid d h \<longleftrightarrow> dict_ok d \<and> distinct (map snd d) \<and> (\<forall>i \<in> snd ` set d. i < length h)"

text \<open>\<open>fut = d.pop(k, None)\<close>, then settled unless it is done.\<close>

definition pop_settle ::
  "'k \<Rightarrow> 'v fut \<Rightarrow> ('k \<times> nat) list \<times> 'v fheap \<Rightarrow> ('k \<times> nat) list \<times> 'v fheap" where
  "pop_settle k r s = (case s of (d, h) \<Rightarrow>
     (case dict_get d k of None \<Rightarrow> (d, h) | Some i \<Rightarrow> (dict_del d k, settle i r h)))"

lemma dict_del_absent: "dict_get d k = None \<Longrightarrow> dict_del d k = d"
  by (auto simp: dict_del_def dict_get_None_iff filter_id_conv image_iff)

lemma table_valid_settle [simp]: "table_valid d (settle i r h) = table_valid d h"
  by (simp add: table_valid_def)

lemma table_valid_del: "table_valid d h \<Longrightarrow> table_valid (dict_del d k) h"
  by (auto simp: table_valid_def dict_del_def dict_ok_def distinct_map_filter)

lemma table_valid_Nil [simp]: "table_valid [] h"
  by (simp add: table_valid_def)

lemma table_valid_new:
  assumes "table_valid d h" "dict_get d k = None"
  shows "table_valid (dict_set d k (length h)) (h @ [Pending])"
proof -
  have "k \<notin> fst ` set d" using assms(2) by (simp add: dict_get_None_iff)
  with assms(1) show ?thesis
    by (fastforce simp: table_valid_def dict_set_new dict_ok_def less_Suc_eq)
qed

lemma table_valid_inj:
  assumes "table_valid d h" "dict_get d k = Some i" "dict_get d k' = Some i"
  shows "k = k'"
proof -
  have "(k, i) \<in> set d" "(k', i) \<in> set d" using assms(2,3) by (auto dest: dict_get_in)
  moreover have "inj_on snd (set d)" using assms(1) by (simp add: table_valid_def distinct_map)
  ultimately have "(k, i) = (k', i)" by (intro inj_onD[of snd "set d"]) simp_all
  then show ?thesis by simp
qed

interpretation pops: pending_table "\<lambda>s. dict_get (fst s)" snd pop_settle "\<lambda>s. table_valid (fst s) (snd s)"
proof
  fix s :: "('k \<times> nat) list \<times> 'v fheap" and k and r :: "'v fut" and i k'
  obtain d h where s: "s = (d, h)" by (cases s)
  assume v: "table_valid (fst s) (snd s)"
  show "dict_get (fst (pop_settle k r s)) = (dict_get (fst s))(k := None)"
    by (auto simp: s pop_settle_def fun_eq_iff split: option.split)
  show "snd (pop_settle k r s) = (case dict_get (fst s) k of None \<Rightarrow> snd s | Some i \<Rightarrow> settle i r (snd s))"
    by (simp add: s pop_settle_def split: option.split)
  show "table_valid (fst (pop_settle k r s)) (snd (pop_settle k r s))"
    using v by (auto simp: s pop_settle_def table_valid_del split: option.split)
  show "dict_get (fst s) k = Some i \<Longrightarrow> i < length (snd s)"
    using v by (force simp: s table_valid_def dest: dict_get_in)
  show "dict_get (fst s) k = Some i \<Longrightarrow> dict_get (fst s) k' = Some i \<Longrightarrow> k = k'"
    using v by (auto simp: s dest: table_valid_inj)
qed

text \<open>
  The contract of a component whose operations decide futures: each event decides some keys, and a
  pending future whose key it decides gets the event's verdict and leaves the table; everything
  else is left alone. The first verdict is then the only one.
\<close>

locale verdicts =
  fixes step :: "'e \<Rightarrow> 's \<Rightarrow> 's"
    and entry :: "'s \<Rightarrow> 'k \<Rightarrow> nat option"
    and futures :: "'s \<Rightarrow> 'v fheap"
    and ok :: "'s \<Rightarrow> bool"
    and decides :: "'e \<Rightarrow> 'k \<Rightarrow> bool"
    and verdict :: "'e \<Rightarrow> 'v fut"
  assumes ok_step: "ok s \<Longrightarrow> ok (step e s)"
    and decided: "ok s \<Longrightarrow> entry s k = Some i \<Longrightarrow> futures s ! i = Pending \<Longrightarrow> decides e k \<Longrightarrow>
      futures (step e s) ! i = verdict e"
    and leaves: "ok s \<Longrightarrow> entry s k = Some i \<Longrightarrow> decides e k \<Longrightarrow>
      i < length (futures (step e s)) \<and> (\<forall>k'. entry (step e s) k' \<noteq> Some i)"
    and kept: "ok s \<Longrightarrow> entry s k = Some i \<Longrightarrow> \<not> decides e k \<Longrightarrow>
      futures (step e s) ! i = futures s ! i \<and> entry (step e s) k = Some i"
    and gone: "ok s \<Longrightarrow> i < length (futures s) \<Longrightarrow> \<forall>k. entry s k \<noteq> Some i \<Longrightarrow>
      futures (step e s) ! i = futures s ! i \<and> i < length (futures (step e s)) \<and>
      (\<forall>k. entry (step e s) k \<noteq> Some i)"
begin

lemma ok_run: "ok s \<Longrightarrow> ok (fold step es s)"
  by (induction es arbitrary: s) (simp_all add: ok_step)

lemma gone_run:
  "ok s \<Longrightarrow> i < length (futures s) \<Longrightarrow> \<forall>k. entry s k \<noteq> Some i \<Longrightarrow> futures (fold step es s) ! i = futures s ! i"
proof (induction es arbitrary: s)
  case (Cons e es)
  then show ?case using Cons.IH[OF ok_step[OF Cons.prems(1)]] gone[OF Cons.prems] by simp
qed simp

lemma first_verdict_wins:
  assumes "ok s" "entry s k = Some i" "futures s ! i = Pending"
  shows "futures (fold step es s) ! i =
    (case find (\<lambda>e. decides e k) es of None \<Rightarrow> Pending | Some e \<Rightarrow> verdict e)"
  using assms
proof (induction es arbitrary: s)
  case (Cons e es)
  show ?case
  proof (cases "decides e k")
    case True
    then show ?thesis
      using gone_run[OF ok_step[OF Cons.prems(1)]] leaves[OF Cons.prems(1,2)] decided[OF Cons.prems] by simp
  next
    case False
    then show ?thesis
      using Cons.IH[OF ok_step[OF Cons.prems(1)]] kept[OF Cons.prems(1,2) False] Cons.prems(3) by simp
  qed
qed simp

end

end
