(* ===== verification/Confirm.thy ===== *)
theory Confirm
  imports Futures
begin

text \<open>
  \<^verbatim>\<open>src/src/nuropb_rmq/transport/confirm.py\<close>: the tracker of publisher confirms of a channel. Its
  futures live in the heap of the connection; a confirm future has no value.
\<close>

record tracker =
  next_tag :: int
  outstanding :: "(int \<times> nat) list"
  enabled :: bool

definition tracker_init :: tracker where
  "tracker_init = \<lparr>next_tag = 1, outstanding = [], enabled = False\<rparr>"

definition tracker_enable :: "tracker \<Rightarrow> tracker" where
  "tracker_enable t = t\<lparr>enabled := True, next_tag := 1\<rparr>"

definition tracker_register :: "tracker \<times> unit fheap \<Rightarrow> (int \<times> nat) res \<times> tracker \<times> unit fheap" where
  "tracker_register s = (case s of (t, h) \<Rightarrow>
     if \<not> enabled t then (Inl (RuntimeError ''confirm mode not enabled''), t, h)
     else
       let tg = next_tag t; (fut, h') = create_future h in
       (Inr (tg, fut), t\<lparr>next_tag := tg + 1, outstanding := dict_set (outstanding t) tg fut\<rparr>, h'))"

text \<open>The loop of \<open>_resolve\<close>: pop each tag and settle its future unless it is done.\<close>

fun resolve_tags :: "int list \<Rightarrow> unit fut \<Rightarrow> tracker \<times> unit fheap \<Rightarrow> tracker \<times> unit fheap" where
  "resolve_tags [] r s = s"
| "resolve_tags (tg # tgs) r (t, h) =
     (case dict_get (outstanding t) tg of
        None \<Rightarrow> resolve_tags tgs r (t, h)
      | Some fut \<Rightarrow>
          resolve_tags tgs r (t\<lparr>outstanding := dict_del (outstanding t) tg\<rparr>, settle fut r h))"

definition tracker_resolve :: "int \<Rightarrow> bool \<Rightarrow> unit fut \<Rightarrow> tracker \<times> unit fheap \<Rightarrow> tracker \<times> unit fheap" where
  "tracker_resolve delivery_tag multiple r s =
     (let tgs = (if multiple then sort (filter (\<lambda>t. t \<le> delivery_tag) (map fst (outstanding (fst s))))
                 else if dict_has (outstanding (fst s)) delivery_tag then [delivery_tag] else [])
      in resolve_tags tgs r s)"

definition tracker_on_ack :: "int \<Rightarrow> bool \<Rightarrow> tracker \<times> unit fheap \<Rightarrow> tracker \<times> unit fheap" where
  "tracker_on_ack delivery_tag multiple = tracker_resolve delivery_tag multiple (Result ())"

definition tracker_on_nack :: "int \<Rightarrow> bool \<Rightarrow> tracker \<times> unit fheap \<Rightarrow> tracker \<times> unit fheap" where
  "tracker_on_nack delivery_tag multiple =
     tracker_resolve delivery_tag multiple (Failed (PublishNack delivery_tag multiple))"

definition tracker_fail_all :: "py_exc \<Rightarrow> tracker \<times> unit fheap \<Rightarrow> tracker \<times> unit fheap" where
  "tracker_fail_all e s = (case s of (t, h) \<Rightarrow>
     (t\<lparr>outstanding := []\<rparr>, settle_list (map snd (outstanding t)) (Failed e) h))"

section \<open>Well-formed trackers\<close>

text \<open>Outstanding tags were handed out, each has its own allocated future.\<close>

definition tracker_ok :: "tracker \<times> unit fheap \<Rightarrow> bool" where
  "tracker_ok s \<longleftrightarrow> table_valid (outstanding (fst s)) (snd s) \<and> 1 \<le> next_tag (fst s) \<and>
     (\<forall>tg \<in> fst ` set (outstanding (fst s)). 1 \<le> tg \<and> tg < next_tag (fst s)) \<and>
     (enabled (fst s) \<or> outstanding (fst s) = [])"

text \<open>The loop is the shared table's resolution of each of the tags.\<close>

lemma resolve_tags_pops:
  "resolve_tags tgs r (t, h) =
     (let s = pops.resolve_all (map (\<lambda>tg. (tg, r)) tgs) (outstanding t, h)
      in (t\<lparr>outstanding := fst s\<rparr>, snd s))"
proof (induction tgs r "(t, h)" arbitrary: t h rule: resolve_tags.induct)
  case (2 tg tgs r t h)
  show ?case
  proof (cases "dict_get (outstanding t) tg")
    case None
    then show ?thesis using "2.hyps"(1)[OF None] by (simp add: pop_settle_def Let_def)
  next
    case (Some fut)
    then show ?thesis using "2.hyps"(2)[OF Some] by (simp add: pop_settle_def Let_def)
  qed
qed simp

text \<open>The tags an acknowledgement is about.\<close>

definition covers :: "int \<Rightarrow> bool \<Rightarrow> int \<Rightarrow> bool" where
  "covers delivery_tag multiple tg \<longleftrightarrow> (if multiple then tg \<le> delivery_tag else tg = delivery_tag)"

definition resolve_list :: "int \<Rightarrow> bool \<Rightarrow> unit fut \<Rightarrow> tracker \<Rightarrow> (int \<times> unit fut) list" where
  "resolve_list d mult r t = map (\<lambda>tg. (tg, r))
     (if mult then sort (filter (\<lambda>tg. tg \<le> d) (map fst (outstanding t)))
      else if dict_has (outstanding t) d then [d] else [])"

lemma tracker_resolve_pops:
  "tracker_resolve d mult r (t, h) =
     (let s = pops.resolve_all (resolve_list d mult r t) (outstanding t, h)
      in (t\<lparr>outstanding := fst s\<rparr>, snd s))"
  by (simp add: tracker_resolve_def resolve_tags_pops resolve_list_def Let_def)

lemma resolve_list_keys:
  "fst ` set (resolve_list d mult r t) = {tg \<in> fst ` set (outstanding t). covers d mult tg}"
  by (auto simp: resolve_list_def covers_def dict_has_iff image_image)

lemma tracker_resolve_entry:
  assumes "table_valid (outstanding t) h"
  shows "dict_get (outstanding (fst (tracker_resolve d mult r (t, h)))) tg =
    (if covers d mult tg then None else dict_get (outstanding t) tg)"
  using pops.entry_resolve_all[of "(outstanding t, h)" "resolve_list d mult r t"] assms
  by (auto simp: tracker_resolve_pops Let_def resolve_list_keys dict_get_None_iff fun_eq_iff)

lemma tracker_resolve_hit:
  assumes "table_valid (outstanding t) h" "dict_get (outstanding t) tg = Some i" "h ! i = Pending"
    and "covers d mult tg"
  shows "snd (tracker_resolve d mult r (t, h)) ! i = r"
proof -
  have "tg \<in> fst ` set (resolve_list d mult r t)"
    using assms(2,4) by (auto simp: resolve_list_keys dest: dict_get_in intro: rev_image_eqI)
  then have "find (\<lambda>(k, _). k = tg) (resolve_list d mult r t) \<noteq> None"
    by (auto simp: find_None_iff)
  moreover have "find (\<lambda>(k, _). k = tg) (resolve_list d mult r t) = Some (k, r') \<Longrightarrow> r' = r" for k r'
    by (auto simp: find_Some_iff resolve_list_def split: if_splits)
  ultimately show ?thesis
    using pops.first_wins[of "(outstanding t, h)" tg i "resolve_list d mult r t"] assms
    by (auto simp: tracker_resolve_pops Let_def split: option.splits)
qed

lemma tracker_resolve_miss:
  assumes "table_valid (outstanding t) h" "\<And>tg. dict_get (outstanding t) tg = Some i \<Longrightarrow> \<not> covers d mult tg"
  shows "snd (tracker_resolve d mult r (t, h)) ! i = h ! i"
  using pops.resolve_all_missed[of "(outstanding t, h)" "resolve_list d mult r t" i] assms
  by (auto simp: tracker_resolve_pops Let_def resolve_list_keys)

section \<open>Histories of a tracker\<close>

datatype confirm_event = CRegister | CAck int bool | CNack int bool | CFailAll py_exc

fun confirm_step :: "confirm_event \<Rightarrow> tracker \<times> unit fheap \<Rightarrow> tracker \<times> unit fheap" where
  "confirm_step CRegister s = snd (tracker_register s)"
| "confirm_step (CAck d mult) s = tracker_on_ack d mult s"
| "confirm_step (CNack d mult) s = tracker_on_nack d mult s"
| "confirm_step (CFailAll e) s = tracker_fail_all e s"

definition confirm_run :: "confirm_event list \<Rightarrow> tracker \<times> unit fheap \<Rightarrow> tracker \<times> unit fheap" where
  "confirm_run es s = fold confirm_step es s"

text \<open>The abstract reading of an event: which tags it decides, and how.\<close>

fun decides :: "confirm_event \<Rightarrow> int \<Rightarrow> bool" where
  "decides CRegister tg = False"
| "decides (CAck d mult) tg = covers d mult tg"
| "decides (CNack d mult) tg = covers d mult tg"
| "decides (CFailAll e) tg = True"

fun verdict :: "confirm_event \<Rightarrow> unit fut" where
  "verdict CRegister = Pending"
| "verdict (CAck d mult) = Result ()"
| "verdict (CNack d mult) = Failed (PublishNack d mult)"
| "verdict (CFailAll e) = Failed e"

lemma tracker_register_eq:
  assumes "enabled t"
  shows "tracker_register (t, h) = (Inr (next_tag t, length h),
    t\<lparr>next_tag := next_tag t + 1, outstanding := dict_set (outstanding t) (next_tag t) (length h)\<rparr>, h @ [Pending])"
  using assms by (simp add: tracker_register_def create_future_def Let_def)

lemma tracker_register_off:
  "\<not> enabled t \<Longrightarrow> tracker_register (t, h) = (Inl (RuntimeError ''confirm mode not enabled''), t, h)"
  by (simp add: tracker_register_def)

lemma tracker_ok_no_next: "tracker_ok (t, h) \<Longrightarrow> dict_get (outstanding t) (next_tag t) = None"
  by (auto simp: tracker_ok_def dict_get_None_iff)

lemma tracker_ok_resolve:
  assumes "tracker_ok (t, h)"
  shows "tracker_ok (tracker_resolve d mult r (t, h))"
proof -
  let ?s = "pops.resolve_all (resolve_list d mult r t) (outstanding t, h)"
  have v: "table_valid (fst ?s) (snd ?s)"
    using pops.valid_resolve_all[of "(outstanding t, h)" "resolve_list d mult r t"] assms
    by (simp add: tracker_ok_def)
  have "dict_get (outstanding t) tg = None \<Longrightarrow> dict_get (fst ?s) tg = None" for tg
    using pops.entry_resolve_all[of "(outstanding t, h)" "resolve_list d mult r t"] assms
    by (simp add: tracker_ok_def)
  then have sub: "fst ` set (fst ?s) \<subseteq> fst ` set (outstanding t)"
    by (auto simp: dict_get_None_iff)
  then have "\<forall>tg \<in> fst ` set (fst ?s). 1 \<le> tg \<and> tg < next_tag t"
    using assms unfolding tracker_ok_def fst_conv by (meson subsetD)
  moreover have "enabled t \<or> fst ?s = []" using sub assms by (auto simp: tracker_ok_def)
  ultimately show ?thesis
    using v assms unfolding tracker_resolve_pops tracker_ok_def Let_def by simp
qed

lemma tracker_ok_step: "tracker_ok s \<Longrightarrow> tracker_ok (confirm_step e s)"
proof (cases e)
  case CRegister
  obtain t h where s: "s = (t, h)" by (cases s)
  assume ok: "tracker_ok s"
  show ?thesis
  proof (cases "enabled t")
    case True
    then show ?thesis
      using ok tracker_ok_no_next[of t h] table_valid_new[of "outstanding t" h "next_tag t"]
      by (auto simp: CRegister s tracker_register_eq tracker_ok_def keys_dict_set)
  qed (use ok in \<open>simp add: CRegister s tracker_register_off\<close>)
next
  case (CFailAll e)
  assume "tracker_ok s"
  then show ?thesis by (cases s) (simp add: CFailAll tracker_ok_def tracker_fail_all_def)
qed (cases s; simp add: tracker_on_ack_def tracker_on_nack_def tracker_ok_resolve)+

text \<open>An event that decides an outstanding tag settles it; any other event leaves it as it was.\<close>

lemma confirm_step_decides:
  assumes "tracker_ok s" "dict_get (outstanding (fst s)) tg = Some i" "snd s ! i = Pending" "decides e tg"
  shows "snd (confirm_step e s) ! i = verdict e" "dict_get (outstanding (fst (confirm_step e s))) tg = None"
proof -
  obtain t h where s: "s = (t, h)" by (cases s)
  have v: "table_valid (outstanding t) h" using assms(1) by (simp add: s tracker_ok_def)
  have i: "i < length h" "i \<in> snd ` set (outstanding t)"
    using v assms(2) by (force simp: s table_valid_def dest!: dict_get_in)+
  show "snd (confirm_step e s) ! i = verdict e"
    using assms i tracker_resolve_hit[OF v, of tg i]
    by (cases e) (auto simp: s tracker_on_ack_def tracker_on_nack_def tracker_fail_all_def settle_list_nth)
  show "dict_get (outstanding (fst (confirm_step e s))) tg = None"
    using assms(4) tracker_resolve_entry[OF v]
    by (cases e) (auto simp: s tracker_on_ack_def tracker_on_nack_def tracker_fail_all_def)
qed

lemma confirm_step_keeps:
  assumes "tracker_ok s" "dict_get (outstanding (fst s)) tg = Some i" "\<not> decides e tg"
  shows "snd (confirm_step e s) ! i = snd s ! i" "dict_get (outstanding (fst (confirm_step e s))) tg = Some i"
proof -
  obtain t h where s: "s = (t, h)" by (cases s)
  have v: "table_valid (outstanding t) h" using assms(1) by (simp add: s tracker_ok_def)
  have i: "i < length h"
    using v assms(2) by (force simp: s table_valid_def dest!: dict_get_in)
  have tg: "tg \<noteq> next_tag t"
    using tracker_ok_no_next[of t h] assms(1,2) by (auto simp: s)
  have one: "tg' = tg" if "dict_get (outstanding t) tg' = Some i" for tg'
    using table_valid_inj[OF v that] assms(2) by (simp add: s)
  have "snd (tracker_resolve d mult r (t, h)) ! i = h ! i" if "\<not> covers d mult tg" for d mult r
    using that by (intro tracker_resolve_miss[OF v]) (auto dest: one)
  then show "snd (confirm_step e s) ! i = snd s ! i"
    using assms(3) i
    by (cases e; cases "enabled t")
      (auto simp: s tracker_on_ack_def tracker_on_nack_def tracker_register_eq nth_append tracker_register_off)
  show "dict_get (outstanding (fst (confirm_step e s))) tg = Some i"
    using assms(2,3) tg tracker_resolve_entry[OF v]
    by (cases e; cases "enabled t")
      (auto simp: s tracker_on_ack_def tracker_on_nack_def tracker_register_eq tracker_register_off)
qed

lemma confirm_step_only:
  assumes "tracker_ok s" "dict_get (outstanding (fst s)) tg = Some i" "decides e tg"
  shows "\<forall>tg'. dict_get (outstanding (fst (confirm_step e s))) tg' \<noteq> Some i"
proof -
  obtain t h where s: "s = (t, h)" by (cases s)
  have v: "table_valid (outstanding t) h" using assms(1) by (simp add: s tracker_ok_def)
  have one: "tg' = tg" if "dict_get (outstanding t) tg' = Some i" for tg'
    using table_valid_inj[OF v that] assms(2) by (simp add: s)
  have "covers d mult tg \<Longrightarrow>
      dict_get (outstanding (fst (tracker_resolve d mult r (t, h)))) tg' \<noteq> Some i" for d mult r tg'
    using one[of tg'] by (auto simp: tracker_resolve_entry[OF v])
  then show ?thesis
    using assms(3)
    by (cases e) (simp_all add: s tracker_on_ack_def tracker_on_nack_def tracker_fail_all_def)
qed

lemma confirm_step_length: "tracker_ok s \<Longrightarrow> length (snd s) \<le> length (snd (confirm_step e s))"
  using pops.length_resolve_all[of "(outstanding (fst s), snd s)"]
  by (cases s; cases e; cases "enabled (fst s)")
    (simp_all add: tracker_ok_def tracker_resolve_pops Let_def tracker_on_ack_def tracker_on_nack_def
      tracker_register_eq tracker_register_off tracker_fail_all_def)

lemma confirm_step_bound:
  assumes "tracker_ok s" "dict_get (outstanding (fst s)) tg = Some i"
  shows "i < length (snd (confirm_step e s))"
proof -
  have "i < length (snd s)"
    using assms by (force simp: tracker_ok_def table_valid_def dest!: dict_get_in)
  with confirm_step_length[OF assms(1), of e] show ?thesis by simp
qed

text \<open>A settled future that is no longer outstanding stays as it is.\<close>

lemma confirm_step_settled:
  assumes "tracker_ok s" "i < length (snd s)" "\<forall>tg. dict_get (outstanding (fst s)) tg \<noteq> Some i"
  shows "snd (confirm_step e s) ! i = snd s ! i \<and> i < length (snd (confirm_step e s)) \<and>
    (\<forall>tg. dict_get (outstanding (fst (confirm_step e s))) tg \<noteq> Some i)"
proof -
  obtain t h where s: "s = (t, h)" by (cases s)
  have v: "table_valid (outstanding t) h" using assms(1) by (simp add: s tracker_ok_def)
  have r: "snd (tracker_resolve d mult r (t, h)) ! i = h ! i \<and>
      (\<forall>tg. dict_get (outstanding (fst (tracker_resolve d mult r (t, h)))) tg \<noteq> Some i)" for d mult r
    using tracker_resolve_miss[OF v, of i d mult r] tracker_resolve_entry[OF v] assms(3) by (simp add: s)
  have l: "length (snd (tracker_resolve d mult r (t, h))) = length h" for d mult r
    using pops.length_resolve_all[of "(outstanding t, h)"] v by (simp add: tracker_resolve_pops Let_def)
  have n: "i \<notin> snd ` set (outstanding t)"
    using assms(3) v by (fastforce simp: s table_valid_def dest: dict_ok_in_get)
  show ?thesis
    using assms(2,3) r l n
    by (cases e; cases "enabled t")
      (simp_all add: s tracker_on_ack_def tracker_on_nack_def tracker_register_eq tracker_register_off
        tracker_fail_all_def settle_list_nth nth_append)
qed

interpretation confirms: verdicts confirm_step "\<lambda>s. dict_get (outstanding (fst s))" snd tracker_ok decides verdict
  using confirm_step_decides(1) confirm_step_only confirm_step_bound confirm_step_keeps confirm_step_settled
  by unfold_locales (auto intro: tracker_ok_step)

text \<open>
  C28. The first verdict wins: the future of an outstanding publish gets exactly the verdict of the
  first event that is about its tag (an ack or nack of the tag, one with \<open>multiple\<close> of a tag not
  below it, or the failure of the channel), whatever is registered, acknowledged or failed before
  and after; without such an event it stays pending.\<close>

theorem confirm_first_verdict_wins:
  assumes "tracker_ok s" "dict_get (outstanding (fst s)) tg = Some i" "snd s ! i = Pending"
  shows "snd (confirm_run es s) ! i =
    (case find (\<lambda>e. decides e tg) es of None \<Rightarrow> Pending | Some e \<Rightarrow> verdict e)"
  using confirms.first_verdict_wins[OF assms] by (simp add: confirm_run_def)

definition two_publishes :: "tracker \<times> unit fheap" where
  "two_publishes = confirm_run [CRegister, CRegister] (tracker_enable tracker_init, [])"

lemma two_publishes_eq:
  "two_publishes = (\<lparr>next_tag = 3, outstanding = [(1, 0), (2, 1)], enabled = True\<rparr>, [Pending, Pending])"
  by (simp add: two_publishes_def confirm_run_def tracker_register_def tracker_enable_def tracker_init_def
      create_future_def Let_def)

theorem confirm_first_verdict_wins_witness:
  "snd (confirm_run [CAck 7 False, CRegister, CNack 2 True, CAck 1 False, CFailAll TimeoutError]
     two_publishes) ! 0 = Failed (PublishNack 2 True)"
proof -
  have "tracker_ok two_publishes"
    by (auto simp: two_publishes_eq tracker_ok_def table_valid_def dict_ok_def)
  then show ?thesis
    using confirm_first_verdict_wins[of two_publishes 1 0
      "[CAck 7 False, CRegister, CNack 2 True, CAck 1 False, CFailAll TimeoutError]"]
    by (simp add: two_publishes_eq covers_def)
qed

lemma next_tag_resolve [simp]: "next_tag (fst (tracker_resolve d mult r s)) = next_tag (fst s)"
  "enabled (fst (tracker_resolve d mult r s)) = enabled (fst s)"
  by (cases s; simp add: tracker_resolve_pops Let_def)+

lemma confirm_step_next:
  "enabled (fst s) \<Longrightarrow> enabled (fst (confirm_step e s)) \<and>
     next_tag (fst (confirm_step e s)) = next_tag (fst s) + (if e = CRegister then 1 else 0)"
  by (cases s; cases e)
    (simp_all add: tracker_on_ack_def tracker_on_nack_def tracker_register_eq tracker_fail_all_def)

lemma confirm_run_next:
  "enabled (fst s) \<Longrightarrow> enabled (fst (confirm_run es s)) \<and>
     next_tag (fst (confirm_run es s)) = next_tag (fst s) + int (count_list es CRegister)"
proof (induction es arbitrary: s)
  case (Cons e es)
  then show ?case
    using Cons.IH[of "confirm_step e s"] confirm_step_next[OF Cons.prems, of e] by (simp add: confirm_run_def)
qed (simp add: confirm_run_def)

text \<open>
  Tags number the publishes of a channel: after confirms are enabled, whatever is registered,
  acknowledged and failed, the publish registered after \<open>n\<close> others gets tag \<open>n + 1\<close> and a new
  pending future, and the outstanding tags are distinct, lie between 1 and the number of publishes
  and have distinct futures.\<close>

theorem confirm_tags_number_publishes:
  "let s = confirm_run es (tracker_enable tracker_init, h); n = int (count_list es CRegister) in
     fst (tracker_register s) = Inr (n + 1, length (snd s)) \<and>
     snd (snd (tracker_register s)) = snd s @ [Pending] \<and>
     dict_ok (outstanding (fst s)) \<and> distinct (map snd (outstanding (fst s))) \<and>
     fst ` set (outstanding (fst s)) \<subseteq> {1..n}"
proof -
  define s where "s = confirm_run es (tracker_enable tracker_init, h)"
  have ok: "tracker_ok s"
    unfolding s_def confirm_run_def
    by (rule confirms.ok_run) (simp add: tracker_ok_def tracker_enable_def tracker_init_def)
  have n: "enabled (fst s)" "next_tag (fst s) = 1 + int (count_list es CRegister)"
    using confirm_run_next[of "(tracker_enable tracker_init, h)" es]
    by (simp_all add: s_def tracker_enable_def tracker_init_def)
  show ?thesis
    using ok n unfolding Let_def s_def[symmetric]
    by (cases s) (auto simp: tracker_register_eq tracker_ok_def table_valid_def)
qed

end
