(* ===== verification/Ids.thy ===== *)
theory Ids
  imports PyValues Utf8
begin

text \<open>
  \<^verbatim>\<open>src/src/nuropb_rmq/session/ids.py\<close>: validation of correlation ids. The regular expression is
  \<open>^[A-Za-z0-9._:-]{1,255}$\<close>, tried with \<open>match\<close>; in Python's \<open>re\<close> a \<open>$\<close> matches at the end and
  also just before a newline that ends the string.
\<close>

definition safe_char :: "nat \<Rightarrow> bool" where
  "safe_char c \<longleftrightarrow> 65 \<le> c \<and> c \<le> 90 \<or> 97 \<le> c \<and> c \<le> 122 \<or> 48 \<le> c \<and> c \<le> 57
     \<or> c = 46 \<or> c = 95 \<or> c = 58 \<or> c = 45"

text \<open>\<open>$\<close> after a class: the end of the string, or a final newline.\<close>

definition at_dollar :: "pystr \<Rightarrow> bool" where
  "at_dollar rest \<longleftrightarrow> rest = [] \<or> rest = [10]"

definition safe_id_match :: "pystr \<Rightarrow> bool" where
  "safe_id_match value =
     (let run = takeWhile safe_char value in
      1 \<le> length run \<and> length run \<le> 255 \<and> at_dollar (drop (length run) value))"

definition validate_id :: "pyval \<Rightarrow> pystr res" where
  "validate_id value =
     (case value of
        VStr s \<Rightarrow>
          bind_r (utf8_encode s) (\<lambda>raw.
            if length raw = 0 \<or> length raw > 255 then Inl (InvalidIdError ''id must be 1..255 UTF-8 octets'')
            else if \<not> safe_id_match s
            then Inl (InvalidIdError ''id must be ASCII safe subset (A-Za-z0-9._:-)'')
            else Inr s)
      | _ \<Rightarrow> Inl (InvalidIdError ''id must be a string''))"

text \<open>An id of safe characters only.\<close>

definition safe_id :: "pystr \<Rightarrow> bool" where
  "safe_id s \<longleftrightarrow> 1 \<le> length s \<and> length s \<le> 255 \<and> list_all safe_char s"

lemma safe_char_ascii: "safe_char c \<Longrightarrow> c < 128 \<and> c \<noteq> 10"
  by (auto simp: safe_char_def)

lemma safe_run: "list_all safe_char r \<Longrightarrow> takeWhile safe_char (r @ [10]) = r" "list_all safe_char r \<Longrightarrow> takeWhile safe_char r = r"
  by (induction r) (auto simp: safe_char_def)

lemma safe_id_match_iff:
  "safe_id_match s \<longleftrightarrow> (\<exists>r. list_all safe_char r \<and> 1 \<le> length r \<and> length r \<le> 255 \<and> (s = r \<or> s = r @ [10]))"
proof
  assume m: "safe_id_match s"
  let ?r = "takeWhile safe_char s"
  have "s = ?r @ drop (length ?r) s" by (metis append_take_drop_id takeWhile_eq_take)
  then have "s = ?r \<or> s = ?r @ [10]" using m by (auto simp: safe_id_match_def Let_def at_dollar_def)
  moreover have "list_all safe_char ?r" by (auto simp: list_all_iff dest: set_takeWhileD)
  ultimately show "\<exists>r. list_all safe_char r \<and> 1 \<le> length r \<and> length r \<le> 255 \<and> (s = r \<or> s = r @ [10])"
    using m unfolding safe_id_match_def Let_def by blast
next
  assume "\<exists>r. list_all safe_char r \<and> 1 \<le> length r \<and> length r \<le> 255 \<and> (s = r \<or> s = r @ [10])"
  then show "safe_id_match s" by (auto simp: safe_id_match_def Let_def at_dollar_def safe_run)
qed

lemma safe_encode: "list_all safe_char r \<Longrightarrow> utf8_encode r = Inr (map of_nat r)"
  "list_all safe_char r \<Longrightarrow> utf8_encode (r @ [10]) = Inr (map of_nat (r @ [10]))"
  by (intro utf8_ascii; auto simp: list_all_iff dest: safe_char_ascii)+

text \<open>
  What \<open>validate_id\<close> accepts: exactly the strings of 1 to 255 characters of the safe subset,
  returned unchanged, and besides them those of 1 to 254 followed by a newline.\<close>

theorem validate_id_accepts:
  "validate_id v = Inr s \<longleftrightarrow> v = VStr s \<and>
     (safe_id s \<or> (\<exists>r. s = r @ [10] \<and> safe_id r \<and> length r \<le> 254))"
proof (cases v)
  case (VStr t)
  show ?thesis
  proof (cases "safe_id_match t")
    case True
    then obtain r where r: "list_all safe_char r" "1 \<le> length r" "length r \<le> 255" "t = r \<or> t = r @ [10]"
      unfolding safe_id_match_iff by blast
    have nl: "\<not> safe_char 10" by (simp add: safe_char_def)
    from r(4) show ?thesis
    proof
      assume "t = r"
      moreover have "r \<noteq> q @ [10]" for q using r(1) nl by (auto simp: list_all_iff)
      ultimately show ?thesis
        using r True safe_encode(1)[OF r(1)] by (auto simp: validate_id_def VStr safe_id_def)
    next
      assume "t = r @ [10]"
      then show ?thesis
        using r True safe_encode(2)[OF r(1)] nl by (auto simp: validate_id_def VStr safe_id_def)
    qed
  next
    case False
    then have "\<not> (safe_id t \<or> (\<exists>r. t = r @ [10] \<and> safe_id r \<and> length r \<le> 254))"
      by (auto simp: safe_id_match_iff safe_id_def)
    then show ?thesis using False by (auto simp: validate_id_def VStr bind_r_Inr_iff)
  qed
qed (auto simp: validate_id_def)

end
