(* ===== verification/Correlation.thy ===== *)
theory Correlation
  imports Futures Ids
begin

text \<open>
  \<^verbatim>\<open>src/src/nuropb_rmq/session/correlation.py\<close>: outstanding request ids and their futures. The
  state is the dict \<open>_pending\<close> with the heap its futures live in. The ids that \<open>uuid4().hex\<close>
  yields are the sequence \<open>gen\<close>, of which \<open>n\<close> have been used.
\<close>

type_synonym 'v corr = "(pystr \<times> nat) list \<times> 'v fheap"

definition corr_contains :: "pystr \<Rightarrow> 'v corr \<Rightarrow> bool" where
  "corr_contains rid s = dict_has (fst s) rid"

definition corr_len :: "'v corr \<Rightarrow> nat" where
  "corr_len s = length (fst s)"

text \<open>\<open>while request_id in self._pending: request_id = generate_id()\<close>; None if it never ends.\<close>

partial_function (option) fresh_id ::
  "(nat \<Rightarrow> pystr) \<Rightarrow> 'v corr \<Rightarrow> nat \<Rightarrow> (pystr \<times> nat) option" where
  "fresh_id gen s n = (if corr_contains (gen n) s then fresh_id gen s (n + 1) else Some (gen n, n + 1))"

definition corr_add :: "pystr \<Rightarrow> 'v corr \<Rightarrow> (pystr \<times> nat) \<times> 'v corr" where
  "corr_add rid s = (case s of (d, h) \<Rightarrow>
     let (fut, h') = create_future h in ((rid, fut), (dict_set d rid fut, h')))"

definition corr_register ::
  "(nat \<Rightarrow> pystr) \<Rightarrow> pyval \<Rightarrow> nat \<times> 'v corr \<Rightarrow> ((pystr \<times> nat) res \<times> nat \<times> 'v corr) option" where
  "corr_register gen request_id st = (case st of (n, s) \<Rightarrow>
     if request_id = VNone then
       (case fresh_id gen s n of
          None \<Rightarrow> None
        | Some (rid, n') \<Rightarrow> (case corr_add rid s of (x, s') \<Rightarrow> Some (Inr x, n', s')))
     else
       (case validate_id request_id of
          Inl e \<Rightarrow> Some (Inl e, n, s)
        | Inr rid \<Rightarrow>
            if corr_contains rid s
            then Some (Inl (IdCollisionError ''id collides with outstanding request: {}''), n, s)
            else (case corr_add rid s of (x, s') \<Rightarrow> Some (Inr x, n, s'))))"

text \<open>\<open>resolve\<close> and \<open>fail\<close>: pop the id and settle its future unless it is done.\<close>

definition corr_resolve :: "pystr \<Rightarrow> 'v \<Rightarrow> 'v corr \<Rightarrow> bool \<times> 'v corr" where
  "corr_resolve rid v s = (case s of (d, h) \<Rightarrow>
     (case dict_get d rid of
        None \<Rightarrow> (False, s)
      | Some fut \<Rightarrow> (True, (dict_del d rid, settle fut (Result v) h))))"

definition corr_fail :: "pystr \<Rightarrow> py_exc \<Rightarrow> 'v corr \<Rightarrow> bool \<times> 'v corr" where
  "corr_fail rid e s = (case s of (d, h) \<Rightarrow>
     (case dict_get d rid of
        None \<Rightarrow> (False, s)
      | Some fut \<Rightarrow> (True, (dict_del d rid, settle fut (Failed e) h))))"

definition corr_discard_all :: "py_exc option \<Rightarrow> 'v corr \<Rightarrow> 'v corr" where
  "corr_discard_all exc s = (case s of (d, h) \<Rightarrow>
     let err = (case exc of None \<Rightarrow> OtherError ''session closed'' | Some e \<Rightarrow> e)
     in ([], settle_list (map snd d) (Failed err) h))"

section \<open>Well-formed tables\<close>

definition corr_ok :: "'v corr \<Rightarrow> bool" where
  "corr_ok s \<longleftrightarrow> table_valid (fst s) (snd s)"

lemma corr_resolve_pops: "snd (corr_resolve rid v s) = pop_settle rid (Result v) s"
  by (cases s) (simp add: corr_resolve_def pop_settle_def split: option.split)

lemma corr_fail_pops: "snd (corr_fail rid e s) = pop_settle rid (Failed e) s"
  by (cases s) (simp add: corr_fail_def pop_settle_def split: option.split)

lemma corr_add_eq: "corr_add rid (d, h) = ((rid, length h), (dict_set d rid (length h), h @ [Pending]))"
  by (simp add: corr_add_def create_future_def)

lemma corr_add_ok: "corr_ok s \<Longrightarrow> \<not> corr_contains rid s \<Longrightarrow> corr_ok (snd (corr_add rid s))"
  by (cases s) (simp add: corr_ok_def corr_add_eq corr_contains_def dict_has_def table_valid_new)

section \<open>The generated id\<close>

lemma fresh_id_step:
  "corr_contains (gen n) s \<Longrightarrow> fresh_id gen s n = fresh_id gen s (n + 1)"
  "\<not> corr_contains (gen n) s \<Longrightarrow> fresh_id gen s n = Some (gen n, n + 1)"
  by (simp_all add: fresh_id.simps)

lemma fresh_id_new: "fresh_id gen k n = Some (rid, m) \<Longrightarrow> \<not> corr_contains rid k"
proof -
  have "\<not> corr_contains (fst y) k" if "fresh_id gen k n = Some y" for y
    by (rule fresh_id.raw_induct[where P = "\<lambda>gen k n y. \<not> corr_contains (fst y) k", OF _ that]) (auto split: if_splits)
  then show "fresh_id gen k n = Some (rid, m) \<Longrightarrow> \<not> corr_contains rid k" by fastforce
qed

lemma fresh_id_finds:
  assumes "\<not> corr_contains (gen (n + k)) s"
  shows "\<exists>j \<le> k. \<not> corr_contains (gen (n + j)) s \<and> fresh_id gen s n = Some (gen (n + j), n + j + 1)"
  using assms
proof (induction k arbitrary: n)
  case 0
  then show ?case by (simp add: fresh_id_step(2))
next
  case (Suc k)
  show ?case
  proof (cases "corr_contains (gen n) s")
    case True
    have "\<not> corr_contains (gen (Suc n + k)) s" using Suc.prems by simp
    from Suc.IH[OF this] obtain j where "j \<le> k" "\<not> corr_contains (gen (Suc n + j)) s"
      "fresh_id gen s (Suc n) = Some (gen (Suc n + j), Suc n + j + 1)" by blast
    with True show ?thesis by (intro exI[of _ "Suc j"]) (simp add: fresh_id_step(1))
  next
    case False
    then show ?thesis by (intro exI[of _ 0]) (simp add: fresh_id_step(2))
  qed
qed

text \<open>Among \<open>len + 1\<close> different ids one is not outstanding.\<close>

lemma some_id_free:
  assumes "inj gen"
  shows "\<exists>k \<le> corr_len s. \<not> corr_contains (gen (n + k)) s"
proof (rule ccontr)
  assume "\<not> (\<exists>k \<le> corr_len s. \<not> corr_contains (gen (n + k)) s)"
  then have "(\<lambda>k. gen (n + k)) ` {..corr_len s} \<subseteq> fst ` set (fst s)"
    by (auto simp: corr_contains_def dict_has_iff)
  then have "card ((\<lambda>k. gen (n + k)) ` {..corr_len s}) \<le> card (fst ` set (fst s))"
    by (intro card_mono) auto
  also have "\<dots> \<le> corr_len s"
    unfolding corr_len_def by (metis card_length length_map list.set_map)
  finally have "card ((\<lambda>k. gen (n + k)) ` {..corr_len s}) \<le> corr_len s" .
  moreover have "inj_on (\<lambda>k. gen (n + k)) {..corr_len s}"
    by (rule inj_onI) (use injD[OF assms] in fastforce)
  ultimately show False by (simp add: card_image)
qed

section \<open>Histories\<close>

datatype 'v corr_event =
    CorrAdd pystr | CorrResolve pystr 'v | CorrFail pystr py_exc | CorrDiscard "py_exc option"

fun corr_step :: "'v corr_event \<Rightarrow> 'v corr \<Rightarrow> 'v corr" where
  "corr_step (CorrAdd rid) s = (if corr_contains rid s then s else snd (corr_add rid s))"
| "corr_step (CorrResolve rid v) s = snd (corr_resolve rid v s)"
| "corr_step (CorrFail rid e) s = snd (corr_fail rid e s)"
| "corr_step (CorrDiscard exc) s = corr_discard_all exc s"

fun corr_decides :: "'v corr_event \<Rightarrow> pystr \<Rightarrow> bool" where
  "corr_decides (CorrAdd _) rid = False"
| "corr_decides (CorrResolve r _) rid = (r = rid)"
| "corr_decides (CorrFail r _) rid = (r = rid)"
| "corr_decides (CorrDiscard _) rid = True"

fun corr_verdict :: "'v corr_event \<Rightarrow> 'v fut" where
  "corr_verdict (CorrAdd _) = Pending"
| "corr_verdict (CorrResolve _ v) = Result v"
| "corr_verdict (CorrFail _ e) = Failed e"
| "corr_verdict (CorrDiscard None) = Failed (OtherError ''session closed'')"
| "corr_verdict (CorrDiscard (Some e)) = Failed e"

lemma corr_resolved_by:
  assumes "corr_ok s"
  shows "corr_ok (pop_settle rid r s)"
    "dict_get (fst (pop_settle rid r s)) = (dict_get (fst s))(rid := None)"
    "snd (pop_settle rid r s) =
      (case dict_get (fst s) rid of None \<Rightarrow> snd s | Some i \<Rightarrow> settle i r (snd s))"
  using pops.valid_resolve[of s] pops.entry_resolve[of s] pops.futures_resolve[of s] assms
  by (simp_all add: corr_ok_def)

lemma corr_discard_eq:
  "corr_discard_all exc s = ([], settle_list (map snd (fst s)) (corr_verdict (CorrDiscard exc)) (snd s))"
  by (cases s; cases exc) (simp_all add: corr_discard_all_def)

lemma corr_ok_step: "corr_ok s \<Longrightarrow> corr_ok (corr_step e s)"
proof (cases e)
  case (CorrDiscard exc)
  then show ?thesis by (simp add: corr_discard_eq corr_ok_def)
qed (simp_all add: corr_add_ok corr_resolve_pops corr_fail_pops corr_resolved_by(1))

lemma corr_bound: "corr_ok s \<Longrightarrow> dict_get (fst s) rid = Some i \<Longrightarrow> i < length (snd s)"
  by (force simp: corr_ok_def table_valid_def dest!: dict_get_in)

lemma corr_inj: "corr_ok s \<Longrightarrow> dict_get (fst s) k = Some i \<Longrightarrow> dict_get (fst s) k' = Some i \<Longrightarrow> k = k'"
  by (auto simp: corr_ok_def dest: table_valid_inj)

lemma corr_listed: "dict_get (fst s) rid = Some i \<Longrightarrow> i \<in> snd ` set (fst s)"
  by (force dest!: dict_get_in)

lemma corr_unlisted: "corr_ok s \<Longrightarrow> \<forall>k. dict_get (fst s) k \<noteq> Some i \<Longrightarrow> i \<notin> snd ` set (fst s)"
  by (fastforce simp: corr_ok_def table_valid_def dest: dict_ok_in_get)

lemma pop_kept:
  assumes "corr_ok s" "dict_get (fst s) k = Some i" "rid \<noteq> k"
  shows "snd (pop_settle rid r s) ! i = snd s ! i \<and> dict_get (fst (pop_settle rid r s)) k = Some i"
proof (cases "dict_get (fst s) rid")
  case (Some j)
  then have "j \<noteq> i" using corr_inj[OF assms(1,2), of rid] assms(3) by auto
  with Some assms show ?thesis by (simp add: corr_resolved_by[OF assms(1)])
qed (use assms in \<open>simp add: corr_resolved_by[OF assms(1)]\<close>)

lemma pop_gone:
  assumes "corr_ok s" "i < length (snd s)" "\<forall>k. dict_get (fst s) k \<noteq> Some i"
  shows "snd (pop_settle rid r s) ! i = snd s ! i \<and> i < length (snd (pop_settle rid r s)) \<and>
    (\<forall>k. dict_get (fst (pop_settle rid r s)) k \<noteq> Some i)"
proof (cases "dict_get (fst s) rid")
  case (Some j)
  then have "j \<noteq> i" using assms(3) by auto
  with Some assms show ?thesis by (simp add: corr_resolved_by[OF assms(1)])
qed (use assms in \<open>simp add: corr_resolved_by[OF assms(1)]\<close>)

lemma add_kept:
  assumes "corr_ok s" "dict_get (fst s) k = Some i" "\<not> corr_contains rid s"
  shows "snd (snd (corr_add rid s)) ! i = snd s ! i \<and> dict_get (fst (snd (corr_add rid s))) k = Some i"
  using assms(2,3) corr_bound[OF assms(1,2)]
  by (cases s) (auto simp: corr_add_eq corr_contains_def dict_has_def nth_append)

lemma add_gone:
  assumes "i < length (snd s)" "\<forall>k. dict_get (fst s) k \<noteq> Some i"
  shows "snd (snd (corr_add rid s)) ! i = snd s ! i \<and> i < length (snd (snd (corr_add rid s))) \<and>
    (\<forall>k. dict_get (fst (snd (corr_add rid s))) k \<noteq> Some i)"
  using assms by (cases s) (simp add: corr_add_eq nth_append)

lemmas corr_pops = corr_resolve_pops corr_fail_pops

interpretation corrs: verdicts corr_step "\<lambda>s. dict_get (fst s)" snd corr_ok corr_decides corr_verdict
proof
  fix e :: "'v corr_event" and s :: "'v corr" and k i
  assume ok: "corr_ok s"
  show "corr_ok (corr_step e s)" using ok by (rule corr_ok_step)
  show "snd (corr_step e s) ! i = corr_verdict e"
    if "dict_get (fst s) k = Some i" "snd s ! i = Pending" "corr_decides e k"
    using that corr_bound[OF ok that(1)] corr_listed[OF that(1)]
    by (cases e)
      (simp_all add: corr_pops corr_resolved_by[OF ok] corr_discard_eq nth_settle settle_list_nth
        del: corr_verdict.simps(4,5))
  show "i < length (snd (corr_step e s)) \<and> (\<forall>k'. dict_get (fst (corr_step e s)) k' \<noteq> Some i)"
    if "dict_get (fst s) k = Some i" "corr_decides e k"
  proof -
    have "\<forall>k'. k' \<noteq> k \<longrightarrow> dict_get (fst s) k' \<noteq> Some i" using corr_inj[OF ok that(1)] by auto
    then show ?thesis
      using that corr_bound[OF ok that(1)]
      by (cases e) (simp_all add: corr_pops corr_resolved_by[OF ok] corr_discard_eq)
  qed
  show "snd (corr_step e s) ! i = snd s ! i \<and> dict_get (fst (corr_step e s)) k = Some i"
    if "dict_get (fst s) k = Some i" "\<not> corr_decides e k"
    using that pop_kept[OF ok that(1)] add_kept[OF ok that(1)] by (cases e) (simp_all add: corr_pops)
  show "snd (corr_step e s) ! i = snd s ! i \<and> i < length (snd (corr_step e s)) \<and>
      (\<forall>k. dict_get (fst (corr_step e s)) k \<noteq> Some i)"
    if "i < length (snd s)" "\<forall>k. dict_get (fst s) k \<noteq> Some i"
  proof (cases e)
    case (CorrDiscard exc)
    then show ?thesis
      using that corr_unlisted[OF ok that(2)] by (simp add: corr_discard_eq settle_list_nth)
  qed (use that pop_gone[OF ok that] add_gone[OF that] in \<open>simp_all add: corr_pops\<close>)
qed

section \<open>Properties\<close>

text \<open>
  C27. First reply wins: the future of an outstanding request gets exactly the first reply, failure
  or discard that concerns its id, whatever else is registered, resolved, failed or discarded
  before and after, and without one it stays pending.\<close>

theorem corr_first_reply_wins:
  assumes "corr_ok s" "dict_get (fst s) rid = Some fut" "snd s ! fut = Pending"
  shows "snd (fold corr_step es s) ! fut =
    (case find (\<lambda>e. corr_decides e rid) es of None \<Rightarrow> Pending | Some e \<Rightarrow> corr_verdict e)"
  using assms by (rule corrs.first_verdict_wins)

theorem corr_first_reply_wins_witness:
  "snd (fold corr_step [CorrResolve [9] (2 :: int), CorrAdd [8], CorrResolve [7] 3, CorrResolve [7] 4,
     CorrDiscard None] ([([7], 0)], [Pending])) ! 0 = Result 3"
  using corr_first_reply_wins[of "([([7], 0)], [Pending])" "[7]" 0
    "[CorrResolve [9] (2 :: int), CorrAdd [8], CorrResolve [7] 3, CorrResolve [7] 4, CorrDiscard None]"]
  by (simp add: corr_ok_def table_valid_def dict_ok_def)

text \<open>
  \<open>register\<close> always returns when the generator does not repeat itself. It fails exactly when the
  id given is invalid or outstanding, and then changes nothing; otherwise it adds a request that
  was not outstanding, under the id given if one was, with a new pending future of its own.\<close>

theorem corr_register_outcome:
  assumes "inj gen"
  shows "\<exists>r n' s'. corr_register gen v (n, s) = Some (r, n', s') \<and>
    (case r of
       Inl e \<Rightarrow> s' = s \<and> v \<noteq> VNone \<and>
         (validate_id v = Inl e \<or>
          (\<exists>rid. validate_id v = Inr rid \<and> corr_contains rid s \<and> e = IdCollisionError ''id collides with outstanding request: {}''))
     | Inr (rid, fut) \<Rightarrow> \<not> corr_contains rid s \<and> (v = VNone \<or> validate_id v = Inr rid) \<and>
         fut = length (snd s) \<and> s' = (dict_set (fst s) rid fut, snd s @ [Pending]))"
proof (cases "v = VNone")
  case True
  obtain k where "\<not> corr_contains (gen (n + k)) s" using some_id_free[OF assms] by blast
  from fresh_id_finds[of gen n k s, OF this] obtain j where
    j: "\<not> corr_contains (gen (n + j)) s" "fresh_id gen s n = Some (gen (n + j), n + j + 1)" by blast
  then show ?thesis
    by (cases s) (simp add: corr_register_def True corr_add_eq)
next
  case False
  then show ?thesis
    by (cases s; cases "validate_id v") (auto simp: corr_register_def corr_add_eq)
qed

definition numbered :: "nat \<Rightarrow> pystr" where
  "numbered n = [48 + n]"

theorem corr_register_outcome_witness:
  "\<exists>r n' s'. corr_register numbered VNone (0, ([([48], 0)], [Pending :: int fut])) = Some (r, n', s')"
  using corr_register_outcome[of numbered VNone 0 "([([48], 0)], [Pending :: int fut])"]
  by (auto simp: inj_def numbered_def)

end
