(* ===== verification/Errors.thy ===== *)
theory Errors
  imports PyValues
begin

text \<open>
  \<^verbatim>\<open>src/src/nuropb_rmq/patterns/errors.py\<close>: the JSON-RPC error codes and the allowlisted data.
\<close>

abbreviation INVALID_ID :: int where "INVALID_ID \<equiv> - 33001"
abbreviation ID_COLLISION :: int where "ID_COLLISION \<equiv> - 33002"
abbreviation INVALID_ENVELOPE :: int where "INVALID_ENVELOPE \<equiv> - 33003"
abbreviation UNAUTHORIZED :: int where "UNAUTHORIZED \<equiv> - 33100"
abbreviation CLAIMS_MISSING :: int where "CLAIMS_MISSING \<equiv> - 33101"
abbreviation CLAIMS_EXPIRED :: int where "CLAIMS_EXPIRED \<equiv> - 33102"
abbreviation CLAIMS_UNBOUND :: int where "CLAIMS_UNBOUND \<equiv> - 33103"
abbreviation BIND_REFUSED :: int where "BIND_REFUSED \<equiv> - 33201"
abbreviation REQUEST_TIMEOUT :: int where "REQUEST_TIMEOUT \<equiv> - 33300"
abbreviation CONNECTION_LOST :: int where "CONNECTION_LOST \<equiv> - 33400"
abbreviation CONNECTION_BLOCKED :: int where "CONNECTION_BLOCKED \<equiv> - 33401"
abbreviation PUBLISH_NACK :: int where "PUBLISH_NACK \<equiv> - 33402"
abbreviation PUBLISH_RETURNED :: int where "PUBLISH_RETURNED \<equiv> - 33403"
abbreviation SERVER_ERROR :: int where "SERVER_ERROR \<equiv> - 32000"

definition code_names :: "(int \<times> pystr) list" where
  "code_names =
     [(INVALID_ID, S ''INVALID_ID''), (ID_COLLISION, S ''ID_COLLISION''),
      (INVALID_ENVELOPE, S ''INVALID_ENVELOPE''), (UNAUTHORIZED, S ''UNAUTHORIZED''),
      (CLAIMS_MISSING, S ''CLAIMS_MISSING''), (CLAIMS_EXPIRED, S ''CLAIMS_EXPIRED''),
      (CLAIMS_UNBOUND, S ''CLAIMS_UNBOUND''), (BIND_REFUSED, S ''BIND_REFUSED''),
      (REQUEST_TIMEOUT, S ''REQUEST_TIMEOUT''), (CONNECTION_LOST, S ''CONNECTION_LOST''),
      (CONNECTION_BLOCKED, S ''CONNECTION_BLOCKED''), (PUBLISH_NACK, S ''PUBLISH_NACK''),
      (PUBLISH_RETURNED, S ''PUBLISH_RETURNED''), (SERVER_ERROR, S ''SERVER_ERROR'')]"

definition allowed_data_keys :: "pystr list" where
  "allowed_data_keys = [S ''code_name'', S ''retryable'', S ''correlation_id'', S ''method'']"

definition allowlist_error_data :: "pydict option \<Rightarrow> pydict option" where
  "allowlist_error_data d = (case d of None \<Rightarrow> None
     | Some data \<Rightarrow> Some (filter (\<lambda>(k, v). k \<in> set allowed_data_keys) data))"

definition make_error_data :: "int \<Rightarrow> bool \<Rightarrow> pystr option \<Rightarrow> pystr option \<Rightarrow> pydict option" where
  "make_error_data code retryable correlation_id meth =
     (let d0 = [(S ''code_name'', VStr (dict_get_or code_names code (S ''UNKNOWN''))),
                (S ''retryable'', VBool retryable)];
          d1 = (case correlation_id of None \<Rightarrow> d0 | Some c \<Rightarrow> dict_set d0 (S ''correlation_id'') (VStr c));
          d2 = (case meth of None \<Rightarrow> d1 | Some m \<Rightarrow> dict_set d1 (S ''method'') (VStr m))
      in allowlist_error_data (Some d2))"

lemma make_error_data_eq:
  "make_error_data code retryable cid meth =
     Some ([(S ''code_name'', VStr (dict_get_or code_names code (S ''UNKNOWN''))), (S ''retryable'', VBool retryable)]
       @ (case cid of None \<Rightarrow> [] | Some c \<Rightarrow> [(S ''correlation_id'', VStr c)])
       @ (case meth of None \<Rightarrow> [] | Some m \<Rightarrow> [(S ''method'', VStr m)]))"
  by (simp add: make_error_data_def allowlist_error_data_def allowed_data_keys_def split: option.split)

end
