(* ===== verification/Acl.thy ===== *)
theory Acl
  imports PyValues "HOL-Library.Sublist"
begin

text \<open>
  \<^verbatim>\<open>src/src/nuropb_rmq/patterns/acl.py\<close>: prefix matchers for the broker permissions.
\<close>

fun starts_with :: "pystr \<Rightarrow> pystr \<Rightarrow> bool" where
  "starts_with s [] = True"
| "starts_with [] (c # p) = False"
| "starts_with (d # s) (c # p) = (d = c \<and> starts_with s p)"

definition matches_prefix :: "pystr \<Rightarrow> pystr \<Rightarrow> bool" where
  "matches_prefix pattern name \<longleftrightarrow> name = pattern \<or> starts_with name pattern"

definition acl_allowed :: "pystr list \<Rightarrow> pystr \<Rightarrow> bool" where
  "acl_allowed patterns name = list_ex (\<lambda>p. matches_prefix p name) patterns"

record perms =
  p_configure :: "pystr list"
  p_write :: "pystr list"
  p_read :: "pystr list"

definition can_configure :: "perms \<Rightarrow> pystr \<Rightarrow> bool" where
  "can_configure p name = acl_allowed (p_configure p) name"

definition can_publish :: "perms \<Rightarrow> pystr \<Rightarrow> bool" where
  "can_publish p name = acl_allowed (p_write p) name"

definition can_read :: "perms \<Rightarrow> pystr \<Rightarrow> bool" where
  "can_read p name = acl_allowed (p_read p) name"

definition REPLY_PUBLISH_RESTRICTED_CLIENT :: perms where
  "REPLY_PUBLISH_RESTRICTED_CLIENT =
     \<lparr>p_configure = [S ''nr.reply.''], p_write = [S ''nr.mesh''], p_read = [S ''nr.reply.'']\<rparr>"

definition REPLY_PUBLISH_RESTRICTED_SERVICE :: perms where
  "REPLY_PUBLISH_RESTRICTED_SERVICE =
     \<lparr>p_configure = [S ''nr.svc.'', S ''nr.reply.''],
      p_write = [S ''nr.mesh'', S ''nr.reply.'', S ''nr.dlx.''],
      p_read = [S ''nr.svc.'', S ''nr.mesh'', S ''nr.dlx.'']\<rparr>"

definition mesh_bind_namespaced :: "pystr \<Rightarrow> perms" where
  "mesh_bind_namespaced service =
     \<lparr>p_configure = [service], p_write = [service, S ''nr.mesh''], p_read = [service, S ''nr.mesh'']\<rparr>"

lemma starts_with_iff: "starts_with s p \<longleftrightarrow> prefix p s"
  by (induction s p rule: starts_with.induct) auto

lemma matches_prefix_iff: "matches_prefix p s \<longleftrightarrow> prefix p s"
  by (auto simp: matches_prefix_def starts_with_iff)

lemma acl_allowed_iff: "acl_allowed ps s \<longleftrightarrow> (\<exists>p \<in> set ps. prefix p s)"
  by (auto simp: acl_allowed_def matches_prefix_iff list_ex_iff)

text \<open>
  Namespaced services share names exactly when one service's name is a prefix of the other's:
  there is no separator in the pattern, so \<open>orders\<close> may configure everything of \<open>orders2\<close>.\<close>

theorem namespaces_overlap_iff_prefix:
  "((\<exists>n. can_configure (mesh_bind_namespaced a) n \<and> can_configure (mesh_bind_namespaced b) n) \<longleftrightarrow>
      prefix a b \<or> prefix b a) \<and>
   can_configure (mesh_bind_namespaced (S ''orders'')) (S ''orders2'' @ n)"
proof -
  have "prefix a n \<and> prefix b n \<Longrightarrow> prefix a b \<or> prefix b a" for n
    using prefix_same_cases by blast
  then show ?thesis
    by (auto simp: can_configure_def mesh_bind_namespaced_def acl_allowed_iff S_def prefix_def)
qed

end
