(* ===== verification/QueueProfile.thy ===== *)
theory QueueProfile
  imports PyValues
begin

text \<open>
  \<^verbatim>\<open>src/src/nuropb_rmq/config/queue_profile.py\<close>: queue and delivery settings validated as a unit.
  A \<open>QueueProfile\<close> object exists only if \<open>__post_init__\<close> did not raise: \<open>make_profile\<close>.
\<close>

definition DELIVERY_NON_PERSISTENT :: int where "DELIVERY_NON_PERSISTENT = 1"
definition DELIVERY_PERSISTENT :: int where "DELIVERY_PERSISTENT = 2"

lemmas delivery_modes = DELIVERY_NON_PERSISTENT_def DELIVERY_PERSISTENT_def

record queue_profile =
  qp_name :: pystr
  qp_type :: pystr
  qp_durable :: bool
  qp_delivery_mode :: int
  qp_ttl :: "int option"
  qp_dlx :: "pystr option"
  qp_dlk :: "pystr option"
  qp_limit :: "int option"

text \<open>\<open>bool(self.dead_letter_exchange)\<close>: the empty string counts as none.\<close>

definition requires_dlx :: "queue_profile \<Rightarrow> bool" where
  "requires_dlx p = (case qp_dlx p of None \<Rightarrow> False | Some e \<Rightarrow> e \<noteq> [])"

definition post_init :: "queue_profile \<Rightarrow> unit res" where
  "post_init p =
     (if qp_delivery_mode p \<noteq> DELIVERY_NON_PERSISTENT \<and> qp_delivery_mode p \<noteq> DELIVERY_PERSISTENT
      then Inl (ValueError ''delivery_mode must be 1 or 2, got {}'')
      else if qp_durable p \<and> qp_delivery_mode p \<noteq> DELIVERY_PERSISTENT
      then Inl (ValueError ''profile {}: durable queues require delivery_mode=2 (refuse non-persistent)'')
      else if \<not> qp_durable p \<and> qp_delivery_mode p = DELIVERY_PERSISTENT
      then Inl (ValueError ''profile {}: non-durable queue with persistent messages is refused (likely misconfiguration)'')
      else if qp_type p = S ''quorum'' \<and> qp_limit p = None
      then Inl (ValueError ''profile {}: quorum requires x-delivery-limit'')
      else if qp_type p = S ''classic'' \<and> qp_limit p \<noteq> None
      then Inl (ValueError ''profile {}: x-delivery-limit is forbidden on classic queues'')
      else if (case qp_limit p of None \<Rightarrow> False | Some n \<Rightarrow> n < 1)
      then Inl (ValueError ''delivery_limit must be >= 1'')
      else if (case qp_ttl p of None \<Rightarrow> False | Some n \<Rightarrow> n < 1)
      then Inl (ValueError ''message_ttl_ms must be >= 1'')
      else if (qp_ttl p \<noteq> None) \<noteq> requires_dlx p
      then Inl (ValueError ''profile {}: TTL and dead-letter exchange must be set together'')
      else if qp_dlk p \<noteq> None \<and> \<not> requires_dlx p
      then Inl (ValueError ''profile {}: dead_letter_routing_key requires dead_letter_exchange'')
      else Inr ())"

definition make_profile :: "queue_profile \<Rightarrow> queue_profile res" where
  "make_profile p = bind_r (post_init p) (\<lambda>_. Inr p)"

definition declare_arguments :: "queue_profile \<Rightarrow> pydict" where
  "declare_arguments p =
     (let a0 = (if qp_type p = S ''quorum'' then [(S ''x-queue-type'', VStr (S ''quorum''))] else []);
          a1 = (case qp_ttl p of None \<Rightarrow> a0 | Some n \<Rightarrow> dict_set a0 (S ''x-message-ttl'') (VInt n));
          a2 = (case qp_dlx p of None \<Rightarrow> a1 | Some e \<Rightarrow>
                  let b = dict_set a1 (S ''x-dead-letter-exchange'') (VStr e) in
                  (case qp_dlk p of None \<Rightarrow> b | Some k \<Rightarrow>
                     if k \<noteq> [] then dict_set b (S ''x-dead-letter-routing-key'') (VStr k) else b))
      in (case qp_limit p of None \<Rightarrow> a2 | Some n \<Rightarrow> dict_set a2 (S ''x-delivery-limit'') (VInt n)))"

text \<open>\<open>delivery_mode\<close> is None or a value given to \<open>int()\<close>.\<close>

definition assert_delivery_mode :: "queue_profile \<Rightarrow> pyval \<Rightarrow> int res" where
  "assert_delivery_mode p delivery_mode =
     (if delivery_mode = VNone then Inr (qp_delivery_mode p)
      else bind_r (py_int delivery_mode) (\<lambda>mode.
        if qp_durable p \<and> mode \<noteq> DELIVERY_PERSISTENT
        then Inl (ValueError ''profile {}: refusing non-persistent publish (delivery_mode={}) to a durable queue'')
        else if \<not> qp_durable p \<and> mode = DELIVERY_PERSISTENT
        then Inl (ValueError ''profile {}: refusing persistent publish to a non-durable queue'')
        else if mode \<noteq> qp_delivery_mode p
        then Inl (ValueError ''profile {}: delivery_mode {} disagrees with profile delivery_mode {}'')
        else Inr mode))"

text \<open>\<open>properties or {}\<close>: None is the empty dict; a copy is returned.\<close>

definition apply_publish_properties :: "queue_profile \<Rightarrow> pydict option \<Rightarrow> pyval \<Rightarrow> pydict res" where
  "apply_publish_properties p properties delivery_mode =
     (let props = (case properties of None \<Rightarrow> [] | Some d \<Rightarrow> d) in
      bind_r (assert_delivery_mode p
                (if delivery_mode \<noteq> VNone then delivery_mode
                 else dict_get_or props (S ''delivery_mode'') VNone)) (\<lambda>mode.
        Inr (dict_set props (S ''delivery_mode'') (VInt mode))))"

section \<open>Named profiles\<close>

definition durable_at_least_once :: "int \<Rightarrow> pystr \<Rightarrow> pystr \<Rightarrow> int \<Rightarrow> queue_profile res" where
  "durable_at_least_once ttl dlx dlk limit =
     (if dlx = [] then Inl (ValueError ''durable-at-least-once requires dead_letter_exchange'')
      else make_profile \<lparr>qp_name = S ''durable-at-least-once'', qp_type = S ''quorum'', qp_durable = True,
        qp_delivery_mode = DELIVERY_PERSISTENT, qp_ttl = Some ttl, qp_dlx = Some dlx, qp_dlk = Some dlk,
        qp_limit = Some limit\<rparr>)"

definition durable_classic :: "int \<Rightarrow> pystr \<Rightarrow> pystr \<Rightarrow> queue_profile res" where
  "durable_classic ttl dlx dlk =
     (if dlx = [] then Inl (ValueError ''durable-classic requires dead_letter_exchange'')
      else make_profile \<lparr>qp_name = S ''durable-classic'', qp_type = S ''classic'', qp_durable = True,
        qp_delivery_mode = DELIVERY_PERSISTENT, qp_ttl = Some ttl, qp_dlx = Some dlx, qp_dlk = Some dlk,
        qp_limit = None\<rparr>)"

definition transient_fast_path :: "queue_profile res" where
  "transient_fast_path =
     make_profile \<lparr>qp_name = S ''transient-fast-path'', qp_type = S ''classic'', qp_durable = False,
       qp_delivery_mode = DELIVERY_NON_PERSISTENT, qp_ttl = None, qp_dlx = None, qp_dlk = None, qp_limit = None\<rparr>"

definition dlq_terminal :: "queue_profile res" where
  "dlq_terminal =
     make_profile \<lparr>qp_name = S ''dlq-terminal'', qp_type = S ''classic'', qp_durable = True,
       qp_delivery_mode = DELIVERY_PERSISTENT, qp_ttl = None, qp_dlx = None, qp_dlk = None, qp_limit = None\<rparr>"

section \<open>What a profile guarantees\<close>

lemma make_profile_Inr: "make_profile p = Inr q \<longleftrightarrow> q = p \<and> post_init p = Inr ()"
  by (auto simp: make_profile_def bind_r_Inr_iff)

lemma post_init_facts:
  assumes "post_init p = Inr ()"
  shows "qp_delivery_mode p = (if qp_durable p then DELIVERY_PERSISTENT else DELIVERY_NON_PERSISTENT)"
    "qp_ttl p \<noteq> None \<longleftrightarrow> requires_dlx p" "qp_type p = S ''quorum'' \<longrightarrow> qp_limit p \<noteq> None"
    "qp_type p = S ''classic'' \<longrightarrow> qp_limit p = None"
  using assms by (auto simp: post_init_def delivery_modes split: if_splits)

text \<open>
  Durable means persistent: whatever properties and delivery mode are asked for, a publish
  through a profile that exists either raises or carries the delivery mode of the profile, which
  is 2 exactly for durable queues, and every other property is the caller's.\<close>

theorem profile_publishes_its_mode:
  assumes "make_profile q = Inr p" "apply_publish_properties p properties dm = Inr props"
  shows "dict_get props (S ''delivery_mode'') = Some (VInt (if qp_durable p then 2 else 1)) \<and>
    (\<forall>k. k \<noteq> S ''delivery_mode'' \<longrightarrow> dict_get props k = dict_get (case properties of None \<Rightarrow> [] | Some d \<Rightarrow> d) k)"
proof -
  have m: "qp_delivery_mode p = (if qp_durable p then 2 else 1)"
    using post_init_facts(1)[of p] assms(1) by (auto simp: make_profile_Inr delivery_modes)
  have "assert_delivery_mode p v = Inr mode \<Longrightarrow> mode = qp_delivery_mode p" for v mode
    by (auto simp: assert_delivery_mode_def bind_r_Inr_iff split: if_splits)
  then obtain mode where "mode = qp_delivery_mode p"
    "props = dict_set (case properties of None \<Rightarrow> [] | Some d \<Rightarrow> d) (S ''delivery_mode'') (VInt mode)"
    using assms(2) by (auto simp: apply_publish_properties_def Let_def bind_r_Inr_iff)
  then show ?thesis by (simp add: m)
qed

theorem profile_publishes_its_mode_witness:
  "\<exists>p props. dlq_terminal = Inr p \<and> apply_publish_properties p (Some [(S ''app_id'', VInt 3)]) VNone = Inr props \<and>
     dict_get props (S ''delivery_mode'') = Some (VInt 2)"
proof -
  obtain p where p: "dlq_terminal = Inr p" "qp_durable p" "qp_delivery_mode p = 2"
    by (simp add: dlq_terminal_def make_profile_def post_init_def requires_dlx_def delivery_modes)
  then have q: "make_profile p = Inr p" by (auto simp: dlq_terminal_def make_profile_Inr)
  have "\<exists>props. apply_publish_properties p (Some [(S ''app_id'', VInt 3)]) VNone = Inr props"
    by (simp add: apply_publish_properties_def assert_delivery_mode_def dict_get_or_def)
  with profile_publishes_its_mode[OF q] p show ?thesis by fastforce
qed

text \<open>
  The named profiles: with a dead-letter exchange, a time to live and a delivery limit of at
  least one the factories return valid profiles of the type they name and raise otherwise, and the
  arguments they declare are the type, the time to live, the dead-letter settings and the limit.\<close>

theorem named_profiles:
  "((\<exists>p. durable_at_least_once ttl dlx dlk lim = Inr p) \<longleftrightarrow> dlx \<noteq> [] \<and> 1 \<le> ttl \<and> 1 \<le> lim) \<and>
   ((\<exists>p. durable_classic ttl dlx dlk = Inr p) \<longleftrightarrow> dlx \<noteq> [] \<and> 1 \<le> ttl) \<and>
   (\<exists>p. transient_fast_path = Inr p \<and> declare_arguments p = []) \<and>
   (\<exists>p. dlq_terminal = Inr p \<and> declare_arguments p = []) \<and>
   (\<exists>p. durable_at_least_once 60000 (S ''nr.dlx'') (S ''timeout'') 10 = Inr p \<and>
      declare_arguments p =
        [(S ''x-queue-type'', VStr (S ''quorum'')), (S ''x-message-ttl'', VInt 60000),
         (S ''x-dead-letter-exchange'', VStr (S ''nr.dlx'')),
         (S ''x-dead-letter-routing-key'', VStr (S ''timeout'')), (S ''x-delivery-limit'', VInt 10)])"
  by (auto simp: durable_at_least_once_def durable_classic_def transient_fast_path_def dlq_terminal_def
      make_profile_def post_init_def requires_dlx_def delivery_modes declare_arguments_def Let_def)

text \<open>
  An empty dead-letter exchange is taken for none by the validation and for one by the
  declaration: a profile with \<open>dead_letter_exchange=""\<close> and no time to live is accepted, says that
  it needs no dead-letter exchange, and still declares its queue to dead-letter to the default
  exchange.\<close>

theorem empty_dlx_declared:
  "let p = \<lparr>qp_name = [], qp_type = S ''classic'', qp_durable = True, qp_delivery_mode = 2, qp_ttl = None,
       qp_dlx = Some [], qp_dlk = None, qp_limit = None\<rparr> in
     make_profile p = Inr p \<and> \<not> requires_dlx p \<and>
     dict_get (declare_arguments p) (S ''x-dead-letter-exchange'') = Some (VStr [])"
  by (simp add: make_profile_def post_init_def requires_dlx_def delivery_modes declare_arguments_def)

end
