(* ===== verification/StateOps.thy ===== *)
theory StateOps
  imports Prelude
begin

text \<open>
  Operations on a state that may raise: \<open>'s \<Rightarrow> 'a res \<times> 's\<close>. An exception keeps the state changes
  made before it, as in Python.
\<close>

type_synonym ('s, 'a) op = "'s \<Rightarrow> 'a res \<times> 's"

definition ret_s :: "'a \<Rightarrow> ('s, 'a) op" where
  "ret_s x s = (Inr x, s)"

definition raise_s :: "py_exc \<Rightarrow> ('s, 'a) op" where
  "raise_s e s = (Inl e, s)"

definition bind_s :: "('s, 'a) op \<Rightarrow> ('a \<Rightarrow> ('s, 'b) op) \<Rightarrow> ('s, 'b) op" where
  "bind_s m f s = (case m s of (Inl e, s') \<Rightarrow> (Inl e, s') | (Inr x, s') \<Rightarrow> f x s')"

text \<open>A statement whose value is not used, a change of the state, a read of it, a fallible value.\<close>

definition seq_s :: "('s, 'a) op \<Rightarrow> ('s, 'b) op \<Rightarrow> ('s, 'b) op" where
  "seq_s m k = bind_s m (\<lambda>_. k)"

definition modify_s :: "('s \<Rightarrow> 's) \<Rightarrow> ('s, unit) op" where
  "modify_s f s = (Inr (), f s)"

definition get_s :: "('s \<Rightarrow> 'a) \<Rightarrow> ('s, 'a) op" where
  "get_s f s = (Inr (f s), s)"

definition lift_s :: "'a res \<Rightarrow> ('s, 'a) op" where
  "lift_s r s = (r, s)"

definition when_s :: "bool \<Rightarrow> ('s, unit) op \<Rightarrow> ('s, unit) op" where
  "when_s b m = (if b then m else ret_s ())"

text \<open>An operation on a part of the state.\<close>

definition zoom_s :: "('s \<Rightarrow> 't) \<Rightarrow> ('t \<Rightarrow> 's \<Rightarrow> 's) \<Rightarrow> ('t, 'a) op \<Rightarrow> ('s, 'a) op" where
  "zoom_s get put m s = (case m (get s) of (r, t) \<Rightarrow> (r, put t s))"

named_theorems op_simps \<open>evaluation of operations\<close>

lemma op_eval [op_simps]:
  "ret_s x s = (Inr x, s)" "raise_s e s = (Inl e, s)" "modify_s f s = (Inr (), f s)"
  "get_s g s = (Inr (g s), s)" "lift_s r s = (r, s)"
  by (simp_all add: ret_s_def raise_s_def modify_s_def get_s_def lift_s_def)

lemma bind_s_eval [op_simps]:
  "m s = (Inr x, s') \<Longrightarrow> bind_s m f s = f x s'"
  "m s = (Inl e, s') \<Longrightarrow> bind_s m f s = (Inl e, s')"
  by (simp_all add: bind_s_def)

lemma seq_s_eval [op_simps]:
  "m s = (Inr x, s') \<Longrightarrow> seq_s m k s = k s'"
  "m s = (Inl e, s') \<Longrightarrow> seq_s m k s = (Inl e, s')"
  by (simp_all add: seq_s_def bind_s_eval)

lemma when_s_eval [op_simps]: "when_s True m = m" "when_s False m = ret_s ()"
  by (simp_all add: when_s_def)

lemma bind_s_cases:
  obtains (raise) e s' where "m s = (Inl e, s')" "bind_s m f s = (Inl e, s')"
    | (cont) x s' where "m s = (Inr x, s')" "bind_s m f s = f x s'"
  by (cases "m s"; cases "fst (m s)") (auto simp: bind_s_def)

text \<open>
  Preservation: an operation that keeps a relation between the states before and after keeps it
  through every composition. With a reflexive and transitive relation this is how invariants,
  monotone facts and frame conditions are proved.
\<close>

definition keeps :: "('s \<Rightarrow> 's \<Rightarrow> bool) \<Rightarrow> ('s, 'a) op \<Rightarrow> bool" where
  "keeps R m \<longleftrightarrow> (\<forall>s. R s (snd (m s)))"

lemma keepsI: "(\<And>s. R s (snd (m s))) \<Longrightarrow> keeps R m"
  by (simp add: keeps_def)

lemma keepsD: "keeps R m \<Longrightarrow> R s (snd (m s))"
  by (simp add: keeps_def)

lemma keeps_pure [intro]: "reflp R \<Longrightarrow> keeps R (ret_s x)" "reflp R \<Longrightarrow> keeps R (raise_s e)"
  "reflp R \<Longrightarrow> keeps R (get_s g)" "reflp R \<Longrightarrow> keeps R (lift_s r)"
  by (simp_all add: keeps_def op_simps reflp_def)

lemma keeps_bind [intro]: "transp R \<Longrightarrow> keeps R m \<Longrightarrow> (\<And>x. keeps R (f x)) \<Longrightarrow> keeps R (bind_s m f)"
  unfolding keeps_def bind_s_def
  by (smt (verit) case_prod_conv snd_conv sum.case_eq_if prod.collapse split_beta transpD)

lemma keeps_seq [intro]: "transp R \<Longrightarrow> keeps R m \<Longrightarrow> keeps R k \<Longrightarrow> keeps R (seq_s m k)"
  unfolding seq_s_def by (rule keeps_bind)

lemma keeps_when [intro]: "reflp R \<Longrightarrow> keeps R m \<Longrightarrow> keeps R (when_s b m)"
  by (cases b) (auto simp: op_simps)

lemma keeps_modify: "(\<And>s. R s (f s)) \<Longrightarrow> keeps R (modify_s f)"
  by (simp add: keeps_def op_simps)

lemma keeps_zoom: "(\<And>s t. R s (put t s)) \<Longrightarrow> keeps R (zoom_s get put m)"
  by (simp add: keeps_def zoom_s_def split: prod.split)

end
