(* ===== verification/Conn.thy ===== *)
theory Conn
  imports StateOps Frame Methods ConnectionSM ChannelSM Confirm
begin

text \<open>
  \<^verbatim>\<open>src/src/nuropb_rmq/transport/connection.py\<close>: the state of \<open>AmqpConnection\<close> and the operations
  every other one is built from. The socket is the bytes written to it; the futures of method
  waiters and of publisher confirms are two heaps; the asyncio queues are lists. Tasks interleave
  only at awaits, so that the code between two awaits is one operation here.
\<close>

record conn_config =
  cfg_host :: pystr
  cfg_virtual_host :: pystr
  cfg_username :: pystr
  cfg_password :: pystr
  cfg_heartbeat :: int
  cfg_frame_max :: int
  cfg_tls :: bool
  cfg_tls_profile :: pystr
  cfg_server_hostname :: "pystr option"
  cfg_custom_sans :: "pystr list"

record returned =
  r_code :: int
  r_text :: pystr
  r_exchange :: pystr
  r_key :: pystr
  r_body :: bytes
  r_props :: pydict

record incoming =
  i_tag :: int
  i_exchange :: pystr
  i_key :: pystr
  i_body :: bytes
  i_props :: pydict
  i_redelivered :: bool
  i_ctag :: pystr

text \<open>An entry of an \<open>asyncio.Queue\<close>: a message or the object that wakes a receiver on loss.\<close>

datatype 'm item = Item 'm | LossSentinel

text \<open>The content being received on a channel; \<open>remaining\<close> is None before the header.\<close>

datatype slot_kind = SDeliver amqp_method | SReturn amqp_method

record slot =
  sl_kind :: slot_kind
  sl_props :: pydict
  sl_body :: bytes
  sl_remaining :: "int option"

text \<open>
  The points at which the code calls one of the callbacks that can be set, in order; the call happens if it is set then. A
  session sets its own \<open>on_loss\<close> in \<open>start\<close>, before it connects, so that the point and the call are the same there.
\<close>

datatype conn_note = OnLoss py_exc | OnBlocked pystr | OnUnblocked | OnReturn returned

record conn =
  c_config :: conn_config
  c_sm :: conn_sm
  c_writer :: bool
  c_out :: bytes
  c_buffer :: bytes
  c_channels :: "(int \<times> chan_sm) list"
  c_waiters :: "((int \<times> int \<times> int) \<times> nat) list"
  c_wfuts :: "amqp_method fheap"
  c_deliveries :: "incoming item list"
  c_closed :: bool
  c_lost :: "py_exc option"
  c_frame_max :: int
  c_heartbeat :: int
  c_blocked :: bool
  c_confirm :: "(int \<times> tracker) list"
  c_cfuts :: "unit fheap"
  c_mandatory :: "(int \<times> int list) list"
  c_return_by_tag :: "(int \<times> (int \<times> returned) list) list"
  c_returns :: "returned item list"
  c_pending :: "(int \<times> slot) list"
  c_notes :: "conn_note list"

definition conn_init :: "conn_config \<Rightarrow> conn" where
  "conn_init cfg = \<lparr>c_config = cfg, c_sm = conn_sm_init, c_writer = False, c_out = [], c_buffer = [],
     c_channels = [], c_waiters = [], c_wfuts = [], c_deliveries = [], c_closed = False, c_lost = None,
     c_frame_max = cfg_frame_max cfg, c_heartbeat = 0, c_blocked = False, c_confirm = [], c_cfuts = [],
     c_mandatory = [], c_return_by_tag = [], c_returns = [], c_pending = [], c_notes = []\<rparr>"

type_synonym 'a cop = "(conn, 'a) op"

section \<open>State machines of the connection and its channels\<close>

definition with_sm :: "(conn_sm \<Rightarrow> 'a res \<times> conn_sm) \<Rightarrow> 'a cop" where
  "with_sm f = zoom_s c_sm (\<lambda>sm c. c\<lparr>c_sm := sm\<rparr>) f"

text \<open>\<open>self._channels[channel_id]\<close> raises KeyError; the machine is a shared object.\<close>

definition with_channel :: "int \<Rightarrow> (chan_sm \<Rightarrow> 'a res \<times> chan_sm) \<Rightarrow> 'a cop" where
  "with_channel ch f c =
     (case dict_get (c_channels c) ch of
        None \<Rightarrow> (Inl (KeyError ''{}''), c)
      | Some sm \<Rightarrow> (case f sm of (r, sm') \<Rightarrow> (r, c\<lparr>c_channels := dict_set (c_channels c) ch sm'\<rparr>)))"

definition channel_open_for_ops :: "int \<Rightarrow> unit cop" where
  "channel_open_for_ops ch = with_channel ch ch_assert_open_for_ops"

section \<open>Writing\<close>

definition write_frame :: "frame \<Rightarrow> unit cop" where
  "write_frame f c =
     (if \<not> c_writer c then (Inl (ProtocolError ''not connected''), c)
      else case encode_frame f (c_frame_max c) of
        Inl e \<Rightarrow> (Inl e, c)
      | Inr bs \<Rightarrow> (Inr (), c\<lparr>c_out := c_out c @ bs\<rparr>))"

text \<open>
  \<open>drain\<close> of a transport whose buffer is not full: the await returns at once. What happens when it suspends or raises
  is in the two last rules of \<open>conn_next\<close>.
\<close>

definition drain :: "unit cop" where
  "drain c = (if c_writer c then (Inr (), c) else (Inl (ProtocolError ''not connected''), c))"

definition send_frame :: "frame \<Rightarrow> unit cop" where
  "send_frame f = seq_s (write_frame f) drain"

definition send_method :: "int \<Rightarrow> amqp_method \<Rightarrow> unit cop" where
  "send_method ch m =
     bind_s (lift_s (encode_method m)) (\<lambda>p. send_frame \<lparr>frame_type = METHOD, channel = ch, payload = p\<rparr>)"

abbreviation meth :: "int \<Rightarrow> int \<Rightarrow> pydict \<Rightarrow> amqp_method" where
  "meth cid mid args \<equiv> \<lparr>m_class = cid, m_method = mid, m_args = args\<rparr>"

section \<open>Waiting for a method\<close>

text \<open>
  \<open>_expect\<close> up to its await: a new future under the key, replacing one that is there.
  \<open>expect_end\<close> is the rest of it once the future is done, with the \<open>finally\<close> that drops the entry
  of the key; \<open>expect_timeout\<close> is \<open>wait_for\<close> giving up, which cancels the future.
\<close>

definition expect_begin :: "int \<times> int \<times> int \<Rightarrow> nat cop" where
  "expect_begin key c =
     (case create_future (c_wfuts c) of (fut, h) \<Rightarrow>
        (Inr fut, c\<lparr>c_waiters := dict_set (c_waiters c) key fut, c_wfuts := h\<rparr>))"

definition expect_end :: "int \<times> int \<times> int \<Rightarrow> nat \<Rightarrow> amqp_method cop" where
  "expect_end key fut c =
     ((case c_wfuts c ! fut of
         Result m \<Rightarrow> Inr m
       | Failed e \<Rightarrow> Inl e
       | Cancelled \<Rightarrow> Inl CancelledError
       | Pending \<Rightarrow> Inl (Unmodelled ''still waiting'')),
      c\<lparr>c_waiters := dict_del (c_waiters c) key\<rparr>)"

definition expect_timeout :: "int \<times> int \<times> int \<Rightarrow> nat \<Rightarrow> amqp_method cop" where
  "expect_timeout key fut c =
     (Inl TimeoutError,
      c\<lparr>c_waiters := dict_del (c_waiters c) key, c_wfuts := settle fut Cancelled (c_wfuts c)\<rparr>)"

section \<open>Losing the connection\<close>

definition fail_waiters :: "py_exc \<Rightarrow> conn \<Rightarrow> conn" where
  "fail_waiters e c = c\<lparr>c_wfuts := settle_list (map snd (c_waiters c)) (Failed e) (c_wfuts c)\<rparr>"

text \<open>\<open>for tracker in self._confirm.values(): tracker.fail_all(exc)\<close>.\<close>

fun fail_trackers :: "py_exc \<Rightarrow> (int \<times> tracker) list \<Rightarrow> unit fheap \<Rightarrow> (int \<times> tracker) list \<times> unit fheap" where
  "fail_trackers e [] h = ([], h)"
| "fail_trackers e ((ch, t) # ts) h =
     (case tracker_fail_all e (t, h) of (t', h') \<Rightarrow>
        (case fail_trackers e ts h' of (ts', h'') \<Rightarrow> ((ch, t') # ts', h'')))"

definition as_lost :: "py_exc \<Rightarrow> py_exc" where
  "as_lost e = (if is_connection_lost e then e else ConnectionLost (exc_text e))"

definition notify_loss :: "py_exc \<Rightarrow> conn \<Rightarrow> conn" where
  "notify_loss e c =
     (if c_lost c \<noteq> None then c
      else
        let x = as_lost e;
            c1 = fail_waiters x (c\<lparr>c_lost := Some x\<rparr>);
            (ts, h) = fail_trackers x (c_confirm c1) (c_cfuts c1)
        in c1\<lparr>c_confirm := ts, c_cfuts := h, c_mandatory := [], c_return_by_tag := [],
              c_deliveries := c_deliveries c1 @ [LossSentinel], c_returns := c_returns c1 @ [LossSentinel],
              c_notes := c_notes c1 @ [OnLoss x]\<rparr>)"

definition is_lost :: "conn \<Rightarrow> bool" where
  "is_lost c \<longleftrightarrow> c_lost c \<noteq> None"

end
