(* ===== verification/ConnReader.thy ===== *)
theory ConnReader
  imports Conn
begin

text \<open>
  \<^verbatim>\<open>src/src/nuropb_rmq/transport/connection.py\<close>: the read loop. \<open>handle_frame\<close> is what one turn of
  the inner loop does with a frame, \<open>process_buffer\<close> the inner loop, \<open>on_chunk\<close> one turn of the
  outer loop with the exception handlers around it. Methods and headers come from the decoder, so
  that \<open>str()\<close>, \<open>int()\<close> and \<open>bool()\<close> of their arguments are the arguments themselves.
\<close>

section \<open>Arguments of decoded methods\<close>

fun str_of :: "pyval \<Rightarrow> pystr" where
  "str_of (VStr s) = s"
| "str_of _ = []"

definition arg_str :: "amqp_method \<Rightarrow> string \<Rightarrow> pystr" where
  "arg_str m k = str_of (dict_get_or (m_args m) (S k) (VStr []))"

definition arg_int :: "amqp_method \<Rightarrow> string \<Rightarrow> int \<Rightarrow> int" where
  "arg_int m k d = int_of (dict_get_or (m_args m) (S k) (VInt d))"

definition arg_bool :: "amqp_method \<Rightarrow> string \<Rightarrow> bool" where
  "arg_bool m k = truthy (dict_get_or (m_args m) (S k) VNone)"

section \<open>Finished content\<close>

definition set_pending :: "int \<Rightarrow> slot \<Rightarrow> conn \<Rightarrow> conn" where
  "set_pending ch sl c = c\<lparr>c_pending := dict_set (c_pending c) ch sl\<rparr>"

definition finish_return :: "int \<Rightarrow> amqp_method \<Rightarrow> bytes \<Rightarrow> pydict \<Rightarrow> conn \<Rightarrow> conn" where
  "finish_return ch m body props c =
     (let r = \<lparr>r_code = arg_int m ''reply_code'' 312, r_text = arg_str m ''reply_text'',
               r_exchange = arg_str m ''exchange'', r_key = arg_str m ''routing_key'',
               r_body = body, r_props = props\<rparr>;
          c1 = (case dict_get_or (c_mandatory c) ch [] of
                  [] \<Rightarrow> c
                | tg # tgs \<Rightarrow>
                    c\<lparr>c_mandatory := dict_set (c_mandatory c) ch tgs,
                      c_return_by_tag := dict_set (c_return_by_tag c) ch
                        (dict_set (dict_get_or (c_return_by_tag c) ch []) tg r)\<rparr>)
      in c1\<lparr>c_returns := c_returns c1 @ [Item r], c_notes := c_notes c1 @ [OnReturn r]\<rparr>)"

definition finish_delivery :: "int \<Rightarrow> slot \<Rightarrow> conn \<Rightarrow> conn" where
  "finish_delivery ch sl c0 =
     (let c = c0\<lparr>c_pending := dict_del (c_pending c0) ch\<rparr> in
      case sl_kind sl of
        SReturn m \<Rightarrow> finish_return ch m (sl_body sl) (sl_props sl) c
      | SDeliver m \<Rightarrow>
          c\<lparr>c_deliveries := c_deliveries c @
             [Item \<lparr>i_tag = arg_int m ''delivery_tag'' 0, i_exchange = arg_str m ''exchange'',
                    i_key = arg_str m ''routing_key'', i_body = sl_body sl, i_props = sl_props sl,
                    i_redelivered = arg_bool m ''redelivered'', i_ctag = arg_str m ''consumer_tag''\<rparr>]\<rparr>)"

section \<open>Methods\<close>

definition clear_mandatory_tags :: "int \<Rightarrow> int \<Rightarrow> bool \<Rightarrow> conn \<Rightarrow> conn" where
  "clear_mandatory_tags ch delivery_tag multiple c =
     (let dq = dict_get_or (c_mandatory c) ch [] in
      if dq = [] then c
      else c\<lparr>c_mandatory := dict_set (c_mandatory c) ch
               (if multiple then filter (\<lambda>t. t > delivery_tag) dq else remove1 delivery_tag dq)\<rparr>)"

definition resolve_confirm :: "int \<Rightarrow> amqp_method \<Rightarrow> tracker \<Rightarrow> conn \<Rightarrow> conn" where
  "resolve_confirm ch m t c =
     (let tg = arg_int m ''delivery_tag'' 0; multiple = arg_bool m ''multiple'';
          c1 = clear_mandatory_tags ch tg multiple c;
          (t', h') = (if m_method m = BASIC_ACK then tracker_on_ack tg multiple (t, c_cfuts c1)
                      else tracker_on_nack tg multiple (t, c_cfuts c1))
      in c1\<lparr>c_confirm := dict_set (c_confirm c1) ch t', c_cfuts := h'\<rparr>)"

text \<open>The end of the method branch: hand the method to its waiter, if there is one.\<close>

definition deliver_to_waiter :: "int \<Rightarrow> amqp_method \<Rightarrow> conn \<Rightarrow> conn" where
  "deliver_to_waiter ch m c =
     (case dict_get (c_waiters c) (ch, m_class m, m_method m) of
        None \<Rightarrow> c
      | Some fut \<Rightarrow> c\<lparr>c_wfuts := settle fut (Result m) (c_wfuts c)\<rparr>)"

text \<open>\<open>try: send close-ok finally: reject\<close>: the rejection is raised whether or not the send did.\<close>

definition broker_close :: "unit cop" where
  "broker_close c =
     (case send_method 0 (meth CONNECTION CONNECTION_CLOSE_OK []) c of
        (_, c1) \<Rightarrow> with_sm (sm_reject ''broker closed: {}'') c1)"

definition enabled_tracker :: "conn \<Rightarrow> int \<Rightarrow> tracker option" where
  "enabled_tracker c ch =
     (case dict_get (c_confirm c) ch of
        None \<Rightarrow> None
      | Some t \<Rightarrow> if enabled t then Some t else None)"

definition new_slot :: "slot_kind \<Rightarrow> slot" where
  "new_slot k = \<lparr>sl_kind = k, sl_props = [], sl_body = [], sl_remaining = None\<rparr>"

definition handle_method :: "int \<Rightarrow> amqp_method \<Rightarrow> unit cop" where
  "handle_method ch m c =
     (let cid = m_class m; mid = m_method m in
      if cid = CONNECTION \<and> mid = CONNECTION_SECURE then
        with_sm (sm_reject ''connection.secure not supported (unexpected SASL challenge after start-ok)'') c
      else if cid = CONNECTION \<and> mid = CONNECTION_BLOCKED then
        (Inr (), c\<lparr>c_blocked := True, c_notes := c_notes c @ [OnBlocked (arg_str m ''reason'')]\<rparr>)
      else if cid = CONNECTION \<and> mid = CONNECTION_UNBLOCKED then
        (Inr (), c\<lparr>c_blocked := False, c_notes := c_notes c @ [OnUnblocked]\<rparr>)
      else if cid = BASIC \<and> mid = BASIC_DELIVER then (Inr (), set_pending ch (new_slot (SDeliver m)) c)
      else if cid = BASIC \<and> mid = BASIC_RETURN then (Inr (), set_pending ch (new_slot (SReturn m)) c)
      else if cid = BASIC \<and> (mid = BASIC_ACK \<or> mid = BASIC_NACK) \<and> enabled_tracker c ch \<noteq> None then
        (Inr (), resolve_confirm ch m (the (enabled_tracker c ch)) c)
      else if cid = CONNECTION \<and> mid = CONNECTION_CLOSE then broker_close c
      else (Inr (), deliver_to_waiter ch m c))"

section \<open>Content\<close>

definition handle_header :: "int \<Rightarrow> bytes \<Rightarrow> unit cop" where
  "handle_header ch data c =
     (case decode_content_header data of
        Inl e \<Rightarrow> (Inl e, c)
      | Inr (class_id, body_size, props) \<Rightarrow>
          (case dict_get (c_pending c) ch of
             None \<Rightarrow> with_sm (sm_reject ''content header without deliver or return'') c
           | Some sl \<Rightarrow>
               let sl' = sl\<lparr>sl_props := props, sl_remaining := Some body_size\<rparr>; c1 = set_pending ch sl' c in
               (Inr (), if body_size = 0 then finish_delivery ch sl' c1 else c1)))"

definition handle_body :: "int \<Rightarrow> bytes \<Rightarrow> unit cop" where
  "handle_body ch data c =
     (case dict_get (c_pending c) ch of
        None \<Rightarrow> with_sm (sm_reject ''body frame without header'') c
      | Some sl \<Rightarrow>
          (case sl_remaining sl of
             None \<Rightarrow> with_sm (sm_reject ''body frame without header'') c
           | Some rem \<Rightarrow>
               let plen = int (length data) in
               if rem = plen \<and> sl_body sl = [] then
                 (let sl' = sl\<lparr>sl_body := data, sl_remaining := Some 0\<rparr> in
                  (Inr (), finish_delivery ch sl' (set_pending ch sl' c)))
               else
                 (let sl' = sl\<lparr>sl_body := sl_body sl @ data, sl_remaining := Some (rem - plen)\<rparr>;
                      c1 = set_pending ch sl' c in
                  if rem - plen < 0 then with_sm (sm_reject ''body exceeded content header size'') c1
                  else (Inr (), if rem - plen = 0 then finish_delivery ch sl' c1 else c1))))"

definition handle_frame :: "frame \<Rightarrow> unit cop" where
  "handle_frame f c =
     (case frame_type f of
        HEARTBEAT \<Rightarrow> (Inr (), c)
      | METHOD \<Rightarrow>
          (case decode_method (payload f) of
             Inl e \<Rightarrow> (Inl e, c)
           | Inr m \<Rightarrow> handle_method (channel f) m c)
      | HEADER \<Rightarrow> handle_header (channel f) (payload f) c
      | BODY \<Rightarrow> handle_body (channel f) (payload f) c)"

section \<open>The loops\<close>

definition set_buffer :: "bytes \<Rightarrow> conn \<Rightarrow> conn" where
  "set_buffer b c = c\<lparr>c_buffer := b\<rparr>"

text \<open>
  The inner \<open>while True\<close>: take a frame off the buffer and handle it, until the buffer holds no
  complete frame. The buffer shrinks with every frame.
\<close>

function process_frames :: "bytes \<Rightarrow> unit cop" where
  "process_frames buf c =
     (case decode_frame buf (c_frame_max c) 0 of
        Inl e \<Rightarrow>
          if is_incomplete e then (Inr (), set_buffer buf c)
          else with_sm (sm_reject (exc_text e)) (set_buffer buf c)
      | Inr (f, nxt) \<Rightarrow>
          (case handle_frame f (set_buffer (drop nxt buf) c) of
             (Inl e, c') \<Rightarrow> (Inl e, c')
           | (Inr _, c') \<Rightarrow>
               if nxt = 0 \<or> length buf < nxt then (Inr (), c') else process_frames (drop nxt buf) c'))"
  by pat_completeness auto
termination
  by (relation "measure (\<lambda>(buf, c). length buf)") auto

declare process_frames.simps [simp del]

text \<open>
  One turn of \<open>while not self._closed\<close>, from the end of its \<open>read\<close> on: what was read (nothing at
  the end of the stream), what is done with it and the test for the next turn. The flag was tested
  before the \<open>read\<close>, so that what arrives after a \<open>close\<close> is still handled, once. \<open>Inr True\<close> is
  another turn, \<open>Inr False\<close> the end of the task; an exception ends the task too, after the handlers
  have lost the connection.
\<close>

definition loop_error :: "py_exc \<Rightarrow> bool cop" where
  "loop_error e c =
     (if is_protocol_error e then (Inl e, notify_loss e c)
      else case with_sm (sm_reject (exc_text e)) c of
        (Inl pe, c1) \<Rightarrow> (Inr False, notify_loss pe c1)
      | (Inr _, c1) \<Rightarrow> (Inr False, notify_loss (ConnectionLost (exc_text e)) c1))"

definition on_chunk :: "bytes \<Rightarrow> bool cop" where
  "on_chunk chunk c =
     (case (if chunk = [] then with_sm (sm_reject ''broker closed connection'') c
            else process_frames (c_buffer c @ chunk) c) of
        (Inl e, c1) \<Rightarrow> loop_error e c1
      | (Inr _, c1) \<Rightarrow> (Inr (\<not> c_closed c1), c1))"

end
