(* ===== verification/ConnOps.thy ===== *)
theory ConnOps
  imports ConnReader QueueProfile
begin

text \<open>
  \<^verbatim>\<open>src/src/nuropb_rmq/transport/connection.py\<close>: the operations of a connection. An operation that
  waits for the broker is two definitions: what it does before the await, which ends with the
  future it waits for, and what it does with the method the future brings.
\<close>

section \<open>Channels\<close>

definition sm_open_or_raise :: "unit cop" where
  "sm_open_or_raise c = (if sm_is_open (c_sm c) then (Inr (), c) else (Inl (ProtocolError ''connection not open''), c))"

definition open_channel_begin :: "int \<Rightarrow> nat cop" where
  "open_channel_begin ch =
     seq_s sm_open_or_raise
    (bind_s (get_s (\<lambda>c. dict_has (c_channels c) ch)) (\<lambda>exists.
       if exists then raise_s (ProtocolError ''channel {} already exists'')
       else
         seq_s (modify_s (\<lambda>c. c\<lparr>c_channels := dict_set (c_channels c) ch (chan_sm_init ch),
                               c_confirm := dict_set (c_confirm c) ch tracker_init,
                               c_mandatory := dict_set (c_mandatory c) ch [],
                               c_return_by_tag := dict_set (c_return_by_tag c) ch []\<rparr>))
        (seq_s (with_channel ch ch_on_open_sent)
        (seq_s (send_method ch (meth CHANNEL CHANNEL_OPEN [(S ''out_of_band'', VStr [])]))
          (expect_begin (ch, CHANNEL, CHANNEL_OPEN_OK))))))"

definition open_channel_end :: "int \<Rightarrow> nat \<Rightarrow> int cop" where
  "open_channel_end ch fut =
     bind_s (expect_end (ch, CHANNEL, CHANNEL_OPEN_OK) fut) (\<lambda>_.
       seq_s (with_channel ch ch_on_open_ok) (ret_s ch))"

text \<open>\<open>confirm_select\<close>; no future when the channel already is in confirm mode.\<close>

definition tracker_of :: "conn \<Rightarrow> int \<Rightarrow> tracker" where
  "tracker_of c ch = dict_get_or (c_confirm c) ch tracker_init"

definition confirm_select_begin :: "int \<Rightarrow> nat option cop" where
  "confirm_select_begin ch =
     seq_s (channel_open_for_ops ch)
    (seq_s (modify_s (\<lambda>c. c\<lparr>c_confirm := dict_set (c_confirm c) ch (tracker_of c ch)\<rparr>))
    (bind_s (get_s (\<lambda>c. enabled (tracker_of c ch))) (\<lambda>on.
       if on then ret_s None
       else seq_s (send_method ch (meth CONFIRM CONFIRM_SELECT [(S ''nowait'', VBool False)]))
              (bind_s (expect_begin (ch, CONFIRM, CONFIRM_SELECT_OK)) (\<lambda>fut. ret_s (Some fut))))))"

definition confirm_select_end :: "int \<Rightarrow> nat \<Rightarrow> unit cop" where
  "confirm_select_end ch fut =
     seq_s (expect_end (ch, CONFIRM, CONFIRM_SELECT_OK) fut)
       (modify_s (\<lambda>c. c\<lparr>c_confirm := dict_set (c_confirm c) ch (tracker_enable (tracker_of c ch))\<rparr>))"

section \<open>Requests answered by one method\<close>

text \<open>The common shape: the channel must be open, the method is sent and its answer awaited.\<close>

definition request :: "int \<Rightarrow> amqp_method \<Rightarrow> int \<Rightarrow> int \<Rightarrow> nat cop" where
  "request ch m cid mid =
     seq_s (channel_open_for_ops ch) (seq_s (send_method ch m) (expect_begin (ch, cid, mid)))"

definition answer_arg :: "int \<Rightarrow> int \<Rightarrow> int \<Rightarrow> string \<Rightarrow> nat \<Rightarrow> pystr cop" where
  "answer_arg ch cid mid k fut =
     bind_s (expect_end (ch, cid, mid) fut) (\<lambda>ok.
       bind_s (lift_s (dict_item (m_args ok) (S k))) (\<lambda>v. ret_s (str_of v)))"

definition queue_declare_begin :: "int \<Rightarrow> pystr \<Rightarrow> bool \<Rightarrow> bool \<Rightarrow> bool \<Rightarrow> pydict \<Rightarrow> nat cop" where
  "queue_declare_begin ch queue durable exclusive auto_delete arguments =
     request ch (meth QUEUE QUEUE_DECLARE
       [(S ''queue'', VStr queue), (S ''durable'', VBool durable), (S ''exclusive'', VBool exclusive),
        (S ''auto_delete'', VBool auto_delete), (S ''arguments'', VDict arguments)])
       QUEUE QUEUE_DECLARE_OK"

definition queue_declare_end :: "int \<Rightarrow> nat \<Rightarrow> pystr cop" where
  "queue_declare_end ch = answer_arg ch QUEUE QUEUE_DECLARE_OK ''queue''"

definition exchange_declare_begin :: "int \<Rightarrow> pystr \<Rightarrow> pystr \<Rightarrow> bool \<Rightarrow> bool \<Rightarrow> nat cop" where
  "exchange_declare_begin ch exchange exchange_type durable auto_delete =
     request ch (meth EXCHANGE EXCHANGE_DECLARE
       [(S ''exchange'', VStr exchange), (S ''type'', VStr exchange_type), (S ''durable'', VBool durable),
        (S ''auto_delete'', VBool auto_delete), (S ''arguments'', VDict [])])
       EXCHANGE EXCHANGE_DECLARE_OK"

definition exchange_declare_end :: "int \<Rightarrow> nat \<Rightarrow> unit cop" where
  "exchange_declare_end ch fut = seq_s (expect_end (ch, EXCHANGE, EXCHANGE_DECLARE_OK) fut) (ret_s ())"

definition queue_bind_begin :: "int \<Rightarrow> pystr \<Rightarrow> pystr \<Rightarrow> pystr \<Rightarrow> nat cop" where
  "queue_bind_begin ch queue exchange routing_key =
     request ch (meth QUEUE QUEUE_BIND
       [(S ''queue'', VStr queue), (S ''exchange'', VStr exchange), (S ''routing_key'', VStr routing_key),
        (S ''arguments'', VDict [])])
       QUEUE QUEUE_BIND_OK"

definition queue_bind_end :: "int \<Rightarrow> nat \<Rightarrow> unit cop" where
  "queue_bind_end ch fut = seq_s (expect_end (ch, QUEUE, QUEUE_BIND_OK) fut) (ret_s ())"

definition basic_consume_begin :: "int \<Rightarrow> pystr \<Rightarrow> pystr \<Rightarrow> nat cop" where
  "basic_consume_begin ch queue consumer_tag =
     request ch (meth BASIC BASIC_CONSUME
       [(S ''queue'', VStr queue), (S ''consumer_tag'', VStr consumer_tag), (S ''no_ack'', VBool False),
        (S ''exclusive'', VBool False), (S ''arguments'', VDict [])])
       BASIC BASIC_CONSUME_OK"

definition basic_consume_end :: "int \<Rightarrow> nat \<Rightarrow> pystr cop" where
  "basic_consume_end ch = answer_arg ch BASIC BASIC_CONSUME_OK ''consumer_tag''"

definition basic_cancel_begin :: "int \<Rightarrow> pystr \<Rightarrow> nat cop" where
  "basic_cancel_begin ch consumer_tag =
     request ch (meth BASIC BASIC_CANCEL [(S ''consumer_tag'', VStr consumer_tag), (S ''nowait'', VBool False)])
       BASIC BASIC_CANCEL_OK"

definition basic_cancel_end :: "int \<Rightarrow> nat \<Rightarrow> pystr cop" where
  "basic_cancel_end ch = answer_arg ch BASIC BASIC_CANCEL_OK ''consumer_tag''"

definition update_secret_begin :: "pyval \<Rightarrow> pystr \<Rightarrow> nat cop" where
  "update_secret_begin new_secret reason =
     seq_s sm_open_or_raise
    (seq_s (with_sm (assert_can_send_connection_method CONNECTION_UPDATE_SECRET))
    (seq_s (send_method 0 (meth CONNECTION CONNECTION_UPDATE_SECRET
              [(S ''new_secret'', new_secret), (S ''reason'', VStr reason)]))
       (expect_begin (0, CONNECTION, CONNECTION_UPDATE_SECRET_OK))))"

definition update_secret_end :: "pyval \<Rightarrow> nat \<Rightarrow> unit cop" where
  "update_secret_end new_secret fut =
     seq_s (expect_end (0, CONNECTION, CONNECTION_UPDATE_SECRET_OK) fut)
    (bind_s (lift_s (case new_secret of VBytes b \<Rightarrow> utf8_decode b | v \<Rightarrow> Inr (str_of v))) (\<lambda>pw.
       modify_s (\<lambda>c. c\<lparr>c_config := (c_config c)\<lparr>cfg_password := pw\<rparr>\<rparr>)))"

text \<open>\<open>queue_declare_profile\<close> up to the declaration of its dead-letter exchange.\<close>

definition check_profile_declare :: "queue_profile \<Rightarrow> bool \<Rightarrow> bool option \<Rightarrow> bool res" where
  "check_profile_declare p exclusive auto_delete =
     (if exclusive \<and> qp_type p = S ''quorum'' then Inl (ValueError ''quorum queues cannot be exclusive'')
      else
        let ad = (case auto_delete of None \<Rightarrow> \<not> qp_durable p | Some b \<Rightarrow> b) in
        if ad \<and> qp_type p = S ''quorum'' then Inl (ValueError ''quorum queues cannot be auto-delete'')
        else if ad \<and> qp_durable p then Inl (ValueError ''profile {}: durable queues must not be auto_delete'')
        else Inr ad)"

definition ensure_profile_dlx_begin :: "int \<Rightarrow> queue_profile \<Rightarrow> nat option cop" where
  "ensure_profile_dlx_begin ch p =
     (case qp_dlx p of
        Some e \<Rightarrow>
          if requires_dlx p
          then bind_s (exchange_declare_begin ch e (S ''topic'') True False) (\<lambda>fut. ret_s (Some fut))
          else ret_s None
      | None \<Rightarrow> ret_s None)"

definition queue_declare_profile_begin :: "int \<Rightarrow> queue_profile \<Rightarrow> bool \<Rightarrow> bool option \<Rightarrow> (bool \<times> nat option) cop" where
  "queue_declare_profile_begin ch p exclusive auto_delete =
     bind_s (lift_s (check_profile_declare p exclusive auto_delete)) (\<lambda>ad.
       bind_s (ensure_profile_dlx_begin ch p) (\<lambda>fut. ret_s (ad, fut)))"

definition queue_declare_profile_declare :: "int \<Rightarrow> pystr \<Rightarrow> queue_profile \<Rightarrow> bool \<Rightarrow> bool \<Rightarrow> nat cop" where
  "queue_declare_profile_declare ch queue p exclusive ad =
     queue_declare_begin ch queue (qp_durable p) exclusive ad (declare_arguments p)"

section \<open>Acknowledgements\<close>

definition write_method :: "int \<Rightarrow> amqp_method \<Rightarrow> unit cop" where
  "write_method ch m =
     bind_s (lift_s (encode_method m)) (\<lambda>p. write_frame \<lparr>frame_type = METHOD, channel = ch, payload = p\<rparr>)"

definition basic_ack :: "int \<Rightarrow> int \<Rightarrow> bool \<Rightarrow> unit cop" where
  "basic_ack ch delivery_tag dr =
     seq_s (channel_open_for_ops ch)
    (seq_s (write_method ch (meth BASIC BASIC_ACK
        [(S ''delivery_tag'', VInt delivery_tag), (S ''multiple'', VBool False)]))
       (when_s dr drain))"

definition basic_nack :: "int \<Rightarrow> int \<Rightarrow> bool \<Rightarrow> bool \<Rightarrow> bool \<Rightarrow> unit cop" where
  "basic_nack ch delivery_tag requeue multiple dr =
     seq_s (channel_open_for_ops ch)
    (seq_s (write_method ch (meth BASIC BASIC_NACK
        [(S ''delivery_tag'', VInt delivery_tag), (S ''multiple'', VBool multiple), (S ''requeue'', VBool requeue)]))
       (when_s dr drain))"

definition basic_reject :: "int \<Rightarrow> int \<Rightarrow> bool \<Rightarrow> bool \<Rightarrow> unit cop" where
  "basic_reject ch delivery_tag requeue dr =
     seq_s (channel_open_for_ops ch)
    (seq_s (write_method ch (meth BASIC BASIC_REJECT
        [(S ''delivery_tag'', VInt delivery_tag), (S ''requeue'', VBool requeue)]))
       (when_s dr drain))"

end
