(* ===== verification/ConnPublish.thy ===== *)
theory ConnPublish
  imports ConnOps
begin

text \<open>
  \<^verbatim>\<open>src/src/nuropb_rmq/transport/connection.py\<close>: \<open>basic_publish\<close>, from its checks to the confirm,
  and what a peer running the same reader makes of the frames it writes.
\<close>

section \<open>Publishing\<close>

definition publish_check :: "int \<Rightarrow> queue_profile option \<Rightarrow> pydict option \<Rightarrow> pydict option cop" where
  "publish_check ch profile properties =
     seq_s (channel_open_for_ops ch)
    (bind_s (get_s c_blocked) (\<lambda>blocked.
       if blocked then raise_s (ConnectionBlockedError ''connection.blocked - publish refused'')
       else case profile of
         None \<Rightarrow> ret_s properties
       | Some p \<Rightarrow> bind_s (lift_s (apply_publish_properties p properties VNone)) (\<lambda>d. ret_s (Some d))))"

definition publish_wants :: "queue_profile option \<Rightarrow> bool option \<Rightarrow> tracker option \<Rightarrow> bool" where
  "publish_wants profile confirm t =
     (case confirm of
        Some b \<Rightarrow> b
      | None \<Rightarrow>
          if (case profile of None \<Rightarrow> False | Some p \<Rightarrow> qp_durable p) then True
          else (case t of None \<Rightarrow> False | Some t \<Rightarrow> enabled t))"

text \<open>Whether the channel must first be put in confirm mode (\<open>confirm_select\<close>).\<close>

definition publish_needs_select :: "bool \<Rightarrow> tracker option \<Rightarrow> bool" where
  "publish_needs_select want t = (want \<and> (case t of None \<Rightarrow> True | Some t \<Rightarrow> \<not> enabled t))"

text \<open>\<open>tracker.register()\<close>, and the tag of a mandatory publish queued for a return.\<close>

definition publish_register :: "int \<Rightarrow> bool \<Rightarrow> bool \<Rightarrow> (int \<times> nat) option cop" where
  "publish_register ch want mandatory c =
     (if \<not> want then (Inr None, c)
      else case dict_get (c_confirm c) ch of
        None \<Rightarrow> (Inl (KeyError ''{}''), c)
      | Some t \<Rightarrow>
          (case tracker_register (t, c_cfuts c) of (r, t', h') \<Rightarrow>
             let c1 = c\<lparr>c_confirm := dict_set (c_confirm c) ch t', c_cfuts := h'\<rparr> in
             (case r of
                Inl e \<Rightarrow> (Inl e, c1)
              | Inr (tg, fut) \<Rightarrow>
                  (Inr (Some (tg, fut)),
                   if mandatory
                   then c1\<lparr>c_mandatory := dict_set (c_mandatory c1) ch (dict_get_or (c_mandatory c1) ch [] @ [tg])\<rparr>
                   else c1))))"

definition publish_method :: "pystr \<Rightarrow> pystr \<Rightarrow> bool \<Rightarrow> amqp_method" where
  "publish_method exchange routing_key mandatory =
     meth BASIC BASIC_PUBLISH
       [(S ''exchange'', VStr exchange), (S ''routing_key'', VStr routing_key), (S ''mandatory'', VBool mandatory)]"

definition publish_head :: "int \<Rightarrow> bytes \<Rightarrow> pystr \<Rightarrow> pystr \<Rightarrow> bool \<Rightarrow> pydict option \<Rightarrow> int cop" where
  "publish_head ch body exchange routing_key mandatory props =
     seq_s (write_method ch (publish_method exchange routing_key mandatory))
    (bind_s (lift_s (encode_content_header BASIC (int (length body)) (case props of None \<Rightarrow> [] | Some d \<Rightarrow> d)))
       (\<lambda>header.
     seq_s (write_frame \<lparr>frame_type = HEADER, channel = ch, payload = header\<rparr>)
    (bind_s (get_s c_frame_max) (\<lambda>fm. lift_s (max_frame_payload fm)))))"

text \<open>\<open>while offset < len(body)\<close>: None if the loop does not end.\<close>

partial_function (option) body_loop :: "int \<Rightarrow> nat \<Rightarrow> bytes \<Rightarrow> nat \<Rightarrow> conn \<Rightarrow> (unit res \<times> conn) option" where
  "body_loop ch payload_max body offset c =
     (if offset < length body then
        (let chunk = pyslice body offset (offset + payload_max) in
         case write_frame \<lparr>frame_type = BODY, channel = ch, payload = chunk\<rparr> c of
           (Inl e, c') \<Rightarrow> Some (Inl e, c')
         | (Inr _, c') \<Rightarrow> body_loop ch payload_max body (offset + length chunk) c')
      else Some (Inr (), c))"

definition publish_write ::
  "int \<Rightarrow> bytes \<Rightarrow> pystr \<Rightarrow> pystr \<Rightarrow> bool \<Rightarrow> pydict option \<Rightarrow> conn \<Rightarrow> (unit res \<times> conn) option" where
  "publish_write ch body exchange routing_key mandatory props c =
     (case publish_head ch body exchange routing_key mandatory props c of
        (Inl e, c') \<Rightarrow> Some (Inl e, c')
      | (Inr payload_max, c') \<Rightarrow>
          if body = [] then Some (write_frame \<lparr>frame_type = BODY, channel = ch, payload = []\<rparr> c')
          else body_loop ch (nat payload_max) body 0 c')"

text \<open>From the registration to the await of the confirm: the tag and the future waited for.\<close>

definition publish_begin ::
  "int \<Rightarrow> bytes \<Rightarrow> pystr \<Rightarrow> pystr \<Rightarrow> bool \<Rightarrow> pydict option \<Rightarrow> bool \<Rightarrow> bool \<Rightarrow> conn \<Rightarrow>
     ((int \<times> nat) option res \<times> conn) option" where
  "publish_begin ch body exchange routing_key mandatory props want dr c =
     (case publish_register ch want mandatory c of
        (Inl e, c1) \<Rightarrow> Some (Inl e, c1)
      | (Inr tf, c1) \<Rightarrow>
          (case publish_write ch body exchange routing_key mandatory props c1 of
             None \<Rightarrow> None
           | Some (Inl e, c2) \<Rightarrow> Some (Inl e, c2)
           | Some (Inr _, c2) \<Rightarrow> Some (seq_s (when_s dr drain) (ret_s tf) c2)))"

text \<open>After the await: the verdict, or the return that came before a positive one.\<close>

definition publish_end :: "int \<Rightarrow> int \<Rightarrow> nat \<Rightarrow> bool \<Rightarrow> unit cop" where
  "publish_end ch tg fut mandatory c =
     (case c_cfuts c ! fut of
        Result _ \<Rightarrow>
          if mandatory then
            (let rs = dict_get_or (c_return_by_tag c) ch [] in
             case dict_get rs tg of
               None \<Rightarrow> (Inr (), c)
             | Some r \<Rightarrow>
                 (Inl (PublishReturned (r_code r) (r_text r) (r_exchange r) (r_key r) (r_body r) (r_props r)),
                  c\<lparr>c_return_by_tag := dict_set (c_return_by_tag c) ch (dict_del rs tg)\<rparr>))
          else (Inr (), c)
      | Failed e \<Rightarrow> (Inl e, c)
      | Cancelled \<Rightarrow> (Inl CancelledError, c)
      | Pending \<Rightarrow> (Inl (Unmodelled ''still waiting''), c))"

section \<open>The frames a publish writes\<close>

lemma write_frame_Inr:
  "write_frame f c = (Inr u, c') \<longleftrightarrow>
     c_writer c \<and> (\<exists>bs. encode_frame f (c_frame_max c) = Inr bs \<and> c' = c\<lparr>c_out := c_out c @ bs\<rparr>)"
  by (auto simp: write_frame_def split: sum.splits)

lemma bind_s_InrE:
  assumes "bind_s m f s = (Inr y, s')"
  obtains x s1 where "m s = (Inr x, s1)" "f x s1 = (Inr y, s')"
  using assms by (cases "m s"; cases "fst (m s)") (auto simp: bind_s_def)

lemma seq_s_InrE:
  assumes "seq_s m k s = (Inr y, s')"
  obtains x s1 where "m s = (Inr x, s1)" "k s1 = (Inr y, s')"
  using assms unfolding seq_s_def by (rule bind_s_InrE)

lemma publish_head_Inr:
  assumes "publish_head ch body ex key mand props c = (Inr pm, c')"
  obtains mp hp mb hb where
    "encode_method (publish_method ex key mand) = Inr mp"
    "encode_content_header BASIC (int (length body)) (case props of None \<Rightarrow> [] | Some d \<Rightarrow> d) = Inr hp"
    "encode_frame \<lparr>frame_type = METHOD, channel = ch, payload = mp\<rparr> (c_frame_max c) = Inr mb"
    "encode_frame \<lparr>frame_type = HEADER, channel = ch, payload = hp\<rparr> (c_frame_max c) = Inr hb"
    "c_writer c" "c' = c\<lparr>c_out := c_out c @ mb @ hb\<rparr>" "pm = c_frame_max c - FRAME_OVERHEAD" "0 < pm"
proof -
  from assms obtain c1 hp where
    w: "write_method ch (publish_method ex key mand) c = (Inr (), c1)"
    and h: "encode_content_header BASIC (int (length body)) (case props of None \<Rightarrow> [] | Some d \<Rightarrow> d) = Inr hp"
      "write_frame \<lparr>frame_type = HEADER, channel = ch, payload = hp\<rparr> c1 = (Inr (), c')"
    and p: "max_frame_payload (c_frame_max c') = Inr pm"
    unfolding publish_head_def by (auto elim!: seq_s_InrE bind_s_InrE simp: op_simps)
  from w obtain mp mb where m: "encode_method (publish_method ex key mand) = Inr mp"
    "encode_frame \<lparr>frame_type = METHOD, channel = ch, payload = mp\<rparr> (c_frame_max c) = Inr mb"
    "c_writer c" "c1 = c\<lparr>c_out := c_out c @ mb\<rparr>"
    unfolding write_method_def by (auto elim!: bind_s_InrE simp: op_simps write_frame_Inr)
  from h(2) m(4) obtain hb where
    hb: "encode_frame \<lparr>frame_type = HEADER, channel = ch, payload = hp\<rparr> (c_frame_max c) = Inr hb"
      "c' = c\<lparr>c_out := c_out c @ mb @ hb\<rparr>"
    by (auto simp: write_frame_Inr)
  have "4 \<le> length mp"
    using m(1) by (auto simp: encode_method_def bind_r_Inr_iff dest!: to_bytes_len)
  then have pm: "pm = c_frame_max c - FRAME_OVERHEAD" "0 < pm"
    using p hb(2) m(2) by (auto simp: max_frame_payload_Inr encode_frame_Inr)
  show thesis by (rule that[OF m(1) h(1) m(2) hb(1) m(3) hb(2) pm])
qed

lemma body_loop_step:
  "offset < length body \<Longrightarrow> body_loop ch pm body offset c =
     (case write_frame \<lparr>frame_type = BODY, channel = ch, payload = pyslice body offset (offset + pm)\<rparr> c of
        (Inl e, c') \<Rightarrow> Some (Inl e, c')
      | (Inr _, c') \<Rightarrow> body_loop ch pm body (offset + length (pyslice body offset (offset + pm))) c')"
  "\<not> offset < length body \<Longrightarrow> body_loop ch pm body offset c = Some (Inr (), c)"
  by (simp_all add: body_loop.simps Let_def)

lemma chunk_progress:
  "0 < pm \<Longrightarrow> offset < length body \<Longrightarrow>
     0 < length (pyslice body offset (offset + pm)) \<and> offset + length (pyslice body offset (offset + pm)) \<le> length body"
  by (auto simp: length_pyslice)

lemma body_loop_total: "0 < pm \<Longrightarrow> \<exists>r c'. body_loop ch pm body offset c = Some (r, c')"
proof (induction "length body - offset" arbitrary: offset c rule: less_induct)
  case less
  show ?case
  proof (cases "offset < length body")
    case True
    let ?w = "write_frame \<lparr>frame_type = BODY, channel = ch, payload = pyslice body offset (offset + pm)\<rparr> c"
    obtain r c1 where w: "?w = (r, c1)" by (cases ?w)
    show ?thesis
    proof (cases r)
      case (Inl e)
      with w True show ?thesis by (simp add: body_loop_step(1))
    next
      case (Inr u)
      have "length body - (offset + length (pyslice body offset (offset + pm))) < length body - offset"
        using chunk_progress[OF less.prems True] True by linarith
      from less.hyps[OF this less.prems] show ?thesis using w Inr True by (simp add: body_loop_step(1))
    qed
  qed (simp add: body_loop_step(2))
qed

lemma body_loop_Inr:
  assumes "body_loop ch pm body offset c = Some (Inr (), c')" "0 < pm" "offset \<le> length body"
  shows "\<exists>chunks bss. concat chunks = drop offset body \<and> [] \<notin> set chunks \<and>
    list_all2 (\<lambda>k bs. encode_frame \<lparr>frame_type = BODY, channel = ch, payload = k\<rparr> (c_frame_max c) = Inr bs) chunks bss \<and>
    c' = c\<lparr>c_out := c_out c @ concat bss\<rparr>"
  using assms
proof (induction "length body - offset" arbitrary: offset c rule: less_induct)
  case less
  show ?case
  proof (cases "offset < length body")
    case True
    let ?k = "pyslice body offset (offset + pm)"
    note pr = chunk_progress[OF less.prems(2) True]
    obtain r c1 where w: "write_frame \<lparr>frame_type = BODY, channel = ch, payload = ?k\<rparr> c = (Inr r, c1)"
      and rest: "body_loop ch pm body (offset + length ?k) c1 = Some (Inr (), c')"
      using less.prems(1) by (auto simp: body_loop_step(1)[OF True] split: prod.splits sum.splits)
    from w obtain bs where bs: "encode_frame \<lparr>frame_type = BODY, channel = ch, payload = ?k\<rparr> (c_frame_max c) = Inr bs"
      "c1 = c\<lparr>c_out := c_out c @ bs\<rparr>"
      by (auto simp: write_frame_Inr)
    have "length body - (offset + length ?k) < length body - offset" using pr True by linarith
    from less.hyps[OF this rest less.prems(2)] pr obtain chunks bss where
      ih: "concat chunks = drop (offset + length ?k) body" "[] \<notin> set chunks"
        "list_all2 (\<lambda>k bs. encode_frame \<lparr>frame_type = BODY, channel = ch, payload = k\<rparr> (c_frame_max c) = Inr bs) chunks bss"
        "c' = c\<lparr>c_out := c_out c @ bs @ concat bss\<rparr>"
      by (auto simp: bs(2))
    have "?k @ drop (offset + length ?k) body = drop offset body"
      by (simp add: pyslice_def) (metis add.commute append_take_drop_id drop_drop length_drop length_take
        min.cobounded1 take_all_iff nle_le drop_all append_Nil2 min_def length_take)
    then show ?thesis
      using ih bs(1) pr by (intro exI[of _ "?k # chunks"] exI[of _ "bs # bss"]) auto
  next
    case False
    then show ?thesis using less.prems by (intro exI[of _ "[]"]) (simp add: body_loop_step(2))
  qed
qed

lemma publish_write_total: "\<exists>r c'. publish_write ch body ex key mand props c = Some (r, c')"
proof (cases "publish_head ch body ex key mand props c")
  case (Pair r c1)
  show ?thesis
  proof (cases r)
    case (Inr pm)
    then have "0 < pm" using publish_head_Inr[of ch body ex key mand props c pm c1] Pair by blast
    then have "\<exists>r c'. body_loop ch (nat pm) body 0 c1 = Some (r, c')" by (intro body_loop_total) simp
    then show ?thesis using Pair Inr
      by (cases "write_frame \<lparr>frame_type = BODY, channel = ch, payload = []\<rparr> c1") (simp add: publish_write_def)
  qed (simp add: publish_write_def Pair)
qed

text \<open>A publish changes nothing of the connection but its output.\<close>

lemma publish_head_out:
  assumes "publish_head ch body ex key mand props c = (r, c')"
  shows "\<exists>out. c' = c\<lparr>c_out := c_out c @ out\<rparr>"
proof -
  let ?R = "\<lambda>c c'. \<exists>out. c' = c\<lparr>c_out := c_out c @ out\<rparr>"
  have r: "reflp ?R" by (auto simp: reflp_def intro: exI[of _ "[]"])
  have t: "transp ?R" by (auto intro!: transpI)
  have w: "keeps ?R (write_frame f)" for f
    by (rule keepsI) (auto simp: write_frame_def intro: exI[of _ "[]"] split: sum.split)
  have "keeps ?R (publish_head ch body ex key mand props)"
    unfolding publish_head_def write_method_def by (intro keeps_seq keeps_bind keeps_pure r t w)
  then show ?thesis using assms by (auto dest!: keepsD[of _ _ c])
qed

lemma body_loop_out:
  "0 < pm \<Longrightarrow> body_loop ch pm body off c = Some (r, c') \<Longrightarrow> \<exists>out. c' = c\<lparr>c_out := c_out c @ out\<rparr>"
proof (induction "length body - off" arbitrary: off c rule: less_induct)
  case less
  show ?case
  proof (cases "off < length body")
    case True
    let ?k = "pyslice body off (off + pm)"
    have d: "length body - (off + length ?k) < length body - off"
      using chunk_progress[OF less.prems(1) True] True by linarith
    show ?thesis
      using less.prems(2) less.hyps[OF d less.prems(1)]
      by (fastforce simp: body_loop_step(1)[OF True] write_frame_def intro: exI[of _ "[]"]
          split: if_splits sum.splits)
  qed (use less.prems in \<open>auto simp: body_loop_step(2) intro: exI[of _ "[]"]\<close>)
qed

lemma publish_write_out:
  assumes "publish_write ch body ex key mand props c = Some (r, c')"
  shows "\<exists>out. c' = c\<lparr>c_out := c_out c @ out\<rparr>"
proof -
  obtain h c1 where h: "publish_head ch body ex key mand props c = (h, c1)" by force
  from publish_head_out[OF h] obtain o1 where o1: "c1 = c\<lparr>c_out := c_out c @ o1\<rparr>" by blast
  show ?thesis
  proof (cases h)
    case (Inl e)
    then show ?thesis using assms o1 by (auto simp: publish_write_def h)
  next
    case (Inr pm)
    have "0 < pm" using publish_head_Inr[of ch body ex key mand props c pm c1] h Inr by blast
    then have "\<exists>out. c' = c1\<lparr>c_out := c_out c1 @ out\<rparr>"
      using assms body_loop_out[of "nat pm" ch body 0 c1 r c']
      by (auto simp: publish_write_def h Inr write_frame_def intro: exI[of _ "[]"] split: if_splits sum.splits)
    then show ?thesis using o1 by auto
  qed
qed

section \<open>Content through the reader\<close>

text \<open>Frames handled one after the other; an exception ends it.\<close>

fun handle_frames :: "frame list \<Rightarrow> unit cop" where
  "handle_frames [] c = (Inr (), c)"
| "handle_frames (f # fs) c =
     (case handle_frame f c of (Inl e, c') \<Rightarrow> (Inl e, c') | (Inr _, c') \<Rightarrow> handle_frames fs c')"

lemma dict_set_twice [simp]: "dict_set (dict_set d k v) k w = dict_set d k w"
  by (induction d k v rule: dict_set.induct) auto

lemma dict_del_set [simp]: "dict_del (dict_set d k v) k = dict_del d k"
  by (induction d k v rule: dict_set.induct) (auto simp: dict_del_def)

abbreviation body_frames :: "int \<Rightarrow> bytes list \<Rightarrow> frame list" where
  "body_frames ch ks \<equiv> map (\<lambda>k. \<lparr>frame_type = BODY, channel = ch, payload = k\<rparr>) ks"

text \<open>The body frames of a slot fill it; the last one finishes it.\<close>

lemma handle_bodies:
  assumes "dict_get (c_pending c) ch = Some sl" "sl_remaining sl = Some (int (length (concat ks)))"
    and "ks \<noteq> []" "[] \<notin> set ks"
  shows "\<exists>sl'. handle_frames (body_frames ch ks) c = (Inr (), finish_delivery ch sl' (set_pending ch sl' c)) \<and>
    sl_kind sl' = sl_kind sl \<and> sl_props sl' = sl_props sl \<and> sl_body sl' = sl_body sl @ concat ks"
  using assms
proof (induction ks arbitrary: c sl)
  case (Cons k ks)
  show ?case
  proof (cases "ks = []")
    case True
    then show ?thesis
      using Cons.prems by (auto simp: handle_frame_def handle_body_def Let_def)
  next
    case False
    let ?sl = "sl\<lparr>sl_body := sl_body sl @ k, sl_remaining := Some (int (length (concat ks)))\<rparr>"
    have "concat ks \<noteq> []" using False Cons.prems(4) by (cases ks) auto
    then have step: "handle_frame \<lparr>frame_type = BODY, channel = ch, payload = k\<rparr> c = (Inr (), set_pending ch ?sl c)"
      using Cons.prems by (auto simp: handle_frame_def handle_body_def Let_def)
    have "dict_get (c_pending (set_pending ch ?sl c)) ch = Some ?sl" by (simp add: set_pending_def)
    from Cons.IH[OF this _ False] Cons.prems(4) obtain sl' where
      "handle_frames (body_frames ch ks) (set_pending ch ?sl c) =
         (Inr (), finish_delivery ch sl' (set_pending ch sl' (set_pending ch ?sl c)))"
      "sl_kind sl' = sl_kind sl" "sl_props sl' = sl_props sl" "sl_body sl' = (sl_body sl @ k) @ concat ks"
      by auto
    then show ?thesis using step by (intro exI[of _ sl']) (simp add: set_pending_def)
  qed
qed simp

definition delivered :: "amqp_method \<Rightarrow> bytes \<Rightarrow> pydict \<Rightarrow> incoming" where
  "delivered m body props =
     \<lparr>i_tag = arg_int m ''delivery_tag'' 0, i_exchange = arg_str m ''exchange'',
      i_key = arg_str m ''routing_key'', i_body = body, i_props = props,
      i_redelivered = arg_bool m ''redelivered'', i_ctag = arg_str m ''consumer_tag''\<rparr>"

text \<open>A delivery: the method, the header of a body that is not empty, and the body in any pieces.\<close>

lemma handle_delivery:
  assumes "decode_method dp = Inr m" "m_class m = BASIC" "m_method m = BASIC_DELIVER"
    and "decode_content_header hp = Inr (cid, int (length (concat ks)), props)"
    and "ks \<noteq> []" "[] \<notin> set ks"
  shows "handle_frames (\<lparr>frame_type = METHOD, channel = ch, payload = dp\<rparr> #
      \<lparr>frame_type = HEADER, channel = ch, payload = hp\<rparr> # body_frames ch ks) c =
    (Inr (), c\<lparr>c_deliveries := c_deliveries c @ [Item (delivered m (concat ks) props)],
               c_pending := dict_del (c_pending c) ch\<rparr>)"
proof -
  define n where "n = length (concat ks)"
  let ?sl = "\<lparr>sl_kind = SDeliver m, sl_props = props, sl_body = [], sl_remaining = Some (int n)\<rparr>"
  have ne: "n \<noteq> 0" using assms(5,6) by (cases ks) (auto simp: n_def)
  have 1: "handle_frame \<lparr>frame_type = METHOD, channel = ch, payload = dp\<rparr> c =
      (Inr (), set_pending ch (new_slot (SDeliver m)) c)"
    using assms(1-3) by (simp add: handle_frame_def handle_method_def)
  have 2: "handle_frame \<lparr>frame_type = HEADER, channel = ch, payload = hp\<rparr>
      (set_pending ch (new_slot (SDeliver m)) c) = (Inr (), set_pending ch ?sl c)"
    using assms(4) ne
    by (simp add: handle_frame_def handle_header_def set_pending_def new_slot_def Let_def n_def[symmetric])
  have "dict_get (c_pending (set_pending ch ?sl c)) ch = Some ?sl" by (simp add: set_pending_def)
  from handle_bodies[OF this _ assms(5,6)] obtain sl' where
    "handle_frames (body_frames ch ks) (set_pending ch ?sl c) =
       (Inr (), finish_delivery ch sl' (set_pending ch sl' (set_pending ch ?sl c)))"
    "sl_kind sl' = SDeliver m" "sl_props sl' = props" "sl_body sl' = concat ks"
    by (auto simp: n_def)
  then show ?thesis
    using 1 2 by (simp add: finish_delivery_def set_pending_def delivered_def)
qed

text \<open>What a publish puts on the wire: its method, its header and its body, frame by frame.\<close>

lemma publish_write_frames:
  assumes "publish_write ch body ex key mand props c = Some (Inr (), c')" "body \<noteq> []"
  obtains out mp hp ks where
    "c' = c\<lparr>c_out := c_out c @ out\<rparr>"
    "drain_buffer (c_frame_max c) out =
       (\<lparr>frame_type = METHOD, channel = ch, payload = mp\<rparr> # \<lparr>frame_type = HEADER, channel = ch, payload = hp\<rparr>
          # body_frames ch ks, [], None)"
    "encode_content_header BASIC (int (length body)) (case props of None \<Rightarrow> [] | Some d \<Rightarrow> d) = Inr hp"
    "concat ks = body" "[] \<notin> set ks" "encode_method (publish_method ex key mand) = Inr mp"
proof -
  obtain pm c1 where head: "publish_head ch body ex key mand props c = (Inr pm, c1)"
    and loop: "body_loop ch (nat pm) body 0 c1 = Some (Inr (), c')"
    using assms by (auto simp: publish_write_def split: prod.splits sum.splits)
  obtain mp hp mb hb where m: "encode_method (publish_method ex key mand) = Inr mp"
    and h: "encode_content_header BASIC (int (length body)) (case props of None \<Rightarrow> [] | Some d \<Rightarrow> d) = Inr hp"
    and mb: "encode_frame \<lparr>frame_type = METHOD, channel = ch, payload = mp\<rparr> (c_frame_max c) = Inr mb"
    and hb: "encode_frame \<lparr>frame_type = HEADER, channel = ch, payload = hp\<rparr> (c_frame_max c) = Inr hb"
    and c1: "c1 = c\<lparr>c_out := c_out c @ mb @ hb\<rparr>" and pm: "0 < pm"
    by (rule publish_head_Inr[OF head])
  have "0 < nat pm" using pm by simp
  from body_loop_Inr[OF loop this] obtain ks bss where
    ks: "concat ks = body" "[] \<notin> set ks"
    and bss: "list_all2 (\<lambda>k bs. encode_frame \<lparr>frame_type = BODY, channel = ch, payload = k\<rparr> (c_frame_max c1) = Inr bs) ks bss"
    and c': "c' = c1\<lparr>c_out := c_out c1 @ concat bss\<rparr>" by auto
  let ?mf = "\<lparr>frame_type = METHOD, channel = ch, payload = mp\<rparr>"
  let ?hf = "\<lparr>frame_type = HEADER, channel = ch, payload = hp\<rparr>"
  have "list_all2 (\<lambda>f bs. True \<and> encode_frame f (c_frame_max c) = Inr bs) (?mf # ?hf # body_frames ch ks) (mb # hb # bss)"
    using mb hb bss by (simp add: c1 list_all2_map1)
  moreover have "0 < length mb" using encode_frame_length[OF mb] by simp
  ultimately have "drain_with (\<lambda>data. decode_frame data (c_frame_max c)) is_incomplete
      (concat (mb # hb # bss) @ take 0 mb) = (?mf # ?hf # body_frames ch ks, take 0 mb, None)"
    by (intro frames.drain_encoded[of _ _ _ ?mf]) (use mb in auto)
  then have "drain_buffer (c_frame_max c) (mb @ hb @ concat bss) = (?mf # ?hf # body_frames ch ks, [], None)"
    by (simp add: drain_buffer_with)
  then show thesis by (intro that[OF _ _ h ks m]) (simp_all add: c' c1)
qed

text \<open>A reader that gets the header and any cut of the body queues the message.\<close>

lemma content_received:
  assumes "encode_content_header BASIC (int (length (concat ks))) props = Inr hp" "props_ok basic_props props"
    and "ks \<noteq> []" "[] \<notin> set ks" "decode_method dp = Inr m" "m_class m = BASIC" "m_method m = BASIC_DELIVER"
  shows "handle_frames (\<lparr>frame_type = METHOD, channel = ch, payload = dp\<rparr> #
      \<lparr>frame_type = HEADER, channel = ch, payload = hp\<rparr> # body_frames ch ks) d =
    (Inr (), d\<lparr>c_deliveries := c_deliveries d @ [Item (delivered m (concat ks) (read_props basic_props props))],
               c_pending := dict_del (c_pending d) ch\<rparr>)"
  using handle_delivery[OF assms(5-7) _ assms(3,4), of hp BASIC _ ch d] header_round[OF assms(1,2), of "[]"] by simp

section \<open>Properties\<close>

text \<open>
  C4. What is published is what is received. When \<open>basic_publish\<close> writes a non-empty body without
  raising, the bytes it writes are one method frame, one header frame and body frames of the
  channel, no frame longer than \<open>frame_max\<close>; and a reader that gets the header and body frames
  after any \<open>basic.deliver\<close> queues exactly one message, with the same body and the basic
  properties as they read (\<open>read_props\<close>; their headers must be a table the decoder reads back), and changes nothing else.\<close>

theorem published_is_received:
  assumes "publish_write ch body ex key mand props c = Some (Inr (), c')" "body \<noteq> []"
    and "props_ok basic_props (case props of None \<Rightarrow> [] | Some d \<Rightarrow> d)"
    and "decode_method dp = Inr m" "m_class m = BASIC" "m_method m = BASIC_DELIVER"
  shows "\<exists>out mf hf ks. c' = c\<lparr>c_out := c_out c @ out\<rparr> \<and>
    drain_buffer (c_frame_max c) out = (mf # hf # body_frames ch ks, [], None) \<and>
    frame_type mf = METHOD \<and> channel mf = ch \<and> concat ks = body \<and>
    (\<forall>d. handle_frames (\<lparr>frame_type = METHOD, channel = ch, payload = dp\<rparr> # hf # body_frames ch ks) d =
      (Inr (), d\<lparr>c_deliveries := c_deliveries d @
          [Item (delivered m body (read_props basic_props (case props of None \<Rightarrow> [] | Some p \<Rightarrow> p)))],
        c_pending := dict_del (c_pending d) ch\<rparr>))"
proof -
  let ?p = "case props of None \<Rightarrow> [] | Some p \<Rightarrow> p"
  obtain out mp hp ks where o: "c' = c\<lparr>c_out := c_out c @ out\<rparr>"
    "drain_buffer (c_frame_max c) out =
       (\<lparr>frame_type = METHOD, channel = ch, payload = mp\<rparr> # \<lparr>frame_type = HEADER, channel = ch, payload = hp\<rparr>
          # body_frames ch ks, [], None)"
    and h: "encode_content_header BASIC (int (length body)) ?p = Inr hp" and ks: "concat ks = body" "[] \<notin> set ks"
    and "encode_method (publish_method ex key mand) = Inr mp"
    by (rule publish_write_frames[OF assms(1,2)])
  have ne: "ks \<noteq> []" using ks(1) assms(2) by auto
  have "handle_frames (\<lparr>frame_type = METHOD, channel = ch, payload = dp\<rparr> #
        \<lparr>frame_type = HEADER, channel = ch, payload = hp\<rparr> # body_frames ch ks) d =
      (Inr (), d\<lparr>c_deliveries := c_deliveries d @ [Item (delivered m body (read_props basic_props ?p))],
        c_pending := dict_del (c_pending d) ch\<rparr>)" for d
    by (rule content_received[where ks = ks and props = ?p, unfolded ks(1), OF h assms(3) ne ks(2) assms(4-6)])
  with o show ?thesis
    by (intro exI[of _ out] exI[of _ "\<lparr>frame_type = METHOD, channel = ch, payload = mp\<rparr>"]
        exI[of _ "\<lparr>frame_type = HEADER, channel = ch, payload = hp\<rparr>"] exI[of _ ks])
      (simp only: ks(1) frame.simps simp_thms)
qed

end
