(* ===== verification/Publishing.thy ===== *)
theory Publishing
  imports ConnPublish
begin

text \<open>
  \<open>basic_publish\<close> of \<^verbatim>\<open>src/src/nuropb_rmq/transport/connection.py\<close> as its callers see it, from
  call to return, and the settlement of a delivery. The two awaits of a publish are the answer to
  \<open>confirm.select\<close> and the confirm; an operation of a caller ends at the first of them it reaches.
\<close>

section \<open>A publish and its awaits\<close>

datatype publish_await = AwaitSelect nat "pydict option" | AwaitConfirm "(int \<times> nat) option"

definition await_confirm :: "((int \<times> nat) option res \<times> conn) option \<Rightarrow> (publish_await res \<times> conn) option" where
  "await_confirm r = (case r of
     None \<Rightarrow> None | Some (Inl e, c) \<Rightarrow> Some (Inl e, c) | Some (Inr tf, c) \<Rightarrow> Some (Inr (AwaitConfirm tf), c))"

definition basic_publish_begin ::
  "int \<Rightarrow> bytes \<Rightarrow> pystr \<Rightarrow> pystr \<Rightarrow> pydict option \<Rightarrow> bool \<Rightarrow> queue_profile option \<Rightarrow> bool option \<Rightarrow> bool \<Rightarrow>
     conn \<Rightarrow> (publish_await res \<times> conn) option" where
  "basic_publish_begin ch body exchange routing_key properties dr profile confirm mandatory c =
     (case publish_check ch profile properties c of
        (Inl e, c1) \<Rightarrow> Some (Inl e, c1)
      | (Inr props, c1) \<Rightarrow>
          (let t = dict_get (c_confirm c1) ch; want = publish_wants profile confirm t in
           if publish_needs_select want t then
             (case confirm_select_begin ch c1 of
                (Inl e, c2) \<Rightarrow> Some (Inl e, c2)
              | (Inr (Some fut), c2) \<Rightarrow> Some (Inr (AwaitSelect fut props), c2)
              | (Inr None, c2) \<Rightarrow> await_confirm (publish_begin ch body exchange routing_key mandatory props want dr c2))
           else await_confirm (publish_begin ch body exchange routing_key mandatory props want dr c1)))"

text \<open>After \<open>confirm.select-ok\<close>.\<close>

definition basic_publish_selected ::
  "int \<Rightarrow> nat \<Rightarrow> bytes \<Rightarrow> pystr \<Rightarrow> pystr \<Rightarrow> pydict option \<Rightarrow> bool \<Rightarrow> bool \<Rightarrow> conn \<Rightarrow>
     (publish_await res \<times> conn) option" where
  "basic_publish_selected ch fut body exchange routing_key props dr mandatory c =
     (case confirm_select_end ch fut c of
        (Inl e, c1) \<Rightarrow> Some (Inl e, c1)
      | (Inr _, c1) \<Rightarrow> await_confirm (publish_begin ch body exchange routing_key mandatory props True dr c1))"

definition basic_publish_end :: "int \<Rightarrow> (int \<times> nat) option \<Rightarrow> bool \<Rightarrow> unit cop" where
  "basic_publish_end ch tf mandatory =
     (case tf of None \<Rightarrow> ret_s () | Some (tg, fut) \<Rightarrow> publish_end ch tg fut mandatory)"

lemma publish_begin_total: "\<exists>r c'. publish_begin ch body ex key mand props want dr c = Some (r, c')"
proof -
  obtain x c1 where x: "publish_register ch want mand c = (x, c1)" by force
  obtain w c2 where w: "publish_write ch body ex key mand props c1 = Some (w, c2)"
    using publish_write_total by blast
  show ?thesis using w by (cases x; cases w) (auto simp: publish_begin_def x)
qed

lemma await_confirm_total: "\<exists>r c'. await_confirm (publish_begin ch body ex key mand props want dr c) = Some (r, c')"
proof -
  obtain r c' where "publish_begin ch body ex key mand props want dr c = Some (r, c')" using publish_begin_total by blast
  then show ?thesis by (cases r) (simp_all add: await_confirm_def)
qed

lemma basic_publish_begin_total: "\<exists>r c'. basic_publish_begin ch body ex key props dr p conf mand c = Some (r, c')"
  using await_confirm_total
  by (auto simp: basic_publish_begin_def Let_def split: prod.split sum.split option.split)

section \<open>Output only grows\<close>

definition writes :: "conn \<Rightarrow> bytes \<Rightarrow> conn \<Rightarrow> bool" where
  "writes c out c' \<longleftrightarrow> c_out c' = c_out c @ out \<and> c_frame_max c' = c_frame_max c \<and> c_writer c' = c_writer c"

lemma writes_refl [simp]: "writes c [] c"
  by (simp add: writes_def)

lemma writes_trans: "writes a o1 b \<Longrightarrow> writes b o2 c \<Longrightarrow> writes a (o1 @ o2) c"
  by (simp add: writes_def)

lemma with_channel_writes: "with_channel ch f c = (r, c') \<Longrightarrow> writes c [] c'"
  by (auto simp: with_channel_def writes_def split: option.splits prod.splits)

lemma channel_open_writes: "channel_open_for_ops ch c = (r, c') \<Longrightarrow> writes c [] c'"
  unfolding channel_open_for_ops_def by (rule with_channel_writes)

lemma publish_check_writes: "publish_check ch p props c = (r, c') \<Longrightarrow> writes c [] c'"
  by (cases "channel_open_for_ops ch c"; cases "fst (channel_open_for_ops ch c)")
    (auto simp: publish_check_def seq_s_def bind_s_def op_simps dest!: channel_open_writes
      split: if_splits option.splits sum.splits)

lemma publish_register_writes: "publish_register ch want mand c = (r, c') \<Longrightarrow> writes c [] c'"
  by (auto simp: publish_register_def writes_def Let_def split: if_splits option.splits prod.splits sum.splits)

lemma publish_write_writes: "publish_write ch body ex key mand props c = Some (r, c') \<Longrightarrow> \<exists>out. writes c out c'"
  by (drule publish_write_out) (auto simp: writes_def)

lemma publish_begin_writes:
  assumes "publish_begin ch body ex key mand props want dr c = Some (r, c')"
  shows "\<exists>out. writes c out c'"
proof -
  obtain x c1 where x: "publish_register ch want mand c = (x, c1)" by force
  obtain w c2 where w: "publish_write ch body ex key mand props c1 = Some (w, c2)"
    using publish_write_total by blast
  obtain out where out: "writes c1 out c2" using publish_write_writes[OF w] by blast
  have c1: "writes c [] c1" by (rule publish_register_writes[OF x])
  have "c' = c1 \<or> c' = c2"
    using assms w by (cases x; cases w; cases dr)
      (auto simp: publish_begin_def x seq_s_def bind_s_def when_s_def op_simps drain_def split: if_splits)
  then show ?thesis using c1 writes_trans[OF c1 out] by auto
qed

section \<open>What a publish sends\<close>

text \<open>
  \<open>basic_publish\<close> up to its confirm, whether or not it had to put the channel in confirm mode first;
  \<open>out\<close> is written after that.
\<close>

definition publish_sends ::
  "int \<Rightarrow> bytes \<Rightarrow> pystr \<Rightarrow> pystr \<Rightarrow> pydict \<Rightarrow> bool \<Rightarrow> queue_profile option \<Rightarrow> bool option \<Rightarrow> bool \<Rightarrow>
     conn \<Rightarrow> bytes \<Rightarrow> conn \<Rightarrow> bool" where
  "publish_sends ch body ex key props dr profile confirm mand c out c' \<longleftrightarrow>
     (\<exists>tf. basic_publish_begin ch body ex key (Some props) dr profile confirm mand c = Some (Inr (AwaitConfirm tf), c') \<and>
        c_out c' = c_out c @ out) \<or>
     (\<exists>tf fut sent_props c1 c2.
        basic_publish_begin ch body ex key (Some props) dr profile confirm mand c = Some (Inr (AwaitSelect fut sent_props), c1) \<and>
        basic_publish_selected ch fut body ex key sent_props dr mand c2 = Some (Inr (AwaitConfirm tf), c') \<and>
        c_out c' = c_out c2 @ out)"

lemma publish_begin_sent:
  assumes "publish_begin ch body ex key mand props want dr c = Some (Inr tf, c')"
  shows "\<exists>c1. publish_write ch body ex key mand props c1 = Some (Inr (), c') \<and> writes c [] c1"
proof -
  obtain x c1 where x: "publish_register ch want mand c = (Inr x, c1)"
    using assms by (cases "publish_register ch want mand c"; cases "fst (publish_register ch want mand c)")
      (auto simp: publish_begin_def)
  obtain w c2 where w: "publish_write ch body ex key mand props c1 = Some (w, c2)" using publish_write_total by blast
  have "w = Inr () \<and> c2 = c'"
    using assms w by (cases w; cases dr)
      (auto simp: publish_begin_def x seq_s_def bind_s_def when_s_def op_simps drain_def split: if_splits)
  then show ?thesis using w publish_register_writes[OF x] by blast
qed

lemma await_confirm_Inr: "await_confirm p = Some (Inr a, c) \<longleftrightarrow> (\<exists>tf. p = Some (Inr tf, c) \<and> a = AwaitConfirm tf)"
  by (auto simp: await_confirm_def split: option.splits sum.splits)

lemma apply_publish_mode:
  "apply_publish_properties p (Some props) VNone = Inr d \<Longrightarrow> \<exists>mode. d = dict_set props (S ''delivery_mode'') (VInt mode)"
  by (auto simp: apply_publish_properties_def bind_r_Inr_iff Let_def)

definition sent_as :: "queue_profile option \<Rightarrow> pydict \<Rightarrow> pydict \<Rightarrow> bool" where
  "sent_as profile props d \<longleftrightarrow> (if profile = None then d = props else \<exists>mode. d = dict_set props (S ''delivery_mode'') (VInt mode))"

lemma publish_check_sent:
  assumes "publish_check ch profile (Some props) c = (Inr p, c1)"
  shows "\<exists>d. p = Some d \<and> sent_as profile props d"
proof (cases profile)
  case None
  then show ?thesis
    using assms by (auto simp: publish_check_def sent_as_def op_simps elim!: seq_s_InrE bind_s_InrE split: if_splits)
next
  case (Some q)
  then show ?thesis
    using assms unfolding publish_check_def sent_as_def
    by (auto simp: op_simps elim!: seq_s_InrE bind_s_InrE dest!: apply_publish_mode split: if_splits) (rule exI, rule refl)
qed

lemma confirm_select_silent:
  "confirm_select_begin ch c = (Inr None, c') \<Longrightarrow> writes c [] c'"
  "confirm_select_end ch fut c = (Inr u, c') \<Longrightarrow> writes c [] c'"
  by (auto simp: confirm_select_begin_def confirm_select_end_def op_simps writes_def expect_end_def
      elim!: seq_s_InrE bind_s_InrE dest!: channel_open_writes split: if_splits)

lemma publish_sends_written:
  assumes "publish_sends ch body ex key props dr profile confirm mand c out c'"
  shows "\<exists>d c1. publish_write ch body ex key mand (Some d) c1 = Some (Inr (), c') \<and> c_out c' = c_out c1 @ out \<and>
    sent_as profile props d"
proof -
  consider tf where "basic_publish_begin ch body ex key (Some props) dr profile confirm mand c = Some (Inr (AwaitConfirm tf), c')"
      "c_out c' = c_out c @ out"
    | tf fut p c1 c2 where
      "basic_publish_begin ch body ex key (Some props) dr profile confirm mand c = Some (Inr (AwaitSelect fut p), c1)"
      "basic_publish_selected ch fut body ex key p dr mand c2 = Some (Inr (AwaitConfirm tf), c')" "c_out c' = c_out c2 @ out"
    using assms unfolding publish_sends_def by blast
  then show ?thesis
  proof cases
    case 1
    obtain p c1 where p: "publish_check ch profile (Some props) c = (Inr p, c1)"
      using 1(1) by (auto simp: basic_publish_begin_def split: prod.splits sum.splits)
    obtain want c2 tf' where b: "publish_begin ch body ex key mand p want dr c2 = Some (Inr tf', c')" "writes c1 [] c2"
      using 1(1) unfolding basic_publish_begin_def p
      by (auto simp: Let_def await_confirm_Inr dest!: confirm_select_silent(1)
          split: if_splits prod.splits sum.splits option.splits)
    obtain c3 where "publish_write ch body ex key mand p c3 = Some (Inr (), c')" "writes c2 [] c3"
      using publish_begin_sent[OF b(1)] by blast
    moreover obtain d where "p = Some d" "sent_as profile props d" using publish_check_sent[OF p] by blast
    ultimately show ?thesis using b(2) 1(2) publish_check_writes[OF p]
      by (intro exI[of _ d] exI[of _ c3]) (simp add: writes_def)
  next
    case 2
    have "\<exists>c3. publish_check ch profile (Some props) c = (Inr p, c3)"
      using 2(1) by (auto simp: basic_publish_begin_def Let_def await_confirm_def
          split: if_splits prod.splits sum.splits option.splits)
    then obtain d where d: "p = Some d" "sent_as profile props d" using publish_check_sent by blast
    obtain c3 tf' where b: "publish_begin ch body ex key mand p True dr c3 = Some (Inr tf', c')" "writes c2 [] c3"
      using 2(2) by (auto simp: basic_publish_selected_def await_confirm_Inr dest!: confirm_select_silent(2)
          split: prod.splits sum.splits)
    obtain c4 where "publish_write ch body ex key mand p c4 = Some (Inr (), c')" "writes c3 [] c4"
      using publish_begin_sent[OF b(1)] by blast
    then show ?thesis using b(2) 2(3) d by (intro exI[of _ d] exI[of _ c4]) (simp add: writes_def)
  qed
qed

lemma basic_publish_begin_writes:
  assumes "basic_publish_begin ch body ex key (Some props) dr profile confirm mand c = Some (Inr (AwaitConfirm tf), c')"
  shows "\<exists>out. writes c out c'"
proof -
  obtain p c1 where p: "publish_check ch profile (Some props) c = (Inr p, c1)"
    using assms by (auto simp: basic_publish_begin_def split: prod.splits sum.splits)
  obtain want c2 tf' where b: "publish_begin ch body ex key mand p want dr c2 = Some (Inr tf', c')" "writes c1 [] c2"
    using assms unfolding basic_publish_begin_def p
    by (auto simp: Let_def await_confirm_Inr dest!: confirm_select_silent(1)
        split: if_splits prod.splits sum.splits option.splits)
  obtain out where "writes c2 out c'" using publish_begin_writes[OF b(1)] by blast
  then show ?thesis using writes_trans[OF publish_check_writes[OF p] writes_trans[OF b(2)]] by blast
qed

text \<open>A publish without confirms does not wait.\<close>

lemma unconfirmed_awaits_nothing:
  "basic_publish_begin ch body ex key props dr profile (Some False) mand c = Some (Inr a, c') \<Longrightarrow> \<exists>tf. a = AwaitConfirm tf"
  by (auto simp: basic_publish_begin_def publish_wants_def publish_needs_select_def await_confirm_Inr
      split: prod.splits sum.splits)

section \<open>Settling a delivery\<close>

definition ack_method :: "int \<Rightarrow> amqp_method" where
  "ack_method tg = meth BASIC BASIC_ACK [(S ''delivery_tag'', VInt tg), (S ''multiple'', VBool False)]"

definition nack_method :: "int \<Rightarrow> bool \<Rightarrow> amqp_method" where
  "nack_method tg requeue = meth BASIC BASIC_NACK
     [(S ''delivery_tag'', VInt tg), (S ''multiple'', VBool False), (S ''requeue'', VBool requeue)]"

text \<open>The octets of the one frame that carries a method.\<close>

definition method_bytes :: "int \<Rightarrow> int \<Rightarrow> amqp_method \<Rightarrow> bytes res" where
  "method_bytes fm ch m =
     bind_r (encode_method m) (\<lambda>p. encode_frame \<lparr>frame_type = METHOD, channel = ch, payload = p\<rparr> fm)"

lemma write_method_writes:
  "write_method ch m c = (Inr u, c') \<Longrightarrow> \<exists>bs. method_bytes (c_frame_max c) ch m = Inr bs \<and> writes c bs c'"
  by (auto simp: write_method_def method_bytes_def writes_def op_simps write_frame_Inr elim!: bind_s_InrE)

lemma settled_writes:
  "basic_ack ch tg dr c = (Inr u, c') \<Longrightarrow> \<exists>bs. method_bytes (c_frame_max c) ch (ack_method tg) = Inr bs \<and> writes c bs c'"
  "basic_nack ch tg rq False dr c = (Inr u, c') \<Longrightarrow>
     \<exists>bs. method_bytes (c_frame_max c) ch (nack_method tg rq) = Inr bs \<and> writes c bs c'"
proof -
  have s: "\<exists>bs. method_bytes (c_frame_max c) ch m = Inr bs \<and> writes c bs c'"
    if "seq_s (channel_open_for_ops ch) (seq_s (write_method ch m) (when_s dr drain)) c = (Inr u, c')" for m
  proof -
    from that obtain u1 c1 u2 c2 where o: "channel_open_for_ops ch c = (Inr u1, c1)"
      and w: "write_method ch m c1 = (Inr u2, c2)" and d: "when_s dr drain c2 = (Inr u, c')"
      by (auto elim!: seq_s_InrE)
    have c': "c' = c2" using d by (cases dr) (auto simp: when_s_def op_simps drain_def split: if_splits)
    have "writes c [] c1" using o by (rule channel_open_writes)
    with write_method_writes[OF w] show ?thesis by (auto simp: c' writes_def)
  qed
  show "basic_ack ch tg dr c = (Inr u, c') \<Longrightarrow> \<exists>bs. method_bytes (c_frame_max c) ch (ack_method tg) = Inr bs \<and> writes c bs c'"
    unfolding basic_ack_def ack_method_def by (rule s)
  show "basic_nack ch tg rq False dr c = (Inr u, c') \<Longrightarrow>
     \<exists>bs. method_bytes (c_frame_max c) ch (nack_method tg rq) = Inr bs \<and> writes c bs c'"
    unfolding basic_nack_def nack_method_def by (rule s)
qed

end
