(* ===== verification/TlsMaterial.thy ===== *)
theory TlsMaterial
  imports PyValues Utf8
begin

text \<open>
  \<^verbatim>\<open>src/src/nuropb_rmq/transport/tls_material.py\<close>: where the certificate material of a
  connection comes from. Reading a file, running the secrets hook and opening a PKCS#12 bag are
  outside the program and are arguments: \<open>read_file\<close>, the hook's result and \<open>load_key_and_certificates\<close>.
\<close>

datatype pem_data = PemBytes bytes | PemStr pystr

record tls_material =
  ca_pem :: "bytes option"
  cert_pem :: "bytes option"
  key_pem :: "bytes option"

definition no_material :: tls_material where
  "no_material = \<lparr>ca_pem = None, cert_pem = None, key_pem = None\<rparr>"

definition has_client_cert :: "tls_material \<Rightarrow> bool" where
  "has_client_cert m = (case cert_pem m of None \<Rightarrow> False | Some b \<Rightarrow> b \<noteq> [])"

fun as_pem_bytes :: "pem_data \<Rightarrow> bytes res" where
  "as_pem_bytes (PemStr s) = utf8_encode s"
| "as_pem_bytes (PemBytes b) = Inr b"

text \<open>\<open>not raw.strip()\<close>: nothing but ASCII white space.\<close>

definition blank :: "bytes \<Rightarrow> bool" where
  "blank raw = list_all (\<lambda>b. b = 32 \<or> 9 \<le> b \<and> b \<le> 13) raw"

type_synonym file_reader = "pystr \<Rightarrow> bytes res"

definition slot_from_file_or_data :: "file_reader \<Rightarrow> pystr option \<Rightarrow> pem_data option \<Rightarrow> bytes option res" where
  "slot_from_file_or_data read_file path pem =
     (case pem of
        Some d \<Rightarrow>
          if path \<noteq> None then Inl (ValueError ''{}: provide file path or in-memory data, not both'')
          else bind_r (as_pem_bytes d) (\<lambda>raw.
            if blank raw then Inl (ValueError ''{}: empty PEM data'') else Inr (Some raw))
      | None \<Rightarrow>
          (case path of
             None \<Rightarrow> Inr None
           | Some p \<Rightarrow> bind_r (read_file p) (\<lambda>raw.
               if blank raw then Inl (ValueError ''{}: empty PEM file {}'') else Inr (Some raw))))"

definition merge_slot ::
  "file_reader \<Rightarrow> bytes option \<Rightarrow> pystr option \<Rightarrow> pem_data option \<Rightarrow> bytes option res" where
  "merge_slot read_file from_hook path pem =
     (case from_hook of
        Some h \<Rightarrow>
          if path \<noteq> None \<or> pem \<noteq> None
          then Inl (ValueError ''{}: secrets hook already provided material; do not also set file path or in-memory data'')
          else if blank h then Inl (ValueError ''{}: empty PEM from secrets hook'')
          else Inr (Some h)
      | None \<Rightarrow> slot_from_file_or_data read_file path pem)"

text \<open>What the hook returned: its material, or an object of another type.\<close>

datatype hook_result = HookMaterial tls_material | HookOther

definition invoke_secrets :: "hook_result res \<Rightarrow> tls_material res" where
  "invoke_secrets provider =
     bind_r provider (\<lambda>result. case result of
       HookMaterial m \<Rightarrow> Inr m
     | HookOther \<Rightarrow> Inl (TypeError ''tls_secrets must return TlsMaterial''))"

record tls_config =
  t_ca_file :: "pystr option"
  t_cert_file :: "pystr option"
  t_key_file :: "pystr option"
  t_ca_data :: "pem_data option"
  t_cert_data :: "pem_data option"
  t_key_data :: "pem_data option"
  t_secrets :: "hook_result res option"
  t_pkcs12_file :: "pystr option"
  t_pkcs12_data :: "bytes option"
  t_pkcs12_password :: "pem_data option"

section \<open>PKCS\#12\<close>

text \<open>A bag as the cryptography package returns it, each part already PEM.\<close>

record pkcs12_bag =
  bag_key :: "bytes option"
  bag_cert :: "bytes option"
  bag_additional :: "bytes option list"

type_synonym bag_loader = "bytes \<Rightarrow> bytes option \<Rightarrow> pkcs12_bag res"

definition pkcs12_password_bytes :: "pem_data option \<Rightarrow> bytes option res" where
  "pkcs12_password_bytes p =
     (case p of None \<Rightarrow> Inr None | Some d \<Rightarrow> bind_r (as_pem_bytes d) (\<lambda>b. Inr (Some b)))"

fun present :: "'a option list \<Rightarrow> 'a list" where
  "present [] = []"
| "present (None # xs) = present xs"
| "present (Some x # xs) = x # present xs"

definition load_pkcs12 :: "bag_loader \<Rightarrow> bytes \<Rightarrow> pem_data option \<Rightarrow> tls_material res" where
  "load_pkcs12 load raw password =
     bind_r (pkcs12_password_bytes password) (\<lambda>pw. bind_r (load raw pw) (\<lambda>bag.
       if bag_cert bag = None \<or> bag_key bag = None
       then Inl (ValueError ''pkcs12: bag must contain a client certificate and private key'')
       else
         let ca_parts = present (bag_additional bag) in
         Inr \<lparr>ca_pem = (if ca_parts = [] then None else Some (concat ca_parts)),
              cert_pem = bag_cert bag, key_pem = bag_key bag\<rparr>))"

definition resolve_pkcs12 :: "file_reader \<Rightarrow> bag_loader \<Rightarrow> tls_config \<Rightarrow> tls_material option res" where
  "resolve_pkcs12 read_file load cfg =
     (if t_pkcs12_file cfg = None \<and> t_pkcs12_data cfg = None then Inr None
      else if t_pkcs12_file cfg \<noteq> None \<and> t_pkcs12_data cfg \<noteq> None
      then Inl (ValueError ''pkcs12: provide file path or in-memory data, not both'')
      else bind_r (case t_pkcs12_file cfg of Some p \<Rightarrow> read_file p | None \<Rightarrow> Inr (the (t_pkcs12_data cfg))) (\<lambda>raw.
        if raw = [] then Inl (ValueError ''pkcs12: empty or invalid PKCS#12 data'')
        else bind_r (load_pkcs12 load raw (t_pkcs12_password cfg)) (\<lambda>m. Inr (Some m))))"

definition assert_pkcs12_exclusive :: "tls_config \<Rightarrow> tls_material \<Rightarrow> tls_material \<Rightarrow> unit res" where
  "assert_pkcs12_exclusive cfg from_pkcs12 hooked =
     (if cert_pem hooked \<noteq> None \<or> key_pem hooked \<noteq> None
      then Inl (ValueError ''pkcs12: secrets hook already provided cert/key; do not also set PKCS#12'')
      else if t_cert_file cfg \<noteq> None \<or> t_cert_data cfg \<noteq> None \<or> t_key_file cfg \<noteq> None \<or> t_key_data cfg \<noteq> None
      then Inl (ValueError ''pkcs12: conflicts with PEM {}; use PKCS#12 or PEM cert/key, not both'')
      else if ca_pem from_pkcs12 \<noteq> None \<and>
         (ca_pem hooked \<noteq> None \<or> t_ca_file cfg \<noteq> None \<or> t_ca_data cfg \<noteq> None)
      then Inl (ValueError ''pkcs12: bag already includes CA material; do not also set ca_file / ca_data / secrets ca'')
      else Inr ())"

definition resolve_tls_material :: "file_reader \<Rightarrow> bag_loader \<Rightarrow> tls_config \<Rightarrow> tls_material res" where
  "resolve_tls_material read_file load cfg =
     bind_r (case t_secrets cfg of None \<Rightarrow> Inr no_material | Some p \<Rightarrow> invoke_secrets p) (\<lambda>hooked.
     bind_r (resolve_pkcs12 read_file load cfg) (\<lambda>from_pkcs12.
       case from_pkcs12 of
         Some bag \<Rightarrow>
           bind_r (assert_pkcs12_exclusive cfg bag hooked) (\<lambda>_.
           bind_r (if ca_pem bag = None then merge_slot read_file (ca_pem hooked) (t_ca_file cfg) (t_ca_data cfg)
                   else Inr (ca_pem bag)) (\<lambda>ca.
             Inr \<lparr>ca_pem = ca, cert_pem = cert_pem bag, key_pem = key_pem bag\<rparr>))
       | None \<Rightarrow>
           bind_r (merge_slot read_file (ca_pem hooked) (t_ca_file cfg) (t_ca_data cfg)) (\<lambda>ca.
           bind_r (merge_slot read_file (cert_pem hooked) (t_cert_file cfg) (t_cert_data cfg)) (\<lambda>cert.
           bind_r (merge_slot read_file (key_pem hooked) (t_key_file cfg) (t_key_data cfg)) (\<lambda>key.
             Inr \<lparr>ca_pem = ca, cert_pem = cert, key_pem = key\<rparr>)))))"

section \<open>What is shown of the material\<close>

definition redact_pem :: "string \<Rightarrow> bytes option \<Rightarrow> pystr" where
  "redact_pem label d =
     (case d of
        None \<Rightarrow> S label @ S ''=None''
      | Some b \<Rightarrow> S label @ S ''=<'' @ dec_digits (length b) @ S '' bytes>'')"

definition tls_repr :: "tls_material \<Rightarrow> pystr" where
  "tls_repr m = S ''TlsMaterial('' @ redact_pem ''ca_pem'' (ca_pem m) @ S '', '' @
     redact_pem ''cert_pem'' (cert_pem m) @ S '', '' @ redact_pem ''key_pem'' (key_pem m) @ S '')''"

section \<open>One source for each slot\<close>

text \<open>How many of hook, file and data are set, and the value of a slot by the one that is.\<close>

definition sources :: "bytes option \<Rightarrow> pystr option \<Rightarrow> pem_data option \<Rightarrow> nat" where
  "sources h p d = (if h \<noteq> None then 1 else 0) + (if p \<noteq> None then 1 else 0) + (if d \<noteq> None then 1 else 0)"

definition comes_from :: "file_reader \<Rightarrow> bytes option \<Rightarrow> bytes option \<Rightarrow> pystr option \<Rightarrow> pem_data option \<Rightarrow> bool" where
  "comes_from read_file v h p d \<longleftrightarrow> (case (h, p, d) of
     (None, None, None) \<Rightarrow> v = None
   | (Some raw, None, None) \<Rightarrow> v = Some raw \<and> \<not> blank raw
   | (None, Some path, None) \<Rightarrow> (\<exists>raw. read_file path = Inr raw \<and> v = Some raw \<and> \<not> blank raw)
   | (None, None, Some pem) \<Rightarrow> (\<exists>raw. as_pem_bytes pem = Inr raw \<and> v = Some raw \<and> \<not> blank raw)
   | _ \<Rightarrow> False)"

lemma merge_slot_comes: "merge_slot rf h p d = Inr v \<longleftrightarrow> comes_from rf v h p d"
  by (auto simp: merge_slot_def slot_from_file_or_data_def comes_from_def bind_r_Inr_iff split: option.splits if_splits)

text \<open>A bag that was opened: what was read, with the password in octets, and the material made of it.\<close>

definition opens_bag :: "file_reader \<Rightarrow> bag_loader \<Rightarrow> tls_config \<Rightarrow> pkcs12_bag \<Rightarrow> bool" where
  "opens_bag read_file load cfg bag \<longleftrightarrow>
     (\<exists>raw pw. (case (t_pkcs12_file cfg, t_pkcs12_data cfg) of
          (Some p, None) \<Rightarrow> read_file p = Inr raw | (None, Some data) \<Rightarrow> raw = data | _ \<Rightarrow> False) \<and>
        raw \<noteq> [] \<and> pkcs12_password_bytes (t_pkcs12_password cfg) = Inr pw \<and> load raw pw = Inr bag)"

definition bag_material :: "pkcs12_bag \<Rightarrow> tls_material" where
  "bag_material bag = \<lparr>ca_pem = (if present (bag_additional bag) = [] then None else Some (concat (present (bag_additional bag)))),
     cert_pem = bag_cert bag, key_pem = bag_key bag\<rparr>"

lemma resolve_pkcs12_bag:
  assumes "resolve_pkcs12 rf load cfg = Inr r"
  shows "case r of
      None \<Rightarrow> t_pkcs12_file cfg = None \<and> t_pkcs12_data cfg = None
    | Some m \<Rightarrow> \<exists>bag. opens_bag rf load cfg bag \<and> bag_cert bag \<noteq> None \<and> bag_key bag \<noteq> None \<and> m = bag_material bag"
proof (cases "t_pkcs12_file cfg"; cases "t_pkcs12_data cfg")
  fix p assume "t_pkcs12_file cfg = Some p" "t_pkcs12_data cfg = None"
  then show ?thesis using assms
    by (force simp: resolve_pkcs12_def load_pkcs12_def bind_r_Inr_iff Let_def opens_bag_def bag_material_def split: if_splits)
next
  fix d assume "t_pkcs12_file cfg = None" "t_pkcs12_data cfg = Some d"
  then show ?thesis using assms
    by (force simp: resolve_pkcs12_def load_pkcs12_def bind_r_Inr_iff Let_def opens_bag_def bag_material_def split: if_splits)
qed (use assms in \<open>simp_all add: resolve_pkcs12_def\<close>)

definition hooked_of :: "tls_config \<Rightarrow> tls_material" where
  "hooked_of cfg = (case t_secrets cfg of Some (Inr (HookMaterial m)) \<Rightarrow> m | _ \<Rightarrow> no_material)"

lemma hook_Inr:
  "(case t_secrets cfg of None \<Rightarrow> Inr no_material | Some p \<Rightarrow> invoke_secrets p) = Inr hooked \<Longrightarrow> hooked = hooked_of cfg"
proof (cases "t_secrets cfg")
  case (Some r)
  assume h: "(case t_secrets cfg of None \<Rightarrow> Inr no_material | Some p \<Rightarrow> invoke_secrets p) = Inr hooked"
  then obtain x where x: "r = Inr x" by (cases r) (simp_all add: Some invoke_secrets_def)
  show ?thesis using h by (cases x) (simp_all add: Some x invoke_secrets_def hooked_of_def)
qed (simp add: hooked_of_def)

text \<open>
  C38. Material has one source, and is what that source holds. If the material of a connection resolves, then without
  PKCS#12 each slot was set by at most one of hook, file and data and holds exactly the octets it gave, not
  blank, or nothing if none is set. With PKCS#12 (a file or data, not both) the certificate and
  the key are those of the bag that was opened with the configured password, no other source sets them, and the CA is the
  bag's further certificates in their order, with no other source of a CA, or if there are none what hook, file or data say.\<close>

theorem resolved_material_has_one_source:
  assumes "resolve_tls_material rf load cfg = Inr m"
  shows "(if t_pkcs12_file cfg = None \<and> t_pkcs12_data cfg = None
          then comes_from rf (cert_pem m) (cert_pem (hooked_of cfg)) (t_cert_file cfg) (t_cert_data cfg) \<and>
               comes_from rf (key_pem m) (key_pem (hooked_of cfg)) (t_key_file cfg) (t_key_data cfg) \<and>
               comes_from rf (ca_pem m) (ca_pem (hooked_of cfg)) (t_ca_file cfg) (t_ca_data cfg)
          else \<exists>bag. opens_bag rf load cfg bag \<and>
               bag_cert bag \<noteq> None \<and> cert_pem m = bag_cert bag \<and> bag_key bag \<noteq> None \<and> key_pem m = bag_key bag \<and>
               sources (cert_pem (hooked_of cfg)) (t_cert_file cfg) (t_cert_data cfg) = 0 \<and>
               sources (key_pem (hooked_of cfg)) (t_key_file cfg) (t_key_data cfg) = 0 \<and>
               (if present (bag_additional bag) = []
                then comes_from rf (ca_pem m) (ca_pem (hooked_of cfg)) (t_ca_file cfg) (t_ca_data cfg)
                else ca_pem m = Some (concat (present (bag_additional bag))) \<and>
                  sources (ca_pem (hooked_of cfg)) (t_ca_file cfg) (t_ca_data cfg) = 0))"
proof -
  obtain hooked got where h: "hooked = hooked_of cfg" and p: "resolve_pkcs12 rf load cfg = Inr got"
    and rest: "(case got of
         Some bag \<Rightarrow>
           bind_r (assert_pkcs12_exclusive cfg bag hooked) (\<lambda>_.
           bind_r (if ca_pem bag = None then merge_slot rf (ca_pem hooked) (t_ca_file cfg) (t_ca_data cfg)
                   else Inr (ca_pem bag)) (\<lambda>ca.
             Inr \<lparr>ca_pem = ca, cert_pem = cert_pem bag, key_pem = key_pem bag\<rparr>))
       | None \<Rightarrow>
           bind_r (merge_slot rf (ca_pem hooked) (t_ca_file cfg) (t_ca_data cfg)) (\<lambda>ca.
           bind_r (merge_slot rf (cert_pem hooked) (t_cert_file cfg) (t_cert_data cfg)) (\<lambda>cert.
           bind_r (merge_slot rf (key_pem hooked) (t_key_file cfg) (t_key_data cfg)) (\<lambda>key.
             Inr \<lparr>ca_pem = ca, cert_pem = cert, key_pem = key\<rparr>)))) = Inr m"
    using assms unfolding resolve_tls_material_def bind_r_Inr_iff[of "case t_secrets cfg of None \<Rightarrow> _ | Some p \<Rightarrow> _ p"]
      bind_r_Inr_iff[of "resolve_pkcs12 rf load cfg"]
    by (blast dest: hook_Inr)
  show ?thesis
  proof (cases got)
    case None
    then show ?thesis using rest resolve_pkcs12_bag[OF p] by (auto simp: bind_r_Inr_iff merge_slot_comes h)
  next
    case (Some b)
    then obtain bag where b: "opens_bag rf load cfg bag" "bag_cert bag \<noteq> None" "bag_key bag \<noteq> None" "b = bag_material bag"
      using resolve_pkcs12_bag[OF p] by auto
    have s: "\<not> (t_pkcs12_file cfg = None \<and> t_pkcs12_data cfg = None)" using b(1) by (auto simp: opens_bag_def split: option.splits)
    have "assert_pkcs12_exclusive cfg b hooked = Inr ()" "cert_pem m = cert_pem b" "key_pem m = key_pem b"
      "if ca_pem b = None then comes_from rf (ca_pem m) (ca_pem hooked) (t_ca_file cfg) (t_ca_data cfg) else ca_pem m = ca_pem b"
      using rest Some by (auto simp: bind_r_Inr_iff merge_slot_comes[symmetric] split: if_splits)
    then show ?thesis unfolding if_not_P[OF s]
      using b by (intro exI[of _ bag]) (auto simp: assert_pkcs12_exclusive_def sources_def h bag_material_def split: if_splits)
  qed
qed

definition sample_tls :: tls_config where
  "sample_tls = \<lparr>t_ca_file = Some [99], t_cert_file = None, t_key_file = None, t_ca_data = None,
     t_cert_data = Some (PemBytes [65]), t_key_data = None, t_secrets = Some (Inr (HookMaterial no_material)),
     t_pkcs12_file = None, t_pkcs12_data = None, t_pkcs12_password = None\<rparr>"

theorem resolved_material_has_one_source_witness:
  "\<exists>m. resolve_tls_material (\<lambda>_. Inr [66]) (\<lambda>_ _. Inl (OtherError [])) sample_tls = Inr m \<and>
     cert_pem m = Some [65] \<and> ca_pem m = Some [66]"
proof -
  have "\<exists>m. resolve_tls_material (\<lambda>_. Inr [66]) (\<lambda>_ _. Inl (OtherError [])) sample_tls = Inr m"
    by (simp add: resolve_tls_material_def sample_tls_def invoke_secrets_def resolve_pkcs12_def merge_slot_def
        slot_from_file_or_data_def blank_def no_material_def)
  then show ?thesis
    using resolved_material_has_one_source[of "\<lambda>_. Inr [66]" "\<lambda>_ _. Inl (OtherError [])" sample_tls]
    by (auto simp: sample_tls_def hooked_of_def no_material_def comes_from_def)
qed

text \<open>
  No secret is shown: the printed form of the material is determined by which slots are set and
  how long they are.\<close>

theorem tls_repr_shows_lengths_only:
  assumes "map_option length (ca_pem a) = map_option length (ca_pem b)"
    and "map_option length (cert_pem a) = map_option length (cert_pem b)"
    and "map_option length (key_pem a) = map_option length (key_pem b)"
  shows "tls_repr a = tls_repr b"
  using assms by (auto simp: tls_repr_def redact_pem_def split: option.splits)

theorem tls_repr_shows_lengths_only_witness:
  "tls_repr \<lparr>ca_pem = None, cert_pem = Some [1, 2], key_pem = Some [3]\<rparr> =
   tls_repr \<lparr>ca_pem = None, cert_pem = Some [7, 8], key_pem = Some [9]\<rparr>"
  by (rule tls_repr_shows_lengths_only) simp_all

end
