(* ===== verification/ConnLife.thy ===== *)
theory ConnLife
  imports ConnOps TlsMaterial Complex_Main
begin

text \<open>
  \<^verbatim>\<open>src/src/nuropb_rmq/transport/connection.py\<close>: the life of a connection. \<open>connect\<close> is cut at its
  awaits: the socket is open, \<open>start\<close> has come, \<open>tune\<close> has come, \<open>open-ok\<close> has come. What the
  network, the TLS library and the clock answer are arguments.
\<close>

section \<open>TLS profiles and SASL\<close>

definition VERIFY_FULL :: pystr where "VERIFY_FULL = S ''tls-verify-full''"
definition VERIFY_CUSTOM_SAN :: pystr where "VERIFY_CUSTOM_SAN = S ''tls-verify-custom-san''"
definition INSECURE_DEV_ONLY :: pystr where "INSECURE_DEV_ONLY = S ''tls-insecure-dev-only''"

lemmas tls_profiles = VERIFY_FULL_def VERIFY_CUSTOM_SAN_def INSECURE_DEV_ONLY_def

definition server_hostname :: "conn_config \<Rightarrow> pystr" where
  "server_hostname cfg =
     (case cfg_server_hostname cfg of Some h \<Rightarrow> if h \<noteq> [] then h else cfg_host cfg | None \<Rightarrow> cfg_host cfg)"

text \<open>
  \<open>_build_ssl_context\<close>: whether the context verifies the peer. \<open>load\<close> is what loading the CA and
  the client certificate into the context did.
\<close>

definition build_ssl_context :: "conn_config \<Rightarrow> unit res \<Rightarrow> bool res" where
  "build_ssl_context cfg load =
     (if cfg_tls_profile cfg = INSECURE_DEV_ONLY then Inr False
      else bind_r load (\<lambda>_.
        if cfg_tls_profile cfg = VERIFY_CUSTOM_SAN then
          (if cfg_custom_sans cfg = [] then Inl (ValueError ''tls-verify-custom-san requires custom_sans allowlist'')
           else if server_hostname cfg \<notin> set (cfg_custom_sans cfg)
           then Inl (ValueError ''hostname {} not in custom_sans allowlist'')
           else Inr True)
        else if cfg_tls_profile cfg \<noteq> VERIFY_FULL then Inl (ValueError ''unknown tls profile {}'')
        else Inr True))"

text \<open>\<open>str.split()\<close>: the runs of characters that are not white space.\<close>

definition py_space :: "nat \<Rightarrow> bool" where
  "py_space c \<longleftrightarrow> 9 \<le> c \<and> c \<le> 13 \<or> 28 \<le> c \<and> c \<le> 32 \<or> c = 0x85 \<or> c = 0xA0 \<or> c = 0x1680
     \<or> 0x2000 \<le> c \<and> c \<le> 0x200A \<or> c = 0x2028 \<or> c = 0x2029 \<or> c = 0x202F \<or> c = 0x205F \<or> c = 0x3000"

fun split_words :: "pystr \<Rightarrow> pystr \<Rightarrow> pystr list" where
  "split_words acc [] = (if acc = [] then [] else [acc])"
| "split_words acc (c # cs) =
     (if py_space c then (if acc = [] then split_words [] cs else acc # split_words [] cs)
      else split_words (acc @ [c]) cs)"

definition select_sasl :: "bool \<Rightarrow> pystr \<Rightarrow> (pystr \<times> bytes) cop" where
  "select_sasl has_cert mechanisms =
     (let offered = split_words [] mechanisms in
      if S ''EXTERNAL'' \<in> set offered \<and> has_cert then ret_s (S ''EXTERNAL'', [])
      else if S ''PLAIN'' \<notin> set offered then
        seq_s (with_sm (sm_reject ''no supported SASL mechanism in {}'')) (ret_s ([], []))
      else
        bind_s (get_s c_config) (\<lambda>cfg.
        bind_s (lift_s (utf8_encode (cfg_username cfg))) (\<lambda>user.
        bind_s (lift_s (utf8_encode (cfg_password cfg))) (\<lambda>password.
          ret_s (S ''PLAIN'', 0 # user @ 0 # password)))))"

section \<open>Connecting\<close>

definition PROTOCOL_HEADER :: bytes where
  "PROTOCOL_HEADER = [65, 77, 81, 80, 0, 0, 9, 1]"

definition write_raw :: "bytes \<Rightarrow> unit cop" where
  "write_raw bs = modify_s (\<lambda>c. c\<lparr>c_out := c_out c @ bs\<rparr>)"

text \<open>Up to the await of \<open>open_connection\<close>; True if the socket is to be a TLS one.\<close>

definition connect_begin :: "tls_material res \<Rightarrow> unit res \<Rightarrow> bool cop" where
  "connect_begin material load =
     bind_s (get_s c_config) (\<lambda>cfg.
       if cfg_heartbeat cfg \<le> 0 \<or> cfg_heartbeat cfg > 60
       then raise_s (ValueError ''heartbeat must be 1..60, got {}'')
       else
         bind_s (if cfg_tls cfg
                 then bind_s (lift_s material) (\<lambda>_. bind_s (lift_s (build_ssl_context cfg load)) (\<lambda>_. ret_s True))
                 else ret_s False) (\<lambda>ssl.
           seq_s (with_sm (on_tcp_connected ssl)) (ret_s ssl)))"

text \<open>The socket is open (and verified, when it is a TLS one): header out, wait for start.\<close>

definition connect_opened :: "bool \<Rightarrow> nat cop" where
  "connect_opened ssl =
     seq_s (modify_s (\<lambda>c. c\<lparr>c_writer := True\<rparr>))
    (seq_s (if ssl then with_sm on_tls_verified else ret_s ())
    (seq_s (with_sm allow_amqp_header)
    (seq_s (write_raw PROTOCOL_HEADER)
    (seq_s drain
       (expect_begin (0, CONNECTION, CONNECTION_START))))))"

definition library_version :: pystr where "library_version = S ''1.0.0''"

definition connect_started :: "bool \<Rightarrow> nat \<Rightarrow> nat cop" where
  "connect_started has_cert fut =
     bind_s (expect_end (0, CONNECTION, CONNECTION_START) fut) (\<lambda>start.
     seq_s (with_sm on_connection_start)
    (bind_s (select_sasl has_cert (arg_str start ''mechanisms'')) (\<lambda>(mechanism, response).
     seq_s (with_sm (assert_can_send_connection_method CONNECTION_START_OK))
    (seq_s (send_method 0 (meth CONNECTION CONNECTION_START_OK
        [(S ''client_properties'', VDict [(S ''product'', VStr (S ''nuropb-rmq'')), (S ''version'', VStr library_version)]),
         (S ''mechanism'', VStr mechanism), (S ''response'', VBytes response), (S ''locale'', VStr (S ''en_US''))]))
    (seq_s (with_sm on_connection_start_ok_sent)
       (expect_begin (0, CONNECTION, CONNECTION_TUNE)))))))"

text \<open>\<open>args.get(k) or d\<close> on the integers of a decoded tune.\<close>

definition int_or :: "amqp_method \<Rightarrow> string \<Rightarrow> int \<Rightarrow> int" where
  "int_or m k d = (let v = dict_get_or (m_args m) (S k) VNone in if truthy v then int_of v else d)"

definition negotiate_frame_max :: "amqp_method \<Rightarrow> int \<Rightarrow> int" where
  "negotiate_frame_max tune cfg_max =
     (let fm = int_or tune ''frame_max'' cfg_max; fm' = (if fm = 0 then cfg_max else fm) in min fm' cfg_max)"

definition negotiate_heartbeat :: "amqp_method \<Rightarrow> int \<Rightarrow> int" where
  "negotiate_heartbeat tune hb_cfg =
     (let hb = min (int_or tune ''heartbeat'' hb_cfg) hb_cfg; hb' = (if hb \<le> 0 then hb_cfg else hb) in min hb' 60)"

definition connect_tuned :: "nat \<Rightarrow> (int \<times> nat) cop" where
  "connect_tuned fut =
     bind_s (expect_end (0, CONNECTION, CONNECTION_TUNE) fut) (\<lambda>tune.
     seq_s (with_sm on_connection_tune)
    (bind_s (get_s c_config) (\<lambda>cfg.
     let channel_max = int_or tune ''channel_max'' 2047;
         fm = negotiate_frame_max tune (cfg_frame_max cfg);
         heartbeat = negotiate_heartbeat tune (cfg_heartbeat cfg) in
     seq_s (modify_s (\<lambda>c. c\<lparr>c_frame_max := fm\<rparr>))
    (seq_s (with_sm (assert_can_send_connection_method CONNECTION_TUNE_OK))
    (seq_s (send_method 0 (meth CONNECTION CONNECTION_TUNE_OK
        [(S ''channel_max'', VInt channel_max), (S ''frame_max'', VInt fm), (S ''heartbeat'', VInt heartbeat)]))
    (seq_s (with_sm (on_connection_tune_ok_sent heartbeat))
    (seq_s (with_sm (assert_can_send_connection_method CONNECTION_OPEN))
    (seq_s (send_method 0 (meth CONNECTION CONNECTION_OPEN
        [(S ''virtual_host'', VStr (cfg_virtual_host cfg)), (S ''capabilities'', VStr []), (S ''insist'', VBool False)]))
    (seq_s (with_sm on_connection_open_sent)
    (bind_s (expect_begin (0, CONNECTION, CONNECTION_OPEN_OK)) (\<lambda>f. ret_s (heartbeat, f))))))))))))"

definition start_heartbeat :: "int \<Rightarrow> unit cop" where
  "start_heartbeat hb = modify_s (\<lambda>c. c\<lparr>c_heartbeat := max 0 hb\<rparr>)"

definition connect_done :: "int \<Rightarrow> nat \<Rightarrow> unit cop" where
  "connect_done heartbeat fut =
     seq_s (expect_end (0, CONNECTION, CONNECTION_OPEN_OK) fut)
    (seq_s (with_sm on_connection_open_ok)
       (start_heartbeat heartbeat))"

section \<open>Heartbeats\<close>

text \<open>
  One turn of the loop, after its sleep, up to the await of the drain: \<open>silent_for\<close> seconds have
  passed since the last frame of the peer; \<open>interval\<close> is the loop's own. True if the loop goes on.
\<close>

definition heartbeat_tick :: "int \<Rightarrow> real \<Rightarrow> conn \<Rightarrow> bool \<times> conn" where
  "heartbeat_tick interval silent_for c =
     (if c_closed c \<or> c_lost c \<noteq> None then (False, c)
      else if silent_for > 2 * real_of_int interval
      then (False, notify_loss (ConnectionLost ''heartbeat timeout'') c)
      else case send_frame \<lparr>frame_type = HEARTBEAT, channel = 0, payload = []\<rparr> c of
        (Inl e, c1) \<Rightarrow> (False, notify_loss e c1)
      | (Inr _, c1) \<Rightarrow> (True, c1))"

section \<open>Closing and dropping\<close>

text \<open>Up to the await of close-ok, if the connection is open; None when there is nothing to wait for.\<close>

definition close_begin :: "nat option cop" where
  "close_begin c =
     (if c_closed c then (Inr None, c)
      else
        (let c1 = c\<lparr>c_closed := True\<rparr> in
         if sm_is_open (c_sm c1) \<and> c_writer c1 then
           seq_s (with_sm sm_begin_close)
          (seq_s (send_method 0 (meth CONNECTION CONNECTION_CLOSE
              [(S ''reply_code'', VInt 200), (S ''reply_text'', VStr (S ''bye'')),
               (S ''class_id'', VInt 0), (S ''method_id'', VInt 0)]))
          (bind_s (expect_begin (0, CONNECTION, CONNECTION_CLOSE_OK)) (\<lambda>fut. ret_s (Some fut)))) c1
         else (Inr None, c1)))"

text \<open>\<open>except (TimeoutError, ProtocolError, AmqpCodecError): self.sm.on_close_ok()\<close>.\<close>

fun close_tolerates :: "py_exc \<Rightarrow> bool" where
  "close_tolerates TimeoutError = True"
| "close_tolerates (AmqpCodecError _) = True"
| "close_tolerates e = is_protocol_error e"

definition close_end :: "bool \<Rightarrow> nat \<Rightarrow> unit cop" where
  "close_end timed_out fut c =
     (case (if timed_out then expect_timeout (0, CONNECTION, CONNECTION_CLOSE_OK) fut c
            else expect_end (0, CONNECTION, CONNECTION_CLOSE_OK) fut c) of
        (Inr _, c1) \<Rightarrow> with_sm sm_on_close_ok c1
      | (Inl e, c1) \<Rightarrow> if close_tolerates e then with_sm sm_on_close_ok c1 else (Inl e, c1))"

definition force_drop :: "conn \<Rightarrow> conn" where
  "force_drop c = notify_loss (ConnectionLost ''connection dropped'') (c\<lparr>c_closed := True\<rparr>)"

section \<open>Receiving\<close>

text \<open>\<open>queue.get()\<close> and what follows it; None while the queue is empty.\<close>

definition receive_get :: "conn \<Rightarrow> (incoming res \<times> conn) option" where
  "receive_get c =
     (case c_deliveries c of
        [] \<Rightarrow> None
      | Item m # q \<Rightarrow> Some (Inr m, c\<lparr>c_deliveries := q\<rparr>)
      | LossSentinel # q \<Rightarrow>
          Some (Inl (case c_lost c of Some e \<Rightarrow> e | None \<Rightarrow> ConnectionLost ''connection lost''), c\<lparr>c_deliveries := q\<rparr>))"

definition receive :: "conn \<Rightarrow> (incoming res \<times> conn) option" where
  "receive c = (case c_lost c of Some e \<Rightarrow> Some (Inl e, c) | None \<Rightarrow> receive_get c)"

definition receive_return_get :: "conn \<Rightarrow> (returned res \<times> conn) option" where
  "receive_return_get c =
     (case c_returns c of
        [] \<Rightarrow> None
      | Item m # q \<Rightarrow> Some (Inr m, c\<lparr>c_returns := q\<rparr>)
      | LossSentinel # q \<Rightarrow>
          Some (Inl (case c_lost c of Some e \<Rightarrow> e | None \<Rightarrow> ConnectionLost ''connection lost''), c\<lparr>c_returns := q\<rparr>))"

definition receive_return :: "conn \<Rightarrow> (returned res \<times> conn) option" where
  "receive_return c = (case c_lost c of Some e \<Rightarrow> Some (Inl e, c) | None \<Rightarrow> receive_return_get c)"

end
