(* ===== verification/ConnInv.thy ===== *)
theory ConnInv
  imports ConnPublish ConnLife
begin

text \<open>
  What every operation of a connection keeps. \<open>evolves\<close> relates the states before and after: a
  well-formed connection stays well-formed, futures that are done keep their result, what was
  written stays written, a lost or closed connection stays so, and the loss is told once. It is
  reflexive and transitive, so that each operation keeps it because its parts do.
\<close>

section \<open>Well-formed connections\<close>

definition trackers_apart :: "(int \<times> tracker) list \<Rightarrow> bool" where
  "trackers_apart ts \<longleftrightarrow>
     (\<forall>a b t u. dict_get ts a = Some t \<longrightarrow> dict_get ts b = Some u \<longrightarrow> a \<noteq> b \<longrightarrow>
        snd ` set (outstanding t) \<inter> snd ` set (outstanding u) = {})"

definition conn_ok :: "conn \<Rightarrow> bool" where
  "conn_ok c \<longleftrightarrow>
     table_valid (c_waiters c) (c_wfuts c) \<and>
     (\<forall>ch t. dict_get (c_confirm c) ch = Some t \<longrightarrow> table_valid (outstanding t) (c_cfuts c)) \<and>
     trackers_apart (c_confirm c) \<and>
     (\<forall>ch sm. dict_get (c_channels c) ch = Some sm \<longrightarrow> ch_id sm = ch) \<and>
     sm_heartbeat (c_sm c) \<in> {1..60}"

fun is_loss_note :: "conn_note \<Rightarrow> bool" where
  "is_loss_note (OnLoss e) = True"
| "is_loss_note _ = False"

definition losses :: "conn \<Rightarrow> conn_note list" where
  "losses c = filter is_loss_note (c_notes c)"

definition loss_told :: "conn \<Rightarrow> bool" where
  "loss_told c \<longleftrightarrow> losses c = (case c_lost c of None \<Rightarrow> [] | Some e \<Rightarrow> [OnLoss e]) \<and>
     (case c_lost c of None \<Rightarrow> True | Some e \<Rightarrow> is_connection_lost e)"

definition evolves :: "conn \<Rightarrow> conn \<Rightarrow> bool" where
  "evolves c c' \<longleftrightarrow>
     (conn_ok c \<longrightarrow> conn_ok c') \<and> (loss_told c \<longrightarrow> loss_told c') \<and>
     heap_le (c_wfuts c) (c_wfuts c') \<and> heap_le (c_cfuts c) (c_cfuts c') \<and>
     prefix (c_out c) (c_out c') \<and>
     (c_lost c \<noteq> None \<longrightarrow> c_lost c' = c_lost c) \<and> (c_closed c \<longrightarrow> c_closed c')"

lemma evolves_refl [simp]: "evolves c c"
  by (simp add: evolves_def)

lemma evolves_trans: "evolves a b \<Longrightarrow> evolves b c \<Longrightarrow> evolves a c"
  unfolding evolves_def by (auto intro: heap_le_trans prefix_order.trans)

lemma evolves_reflp [simp, intro]: "reflp evolves" "transp evolves"
  by (auto simp: reflp_def intro!: transpI intro: evolves_trans)

named_theorems evo \<open>operations that evolve a connection\<close>

text \<open>A change of fields the relation does not mention.\<close>

lemma evolves_same:
  assumes "c_waiters c' = c_waiters c" "c_wfuts c' = c_wfuts c" "c_confirm c' = c_confirm c"
    "c_cfuts c' = c_cfuts c" "c_channels c' = c_channels c" "c_sm c' = c_sm c"
    "losses c' = losses c" "c_out c' = c_out c" "c_lost c' = c_lost c" "c_closed c \<longrightarrow> c_closed c'"
  shows "evolves c c'"
  using assms by (simp add: evolves_def conn_ok_def loss_told_def)

lemma keeps_same [evo]:
  assumes "\<And>c. c_waiters (f c) = c_waiters c \<and> c_wfuts (f c) = c_wfuts c \<and> c_confirm (f c) = c_confirm c \<and>
    c_cfuts (f c) = c_cfuts c \<and> c_channels (f c) = c_channels c \<and> c_sm (f c) = c_sm c \<and>
    losses (f c) = losses c \<and> c_out (f c) = c_out c \<and> c_lost (f c) = c_lost c \<and> (c_closed c \<longrightarrow> c_closed (f c))"
  shows "keeps evolves (modify_s f)"
  by (rule keeps_modify, rule evolves_same) (use assms in blast)+

lemmas keeps_comb [evo] =
  keeps_pure[OF evolves_reflp(1)] keeps_when[OF evolves_reflp(1)]
  keeps_bind[OF evolves_reflp(2)] keeps_seq[OF evolves_reflp(2)]

section \<open>The building blocks\<close>

lemma chan_id_ops:
  "ch_id (snd (ch_on_open_sent sm)) = ch_id sm" "ch_id (snd (ch_on_open_ok sm)) = ch_id sm"
  "ch_id (snd (ch_assert_open_for_ops sm)) = ch_id sm"
  by (simp_all add: chan_ops)

lemma with_sm_evolves:
  assumes "\<And>sm. sm_heartbeat sm \<in> {1..60} \<Longrightarrow> sm_heartbeat (snd (f sm)) \<in> {1..60}"
  shows "keeps evolves (with_sm f)"
proof (rule keepsI)
  fix c
  show "evolves c (snd (with_sm f c))"
    using assms[of "c_sm c"]
    by (auto simp: with_sm_def zoom_s_def evolves_def conn_ok_def loss_told_def losses_def split: prod.splits)
qed

lemma with_sm_step [evo]:
  "keeps evolves (with_sm (sm_reject r))" "keeps evolves (with_sm (on_tcp_connected b))"
  "keeps evolves (with_sm on_tls_verified)" "keeps evolves (with_sm allow_amqp_header)"
  "keeps evolves (with_sm on_connection_start)" "keeps evolves (with_sm on_connection_start_ok_sent)"
  "keeps evolves (with_sm on_connection_tune)" "keeps evolves (with_sm (on_connection_tune_ok_sent hb))"
  "keeps evolves (with_sm on_connection_open_sent)" "keeps evolves (with_sm on_connection_open_ok)"
  "keeps evolves (with_sm sm_begin_close)" "keeps evolves (with_sm sm_on_close_ok)"
  "keeps evolves (with_sm (assert_can_send_connection_method m))"
  by (rule with_sm_evolves, simp add: conn_ops split: option.splits)+

lemma with_channel_evolves:
  assumes "\<And>sm. ch_id (snd (f sm)) = ch_id sm"
  shows "keeps evolves (with_channel ch f)"
proof (rule keepsI)
  fix c
  show "evolves c (snd (with_channel ch f c))"
  proof (cases "dict_get (c_channels c) ch")
    case (Some sm)
    then show ?thesis
      using assms[of sm]
      by (cases "f sm") (auto simp: with_channel_def evolves_def conn_ok_def loss_told_def losses_def)
  qed (simp add: with_channel_def)
qed

lemma with_channel_step [evo]:
  "keeps evolves (with_channel ch ch_on_open_sent)" "keeps evolves (with_channel ch ch_on_open_ok)"
  "keeps evolves (channel_open_for_ops ch)"
  by (auto intro!: with_channel_evolves simp: chan_id_ops channel_open_for_ops_def)

lemma evolves_out: "evolves c (c\<lparr>c_out := c_out c @ bs\<rparr>)"
  by (simp add: evolves_def conn_ok_def loss_told_def losses_def)

lemma write_frame_evolves [evo]: "keeps evolves (write_frame f)"
  by (rule keepsI) (simp add: write_frame_def evolves_out split: sum.split)

lemma drain_evolves [evo]: "keeps evolves drain"
  by (rule keepsI) (simp add: drain_def)

lemma write_raw_evolves [evo]: "keeps evolves (write_raw bs)"
  unfolding write_raw_def by (rule keeps_modify) (rule evolves_out)

lemma send_evolves [evo]: "keeps evolves (send_frame f)" "keeps evolves (send_method ch m)" "keeps evolves (write_method ch m)"
  unfolding send_method_def send_frame_def write_method_def by (intro evo)+

lemma table_valid_put:
  assumes "table_valid d h"
  shows "table_valid (dict_set d k (length h)) (h @ [Pending])"
proof -
  have "(k', i) \<in> set (dict_set d k n) \<Longrightarrow> (k', i) = (k, n) \<or> (k', i) \<in> set d" for k' i and n :: nat
    by (induction d k n rule: dict_set.induct) (auto split: if_splits)
  then have "\<forall>i \<in> snd ` set (dict_set d k (length h)). i < Suc (length h)"
    using assms by (fastforce simp: table_valid_def)
  moreover have "distinct (map snd (dict_set d k n))"
    if "distinct (map snd d)" "n \<notin> snd ` set d" for n :: nat
    using that
  proof (induction d k n rule: dict_set.induct)
    case (2 k' v' d k v)
    have "snd ` set (dict_set d k v) \<subseteq> insert v (snd ` set d)"
      by (induction d k v rule: dict_set.induct) auto
    with 2 show ?case by auto
  qed simp
  moreover have "length h \<notin> snd ` set d" using assms by (auto simp: table_valid_def)
  ultimately show ?thesis using assms by (simp add: table_valid_def)
qed

lemma table_valid_le: "table_valid d h \<Longrightarrow> length h \<le> length h' \<Longrightarrow> table_valid d h'"
  by (force simp: table_valid_def)

lemma expect_begin_evolves [evo]: "keeps evolves (expect_begin key)"
  by (rule keepsI)
    (auto simp: expect_begin_def create_future_def evolves_def conn_ok_def loss_told_def losses_def table_valid_put)

lemma expect_end_evolves [evo]: "keeps evolves (expect_end key fut)" "keeps evolves (expect_timeout key fut)"
  by (rule keepsI,
      auto simp: expect_end_def expect_timeout_def evolves_def conn_ok_def loss_told_def losses_def table_valid_del)+

section \<open>Trackers\<close>

lemma evolves_tracker:
  assumes "conn_ok c \<Longrightarrow> table_valid (outstanding t') h'" "heap_le (c_cfuts c) h'"
    and "snd ` set (outstanding t') \<subseteq>
      (case dict_get (c_confirm c) ch of None \<Rightarrow> {} | Some t \<Rightarrow> snd ` set (outstanding t)) \<union> {length (c_cfuts c)..}"
  shows "evolves c (c\<lparr>c_confirm := dict_set (c_confirm c) ch t', c_cfuts := h'\<rparr>)"
proof -
  have len: "length (c_cfuts c) \<le> length h'" using assms(2) by (simp add: heap_le_def)
  have "conn_ok (c\<lparr>c_confirm := dict_set (c_confirm c) ch t', c_cfuts := h'\<rparr>)" if ok: "conn_ok c"
  proof -
    have v: "dict_get (c_confirm c) a = Some u \<Longrightarrow> table_valid (outstanding u) (c_cfuts c)" for a u
      using ok by (simp add: conn_ok_def)
    have new: "snd ` set (outstanding t') \<inter> snd ` set (outstanding u) = {}"
      if u: "dict_get (c_confirm c) a = Some u" "a \<noteq> ch" for a u
    proof -
      have "\<forall>i \<in> snd ` set (outstanding u). i < length (c_cfuts c)"
        using v[OF u(1)] by (auto simp: table_valid_def)
      then have "{length (c_cfuts c)..} \<inter> snd ` set (outstanding u) = {}" by force
      moreover have "(case dict_get (c_confirm c) ch of None \<Rightarrow> {} | Some t \<Rightarrow> snd ` set (outstanding t))
          \<inter> snd ` set (outstanding u) = {}"
        using ok u by (auto simp: conn_ok_def trackers_apart_def split: option.split)
      ultimately show ?thesis using assms(3) by blast
    qed
    have "trackers_apart (dict_set (c_confirm c) ch t')"
      using ok new by (auto simp: conn_ok_def trackers_apart_def Int_commute)
    moreover have "table_valid (outstanding u) h'" if "dict_get (c_confirm c) a = Some u" for a u
      using table_valid_le[OF v[OF that] len] .
    ultimately show ?thesis using ok assms(1)[OF ok] by (auto simp: conn_ok_def)
  qed
  then show ?thesis using assms(2) by (simp add: evolves_def loss_told_def losses_def)
qed

lemma snd_resolve_all: "snd ` set (fst (pops.resolve_all krs (d, h))) \<subseteq> snd ` set d"
proof (induction krs arbitrary: d h)
  case (Cons kr krs)
  obtain k r where kr: "kr = (k, r)" by (cases kr)
  obtain d' h' where s: "pop_settle k r (d, h) = (d', h')" by (cases "pop_settle k r (d, h)")
  then have "snd ` set d' \<subseteq> snd ` set d"
    by (auto simp: pop_settle_def dict_del_def split: option.splits)
  with Cons.IH[of d' h'] show ?case by (simp add: kr s)
qed simp

lemma tracker_resolve_facts:
  assumes "tracker_resolve d mult r (t, h) = (t', h')"
  shows "snd ` set (outstanding t') \<subseteq> snd ` set (outstanding t)"
    "table_valid (outstanding t) h \<Longrightarrow> table_valid (outstanding t') h'"
proof -
  let ?s = "pops.resolve_all (resolve_list d mult r t) (outstanding t, h)"
  have eq: "outstanding t' = fst ?s" "h' = snd ?s"
    using assms by (auto simp: tracker_resolve_pops Let_def)
  show "snd ` set (outstanding t') \<subseteq> snd ` set (outstanding t)" unfolding eq by (rule snd_resolve_all)
  show "table_valid (outstanding t') h'" if "table_valid (outstanding t) h"
    unfolding eq using pops.valid_resolve_all[of "(outstanding t, h)"] that by simp
qed

lemma heap_le_resolve_tags: "heap_le h (snd (resolve_tags tgs r (t, h)))"
proof (induction tgs r "(t, h)" arbitrary: t h rule: resolve_tags.induct)
  case (2 tg tgs r t h)
  then show ?case by (auto split: option.split intro: heap_le_trans[OF heap_le_settle])
qed simp

lemma heap_le_tracker_resolve: "tracker_resolve d mult r (t, h) = (t', h') \<Longrightarrow> heap_le h h'"
  using heap_le_resolve_tags[of h _ r t] by (simp add: tracker_resolve_def Let_def) (metis snd_conv)

lemma evolves_mandatory: "evolves c (c\<lparr>c_mandatory := m\<rparr>)"
  by (rule evolves_same) (simp_all add: losses_def)

lemma resolve_confirm_evolves:
  assumes "dict_get (c_confirm c) ch = Some t"
  shows "evolves c (resolve_confirm ch m t c)"
proof -
  let ?tg = "arg_int m ''delivery_tag'' 0" and ?mu = "arg_bool m ''multiple''"
  define c1 where "c1 = clear_mandatory_tags ch ?tg ?mu c"
  have c1: "evolves c c1" "c_confirm c1 = c_confirm c" "c_cfuts c1 = c_cfuts c"
    by (simp_all add: c1_def clear_mandatory_tags_def Let_def evolves_mandatory)
  define r where "r = (if m_method m = BASIC_ACK then Result () else Failed (PublishNack ?tg ?mu))"
  obtain t' h' where res: "tracker_resolve ?tg ?mu r (t, c_cfuts c1) = (t', h')" by force
  have eq: "resolve_confirm ch m t c = c1\<lparr>c_confirm := dict_set (c_confirm c1) ch t', c_cfuts := h'\<rparr>"
    using res by (auto simp: resolve_confirm_def Let_def c1_def r_def tracker_on_ack_def tracker_on_nack_def)
  have "evolves c1 (c1\<lparr>c_confirm := dict_set (c_confirm c1) ch t', c_cfuts := h'\<rparr>)"
  proof (rule evolves_tracker)
    show "conn_ok c1 \<Longrightarrow> table_valid (outstanding t') h'"
      using tracker_resolve_facts(2)[OF res] assms by (auto simp: conn_ok_def c1(2,3))
    show "heap_le (c_cfuts c1) h'" by (rule heap_le_tracker_resolve[OF res])
    show "snd ` set (outstanding t') \<subseteq>
      (case dict_get (c_confirm c1) ch of None \<Rightarrow> {} | Some t \<Rightarrow> snd ` set (outstanding t)) \<union> {length (c_cfuts c1)..}"
      using tracker_resolve_facts(1)[OF res] assms by (simp add: c1(2)) blast
  qed
  with c1(1) eq show ?thesis by (auto intro: evolves_trans)
qed

section \<open>The reader\<close>

lemma enabled_tracker_Some: "enabled_tracker c ch = Some t \<Longrightarrow> dict_get (c_confirm c) ch = Some t"
  by (auto simp: enabled_tracker_def split: option.splits if_splits)

lemma deliver_to_waiter_evolves: "evolves c (deliver_to_waiter ch m c)"
  by (auto simp: deliver_to_waiter_def evolves_def conn_ok_def loss_told_def losses_def split: option.split)

lemma set_pending_evolves: "evolves c (set_pending ch sl c)"
  by (rule evolves_same) (simp_all add: set_pending_def losses_def)

lemma finish_delivery_evolves: "evolves c (finish_delivery ch sl c)"
  by (rule evolves_same; simp add: finish_delivery_def finish_return_def Let_def losses_def
      split: slot_kind.split list.split)

lemma broker_close_evolves: "evolves c (snd (broker_close c))"
proof -
  obtain r c1 where s: "send_method 0 (meth CONNECTION CONNECTION_CLOSE_OK []) c = (r, c1)" by force
  have "evolves c c1" using keepsD[OF send_evolves(2), of c] s by (metis snd_conv)
  moreover have "evolves c1 (snd (with_sm (sm_reject ''broker closed: {}'') c1))"
    by (rule keepsD[OF with_sm_step(1)])
  ultimately show ?thesis by (auto simp: broker_close_def s intro: evolves_trans)
qed

lemma handle_method_evolves: "evolves c (snd (handle_method ch m c))"
proof -
  have rej: "evolves c (snd (with_sm (sm_reject r) c))" for r by (rule keepsD[OF with_sm_step(1)])
  have n: "\<not> is_loss_note x \<Longrightarrow> evolves c (c\<lparr>c_blocked := b, c_notes := c_notes c @ [x]\<rparr>)" for b x
    by (rule evolves_same) (simp_all add: losses_def)
  have res: "enabled_tracker c ch \<noteq> None \<Longrightarrow> evolves c (resolve_confirm ch m (the (enabled_tracker c ch)) c)"
    by (auto intro!: resolve_confirm_evolves enabled_tracker_Some)
  show ?thesis
    unfolding handle_method_def Let_def
    using rej n[of "OnBlocked _"] n[of OnUnblocked] res broker_close_evolves deliver_to_waiter_evolves set_pending_evolves
    by simp
qed

lemma handle_header_evolves: "evolves c (snd (handle_header ch data c))"
proof -
  have rej: "evolves c (snd (with_sm (sm_reject r) c))" for r by (rule keepsD[OF with_sm_step(1)])
  have "evolves c (finish_delivery ch sl (set_pending ch sl' c))" for sl sl'
    using set_pending_evolves finish_delivery_evolves by (rule evolves_trans)
  then show ?thesis
    using rej set_pending_evolves by (simp add: handle_header_def Let_def split: sum.split option.split)
qed

lemma handle_body_evolves: "evolves c (snd (handle_body ch data c))"
proof -
  have rej: "evolves d (snd (with_sm (sm_reject r) d))" for r d by (rule keepsD[OF with_sm_step(1)])
  have "evolves c (finish_delivery ch sl (set_pending ch sl' c))" for sl sl'
    using set_pending_evolves finish_delivery_evolves by (rule evolves_trans)
  moreover have "evolves c (snd (with_sm (sm_reject r) (set_pending ch sl c)))" for r sl
    using set_pending_evolves rej by (rule evolves_trans)
  ultimately show ?thesis
    using rej set_pending_evolves by (simp add: handle_body_def Let_def split: option.split)
qed

lemma handle_frame_evolves: "evolves c (snd (handle_frame f c))"
  using handle_method_evolves handle_header_evolves handle_body_evolves
  by (simp add: handle_frame_def split: frame_kind.split sum.split)

lemma set_buffer_evolves: "evolves c (set_buffer b c)"
  by (rule evolves_same) (simp_all add: set_buffer_def losses_def)

lemma process_frames_evolves: "evolves c (snd (process_frames buf c))"
proof (induction buf c rule: process_frames.induct)
  case (1 buf c)
  show ?case
  proof (cases "decode_frame buf (c_frame_max c) 0")
    case (Inl e)
    have "evolves c (snd (with_sm (sm_reject (exc_text e)) (set_buffer buf c)))"
      using set_buffer_evolves keepsD[OF with_sm_step(1)] by (rule evolves_trans)
    then show ?thesis
      using set_buffer_evolves by (simp add: process_frames.simps[of buf c] Inl)
  next
    case (Inr p)
    obtain f nxt where p: "p = (f, nxt)" by (cases p)
    obtain r c1 where h: "handle_frame f (set_buffer (drop nxt buf) c) = (r, c1)" by force
    have c1: "evolves c c1"
      using evolves_trans[OF set_buffer_evolves handle_frame_evolves, of c f "drop nxt buf"] h by simp
    show ?thesis
    proof (cases "\<exists>u. r = Inr u \<and> \<not> (nxt = 0 \<or> length buf < nxt)")
      case True
      then obtain u where u: "r = Inr u" "\<not> (nxt = 0 \<or> length buf < nxt)" by blast
      have "evolves c1 (snd (process_frames (drop nxt buf) c1))"
        using "1.IH"[OF Inr p[symmetric] h[symmetric] u] by simp
      then have "evolves c (snd (process_frames (drop nxt buf) c1))" by (rule evolves_trans[OF c1])
      then show ?thesis using u h by (simp add: process_frames.simps[of buf c] Inr p)
    next
      case False
      then show ?thesis using c1 h by (cases r) (auto simp: process_frames.simps[of buf c] Inr p)
    qed
  qed
qed

section \<open>Loss\<close>

lemma fail_trackers_get:
  "fail_trackers e ts h = (ts', h') \<Longrightarrow>
     dict_get ts' ch = map_option (\<lambda>t. t\<lparr>outstanding := []\<rparr>) (dict_get ts ch)"
proof (induction e ts h arbitrary: ts' h' rule: fail_trackers.induct)
  case (2 e c t ts h)
  then show ?case by (auto simp: tracker_fail_all_def split: prod.splits)
qed simp

lemma heap_le_settle_list: "heap_le h (settle_list fs r h)"
  by (induction fs r h rule: settle_list.induct) (auto intro: heap_le_trans[OF heap_le_settle])

lemma fail_trackers_heap: "fail_trackers e ts h = (ts', h') \<Longrightarrow> heap_le h h' \<and> length h' = length h"
proof (induction e ts h arbitrary: ts' h' rule: fail_trackers.induct)
  case (2 e c t ts h)
  then show ?case
    by (fastforce simp: tracker_fail_all_def split: prod.splits intro: heap_le_trans[OF heap_le_settle_list])
qed simp

lemma as_lost_lost: "is_connection_lost (as_lost e)"
  by (simp add: as_lost_def)

lemma notify_loss_evolves: "evolves c (notify_loss e c)"
proof (cases "c_lost c")
  case None
  obtain ts h where f: "fail_trackers (as_lost e) (c_confirm c) (c_cfuts c) = (ts, h)" by force
  note g = fail_trackers_get[OF f] and hl = fail_trackers_heap[OF f]
  have "trackers_apart ts"
    using g by (auto simp: trackers_apart_def)
  moreover have "losses (notify_loss e c) = losses c @ [OnLoss (as_lost e)]"
    using f by (simp add: notify_loss_def None Let_def fail_waiters_def losses_def)
  ultimately show ?thesis
    using g hl None f
    by (auto simp: evolves_def notify_loss_def Let_def fail_waiters_def conn_ok_def loss_told_def as_lost_lost
        table_valid_def heap_le_settle_list)
qed (simp add: notify_loss_def)

lemma loop_error_evolves: "evolves c (snd (loop_error e c))"
proof -
  obtain r c1 where s: "with_sm (sm_reject (exc_text e)) c = (r, c1)" by force
  have "evolves c c1" using keepsD[OF with_sm_step(1), of c "exc_text e"] s by simp
  then have "evolves c (notify_loss x c1)" for x using notify_loss_evolves by (rule evolves_trans)
  then show ?thesis using notify_loss_evolves by (cases r) (simp_all add: loop_error_def s)
qed

lemma on_chunk_evolves: "evolves c (snd (on_chunk chunk c))"
proof -
  obtain r c1 where s: "with_sm (sm_reject ''broker closed connection'') c = (r, c1)" by force
  have c1: "evolves c c1" using keepsD[OF with_sm_step(1), of c "''broker closed connection''"] s by simp
  obtain r2 c2 where t: "process_frames (c_buffer c @ chunk) c = (r2, c2)" by force
  have c2: "evolves c c2" using process_frames_evolves[of c "c_buffer c @ chunk"] t by simp
  have "evolves c (snd (loop_error e c1))" "evolves c (snd (loop_error e c2))" for e
    using c1 c2 loop_error_evolves evolves_trans by blast+
  then show ?thesis using c1 c2 by (cases r; cases r2) (simp_all add: on_chunk_def s t)
qed

section \<open>The operations\<close>

lemma channel_entry_evolves:
  assumes "dict_get (c_channels c) ch = None"
  shows "evolves c (c\<lparr>c_channels := dict_set (c_channels c) ch (chan_sm_init ch),
    c_confirm := dict_set (c_confirm c) ch tracker_init, c_mandatory := m, c_return_by_tag := r\<rparr>)"
proof -
  let ?c = "c\<lparr>c_confirm := dict_set (c_confirm c) ch tracker_init\<rparr>"
  have "evolves c (c\<lparr>c_confirm := dict_set (c_confirm c) ch tracker_init, c_cfuts := c_cfuts c\<rparr>)"
    by (rule evolves_tracker) (simp_all add: tracker_init_def)
  then have 1: "evolves c ?c" by simp
  have "evolves d (d\<lparr>c_channels := dict_set (c_channels d) ch (chan_sm_init ch), c_mandatory := m,
      c_return_by_tag := r\<rparr>)" for d
    by (simp add: evolves_def conn_ok_def loss_told_def losses_def chan_sm_init_def)
  from evolves_trans[OF 1 this[of ?c]]
  have "evolves c (?c\<lparr>c_channels := dict_set (c_channels c) ch (chan_sm_init ch), c_mandatory := m,
      c_return_by_tag := r\<rparr>)" by simp
  also have "?c\<lparr>c_channels := dict_set (c_channels c) ch (chan_sm_init ch), c_mandatory := m, c_return_by_tag := r\<rparr>
    = c\<lparr>c_channels := dict_set (c_channels c) ch (chan_sm_init ch),
        c_confirm := dict_set (c_confirm c) ch tracker_init, c_mandatory := m, c_return_by_tag := r\<rparr>"
    by (cases c) simp
  finally show ?thesis .
qed

lemma sm_open_or_raise_evolves [evo]: "keeps evolves sm_open_or_raise"
  by (rule keepsI) (simp add: sm_open_or_raise_def)

lemma open_channel_begin_evolves [evo]: "keeps evolves (open_channel_begin ch)"
proof -
  let ?m = "modify_s (\<lambda>c. c\<lparr>c_channels := dict_set (c_channels c) ch (chan_sm_init ch),
    c_confirm := dict_set (c_confirm c) ch tracker_init, c_mandatory := dict_set (c_mandatory c) ch [],
    c_return_by_tag := dict_set (c_return_by_tag c) ch []\<rparr>)"
  let ?k = "seq_s (with_channel ch ch_on_open_sent)
    (seq_s (send_method ch (meth CHANNEL CHANNEL_OPEN [(S ''out_of_band'', VStr [])]))
       (expect_begin (ch, CHANNEL, CHANNEL_OPEN_OK)))"
  have k: "keeps evolves ?k" by (intro evo)
  have "evolves c (snd (bind_s (get_s (\<lambda>c. dict_has (c_channels c) ch)) (\<lambda>exists.
      if exists then raise_s (ProtocolError ''channel {} already exists'') else seq_s ?m ?k) c))" for c
  proof (cases "dict_get (c_channels c) ch")
    case None
    let ?c = "snd (?m c)"
    have "evolves c ?c" using channel_entry_evolves[OF None] by (simp add: op_simps)
    moreover have "evolves ?c (snd (?k ?c))" by (rule keepsD[OF k])
    moreover have "bind_s (get_s (\<lambda>c. dict_has (c_channels c) ch)) (\<lambda>exists.
      if exists then raise_s (ProtocolError ''channel {} already exists'') else seq_s ?m ?k) c = ?k ?c"
      using None by (simp add: bind_s_def seq_s_def op_simps dict_has_def)
    ultimately show ?thesis by (auto intro: evolves_trans)
  qed (simp add: bind_s_def op_simps dict_has_def)
  then have "keeps evolves (bind_s (get_s (\<lambda>c. dict_has (c_channels c) ch)) (\<lambda>exists.
      if exists then raise_s (ProtocolError ''channel {} already exists'') else seq_s ?m ?k))"
    by (rule keepsI)
  with sm_open_or_raise_evolves show ?thesis
    unfolding open_channel_begin_def by (rule keeps_comb(7))
qed

lemma open_channel_end_evolves [evo]: "keeps evolves (open_channel_end ch fut)"
  unfolding open_channel_end_def by (intro evo)

lemma tracker_entry_evolves:
  assumes "outstanding t' = outstanding (tracker_of c ch)"
  shows "evolves c (c\<lparr>c_confirm := dict_set (c_confirm c) ch t'\<rparr>)"
proof -
  have o: "outstanding t' = (case dict_get (c_confirm c) ch of None \<Rightarrow> [] | Some t \<Rightarrow> outstanding t)"
    using assms by (simp add: tracker_of_def dict_get_or_def tracker_init_def split: option.split)
  have "evolves c (c\<lparr>c_confirm := dict_set (c_confirm c) ch t', c_cfuts := c_cfuts c\<rparr>)"
    by (rule evolves_tracker) (auto simp: o conn_ok_def split: option.split)
  then show ?thesis by simp
qed

lemma confirm_select_evolves [evo]:
  "keeps evolves (confirm_select_begin ch)" "keeps evolves (confirm_select_end ch fut)"
proof -
  have 1: "keeps evolves (modify_s (\<lambda>c. c\<lparr>c_confirm := dict_set (c_confirm c) ch (tracker_of c ch)\<rparr>))"
    by (rule keeps_modify, rule tracker_entry_evolves) simp
  have 2: "keeps evolves (modify_s (\<lambda>c. c\<lparr>c_confirm := dict_set (c_confirm c) ch (tracker_enable (tracker_of c ch))\<rparr>))"
    by (rule keeps_modify, rule tracker_entry_evolves) (simp add: tracker_enable_def)
  have 3: "keeps evolves (if on then ret_s None
       else seq_s (send_method ch (meth CONFIRM CONFIRM_SELECT [(S ''nowait'', VBool False)]))
              (bind_s (expect_begin (ch, CONFIRM, CONFIRM_SELECT_OK)) (\<lambda>fut. ret_s (Some fut))))" for on
    by (cases on) (simp_all only: if_True if_False, (intro evo)+)
  show "keeps evolves (confirm_select_begin ch)"
    unfolding confirm_select_begin_def by (intro keeps_comb(7,6,3) with_channel_step 1 3)
  show "keeps evolves (confirm_select_end ch fut)"
    unfolding confirm_select_end_def by (intro keeps_comb(7) 2 expect_end_evolves)
qed

lemma request_evolves [evo]: "keeps evolves (request ch m cid mid)"
  unfolding request_def by (intro evo)

lemma answer_arg_evolves [evo]: "keeps evolves (answer_arg ch cid mid k fut)"
  unfolding answer_arg_def by (intro evo)

lemma acks_evolve [evo]:
  "keeps evolves (basic_ack ch tg dr)" "keeps evolves (basic_nack ch tg rq mu dr)" "keeps evolves (basic_reject ch tg rq dr)"
  unfolding basic_ack_def basic_nack_def basic_reject_def by (intro evo)+

lemma evolves_mandatory_set: "evolves c (c\<lparr>c_mandatory := f (c_mandatory c)\<rparr>)"
  by (rule evolves_mandatory)

lemma dict_set_values: "snd ` set (dict_set d k v) \<subseteq> insert v (snd ` set d)"
  by (induction d k v rule: dict_set.induct) auto

lemma tracker_register_keeps:
  assumes "tracker_register (t, h) = (r, t', h')"
  shows "table_valid (outstanding t) h \<Longrightarrow> table_valid (outstanding t') h'" "heap_le h h'"
    "snd ` set (outstanding t') \<subseteq> snd ` set (outstanding t) \<union> {length h..}"
proof -
  have "t' = t \<and> h' = h \<or>
    outstanding t' = dict_set (outstanding t) (next_tag t) (length h) \<and> h' = h @ [Pending]"
    using assms by (cases "enabled t") (auto simp: tracker_register_eq tracker_register_off)
  then show "table_valid (outstanding t) h \<Longrightarrow> table_valid (outstanding t') h'" "heap_le h h'"
    "snd ` set (outstanding t') \<subseteq> snd ` set (outstanding t) \<union> {length h..}"
    using dict_set_values[of "outstanding t" "next_tag t" "length h"]
    by (auto simp: table_valid_put simp del: image_subset_iff dest!: subsetD)
qed

lemma publish_register_evolves [evo]: "keeps evolves (publish_register ch want mandatory)"
proof (rule keepsI)
  fix c
  show "evolves c (snd (publish_register ch want mandatory c))"
  proof (cases "want \<and> dict_get (c_confirm c) ch \<noteq> None")
    case True
    then obtain t where t: "dict_get (c_confirm c) ch = Some t" by blast
    obtain r t' h' where reg: "tracker_register (t, c_cfuts c) = (r, t', h')" by (cases "tracker_register (t, c_cfuts c)") auto
    have v: "conn_ok c \<Longrightarrow> table_valid (outstanding t) (c_cfuts c)" using t by (simp add: conn_ok_def)
    have f: "conn_ok c \<Longrightarrow> table_valid (outstanding t') h'" "heap_le (c_cfuts c) h'"
      "snd ` set (outstanding t') \<subseteq> snd ` set (outstanding t) \<union> {length (c_cfuts c)..}"
      using tracker_register_keeps[OF reg] v by blast+
    let ?c1 = "c\<lparr>c_confirm := dict_set (c_confirm c) ch t', c_cfuts := h'\<rparr>"
    have c1: "evolves c ?c1" using f by (intro evolves_tracker) (simp_all add: t)
    have "evolves c (?c1\<lparr>c_mandatory := m\<rparr>)" for m
      using c1 evolves_mandatory by (rule evolves_trans)
    then show ?thesis using c1 True t reg by (auto simp: publish_register_def Let_def split: sum.split)
  qed (auto simp: publish_register_def)
qed

lemma publish_head_evolves: "keeps evolves (publish_head ch body ex key mand props)"
  unfolding publish_head_def by (intro evo)

lemma body_loop_evolves:
  assumes "body_loop ch pm body off c = Some y"
  shows "evolves c (snd y)"
  using _ assms
proof (rule body_loop.raw_induct[where P = "\<lambda>ch pm body off c y. evolves c (snd y)"])
  fix f :: "int \<Rightarrow> nat \<Rightarrow> bytes \<Rightarrow> nat \<Rightarrow> conn \<Rightarrow> (unit res \<times> conn) option"
    and ch pm body off c y
  assume ih: "\<And>ch pm body off c y. f ch pm body off c = Some y \<Longrightarrow> evolves c (snd y)"
  let ?w = "write_frame \<lparr>frame_type = BODY, channel = ch, payload = pyslice body off (off + pm)\<rparr> c"
  assume eq: "(if off < length body
       then let chunk = pyslice body off (off + pm) in
         case write_frame \<lparr>frame_type = BODY, channel = ch, payload = chunk\<rparr> c of
           (Inl e, c') \<Rightarrow> Some (Inl e, c')
         | (Inr _, c') \<Rightarrow> f ch pm body (off + length chunk) c'
       else Some (Inr (), c)) = Some y"
  obtain w c1 where w: "?w = (w, c1)" by (cases ?w)
  have c1: "evolves c c1" using keepsD[OF write_frame_evolves, of c] w by (metis snd_conv)
  show "evolves c (snd y)"
  proof (cases "off < length body")
    case True
    with eq w c1 ih show ?thesis
      by (cases w; cases y) (auto simp: Let_def intro: evolves_trans)
  next
    case False
    with eq show ?thesis by (metis (no_types, lifting) evolves_refl option.inject snd_conv)
  qed
qed

lemma publish_write_evolves: "publish_write ch body ex key mand props c = Some (r, c') \<Longrightarrow> evolves c c'"
proof -
  assume p: "publish_write ch body ex key mand props c = Some (r, c')"
  obtain h c1 where h: "publish_head ch body ex key mand props c = (h, c1)" by force
  have c1: "evolves c c1" using keepsD[OF publish_head_evolves, of c] h by (metis snd_conv)
  have "evolves c1 (snd (write_frame f c1))" for f by (rule keepsD[OF write_frame_evolves])
  then have w: "write_frame f c1 = (x, c2) \<Longrightarrow> evolves c1 c2" for f x c2 by (metis snd_conv)
  show ?thesis
    using p c1 by (cases h) (auto simp: publish_write_def h split: if_splits
      dest!: w body_loop_evolves intro: evolves_trans)
qed

lemma publish_begin_evolves:
  assumes "publish_begin ch body ex key mand props want dr c = Some (r, c')"
  shows "evolves c c'"
proof -
  obtain x c1 where x: "publish_register ch want mand c = (x, c1)" by force
  have c1: "evolves c c1" using keepsD[OF publish_register_evolves, of c] x by (metis snd_conv)
  have k: "keeps evolves (seq_s (when_s dr drain) (ret_s tf))" for tf :: "(int \<times> nat) option" by (intro evo)
  show ?thesis
  proof (cases x)
    case (Inl e)
    then show ?thesis using assms c1 by (simp add: publish_begin_def x)
  next
    case (Inr tf)
    obtain w c2 where w: "publish_write ch body ex key mand props c1 = Some (w, c2)"
      using publish_write_total by blast
    have c2: "evolves c c2" using c1 publish_write_evolves[OF w] by (rule evolves_trans)
    have "evolves c2 (snd (seq_s (when_s dr drain) (ret_s tf) c2))" by (rule keepsD[OF k])
    then show ?thesis using assms c2 by (cases w) (auto simp: publish_begin_def x Inr w dest: evolves_trans)
  qed
qed

lemma publish_end_evolves [evo]: "keeps evolves (publish_end ch tg fut mand)"
proof (rule keepsI)
  fix c
  have "evolves c (c\<lparr>c_return_by_tag := r\<rparr>)" for r by (rule evolves_same) (simp_all add: losses_def)
  then show "evolves c (snd (publish_end ch tg fut mand c))"
    by (simp add: publish_end_def Let_def split: fut.split option.split)
qed

end
