(* ===== verification/ConnSteps.thy ===== *)
theory ConnSteps
  imports ConnInv
begin

text \<open>
  A connection as a transition system: \<open>conn_next\<close> has one rule for each stretch of code between two
  awaits, with any arguments and at any time, so that the interleavings of the tasks that share
  a connection are runs of it. What every operation keeps (\<^verbatim>\<open>ConnInv\<close>) then holds of all runs.
\<close>

section \<open>The rest of the operations\<close>

lemma heartbeat_bound: "sm_heartbeat (snd (on_connection_tune_ok_sent hb sm)) \<in> {1..60} \<longleftrightarrow>
    sm_heartbeat sm \<in> {1..60} \<or> sm_state sm = TUNE \<and> hb \<in> {1..60}"
  by (auto simp: conn_ops)

lemma keeps_if [evo]: "keeps R m \<Longrightarrow> keeps R k \<Longrightarrow> keeps R (if b then m else k)"
  by simp

lemma select_sasl_evolves [evo]: "keeps evolves (select_sasl cert mechs)"
  unfolding select_sasl_def Let_def by (intro evo)

lemma connect_begin_evolves [evo]: "keeps evolves (connect_begin material load)"
  unfolding connect_begin_def by (intro evo)

lemma connect_opened_evolves [evo]: "keeps evolves (connect_opened ssl)"
proof -
  have 1: "keeps evolves (modify_s (\<lambda>c. c\<lparr>c_writer := True\<rparr>))"
    by (rule keeps_same) (simp add: losses_def)
  show ?thesis unfolding connect_opened_def
    by (intro keeps_comb(7) keeps_if keeps_comb(1) 1 with_sm_step write_raw_evolves drain_evolves expect_begin_evolves)
qed

lemma connect_started_evolves [evo]: "keeps evolves (connect_started cert fut)"
  unfolding connect_started_def by (intro evo) (auto intro!: evo split: prod.split)

lemma connect_tuned_evolves [evo]: "keeps evolves (connect_tuned fut)"
proof -
  have 1: "keeps evolves (modify_s (\<lambda>c. c\<lparr>c_frame_max := fm\<rparr>))" for fm
    by (rule keeps_same) (simp add: losses_def)
  show ?thesis unfolding connect_tuned_def Let_def
    by (intro keeps_comb with_sm_step expect_end_evolves expect_begin_evolves send_evolves 1)
qed

lemma connect_done_evolves [evo]: "keeps evolves (connect_done hb fut)"
proof -
  have 1: "keeps evolves (start_heartbeat hb)"
    unfolding start_heartbeat_def by (rule keeps_same) (simp add: losses_def)
  show ?thesis unfolding connect_done_def by (intro keeps_comb with_sm_step expect_end_evolves 1)
qed

lemma update_secret_evolves [evo]:
  "keeps evolves (update_secret_begin v reason)" "keeps evolves (update_secret_end v fut)"
proof -
  show "keeps evolves (update_secret_begin v reason)" unfolding update_secret_begin_def by (intro evo)
  have 1: "keeps evolves (modify_s (\<lambda>c. c\<lparr>c_config := (c_config c)\<lparr>cfg_password := pw\<rparr>\<rparr>))" for pw
    by (rule keeps_same) (simp add: losses_def)
  show "keeps evolves (update_secret_end v fut)"
    unfolding update_secret_end_def by (intro keeps_comb expect_end_evolves 1)
qed

lemma heartbeat_tick_evolves: "evolves c (snd (heartbeat_tick h t c))"
proof -
  obtain r c1 where s: "send_frame \<lparr>frame_type = HEARTBEAT, channel = 0, payload = []\<rparr> c = (r, c1)" by force
  have "evolves c c1" using keepsD[OF send_evolves(1), of c] s by (metis snd_conv)
  moreover from this have "evolves c (notify_loss e c1)" for e using notify_loss_evolves by (rule evolves_trans)
  ultimately show ?thesis using notify_loss_evolves by (cases r) (simp_all add: heartbeat_tick_def s)
qed

lemma close_begin_evolves [evo]: "keeps evolves close_begin"
proof (rule keepsI)
  fix c
  let ?k = "seq_s (with_sm sm_begin_close)
          (seq_s (send_method 0 (meth CONNECTION CONNECTION_CLOSE
              [(S ''reply_code'', VInt 200), (S ''reply_text'', VStr (S ''bye'')),
               (S ''class_id'', VInt 0), (S ''method_id'', VInt 0)]))
          (bind_s (expect_begin (0, CONNECTION, CONNECTION_CLOSE_OK)) (\<lambda>fut. ret_s (Some fut))))"
  have k: "keeps evolves ?k" by (intro evo)
  have c1: "evolves c (c\<lparr>c_closed := True\<rparr>)" by (rule evolves_same) (simp_all add: losses_def)
  have "evolves c (snd (?k (c\<lparr>c_closed := True\<rparr>)))" using c1 keepsD[OF k] by (rule evolves_trans)
  then show "evolves c (snd (close_begin c))" using c1 by (simp add: close_begin_def Let_def)
qed

lemma close_end_evolves [evo]: "keeps evolves (close_end timed_out fut)"
proof (rule keepsI)
  fix c
  let ?w = "if timed_out then expect_timeout (0, CONNECTION, CONNECTION_CLOSE_OK) fut c
            else expect_end (0, CONNECTION, CONNECTION_CLOSE_OK) fut c"
  obtain r c1 where w: "?w = (r, c1)" by force
  have "evolves c c1" using w expect_end_evolves[THEN keepsD, of c] by (metis snd_conv)
  moreover have "evolves c1 (snd (with_sm sm_on_close_ok c1))" by (rule keepsD) (intro evo)
  ultimately have "evolves c (snd (with_sm sm_on_close_ok c1))" "evolves c c1" by (auto intro: evolves_trans)
  then show "evolves c (snd (close_end timed_out fut c))"
    using w by (cases r) (simp_all add: close_end_def)
qed

lemma force_drop_evolves: "evolves c (force_drop c)"
proof -
  have "evolves c (c\<lparr>c_closed := True\<rparr>)" by (rule evolves_same) (simp_all add: losses_def)
  then show ?thesis unfolding force_drop_def using notify_loss_evolves by (rule evolves_trans)
qed

lemma receive_evolves: "receive_get c = Some (r, c') \<Longrightarrow> evolves c c'"
  "receive_return_get c = Some (q, c'') \<Longrightarrow> evolves c c''"
  by (auto intro!: evolves_same simp: receive_get_def receive_return_get_def losses_def
      split: list.splits item.splits)

lemma ensure_profile_dlx_evolves: "keeps evolves (ensure_profile_dlx_begin ch p)"
  unfolding ensure_profile_dlx_begin_def exchange_declare_begin_def
  by (auto intro!: evo split: option.split)

lemma publish_check_evolves: "keeps evolves (publish_check ch p props)"
  unfolding publish_check_def by (auto intro!: evo split: option.split)

section \<open>Runs of a connection\<close>

text \<open>
  The operations write and go on in one stretch, as they do while the buffer of the transport is not full (\<open>drain\<close> returns
  at once). \<open>Write\<close> and \<open>Expect\<close> are the two halves of an operation that only writes and waits (\<open>request\<close>,
  \<open>update_secret\<close>, the acknowledgements) when its \<open>drain\<close> suspends in between or raises for a transport that has died.
\<close>

inductive conn_next :: "conn \<Rightarrow> conn \<Rightarrow> bool" where
  Begin: "connect_begin material load c = (r, c') \<Longrightarrow> conn_next c c'"
| Opened: "connect_opened ssl c = (r, c') \<Longrightarrow> conn_next c c'"
| Started: "connect_started cert fut c = (r, c') \<Longrightarrow> conn_next c c'"
| Tuned: "connect_tuned fut c = (r, c') \<Longrightarrow> conn_next c c'"
| Done: "connect_done hb fut c = (r, c') \<Longrightarrow> conn_next c c'"
| Chunk: "on_chunk chunk c = (r, c') \<Longrightarrow> conn_next c c'"
| Tick: "heartbeat_tick h silent c = (r, c') \<Longrightarrow> conn_next c c'"
| Timeout: "expect_timeout key fut c = (r, c') \<Longrightarrow> conn_next c c'"
| Open_Channel: "open_channel_begin ch c = (r, c') \<Longrightarrow> conn_next c c'"
| Opened_Channel: "open_channel_end ch fut c = (r, c') \<Longrightarrow> conn_next c c'"
| Select: "confirm_select_begin ch c = (r, c') \<Longrightarrow> conn_next c c'"
| Selected: "confirm_select_end ch fut c = (r, c') \<Longrightarrow> conn_next c c'"
| Request: "request ch m cid mid c = (r, c') \<Longrightarrow> conn_next c c'"
| Answer: "expect_end key fut c = (r, c') \<Longrightarrow> conn_next c c'"
| Secret: "update_secret_begin v reason c = (r, c') \<Longrightarrow> conn_next c c'"
| Secret_Ok: "update_secret_end v fut c = (r, c') \<Longrightarrow> conn_next c c'"
| Ack: "basic_ack ch tg dr c = (r, c') \<Longrightarrow> conn_next c c'"
| Nack: "basic_nack ch tg rq mult dr c = (r, c') \<Longrightarrow> conn_next c c'"
| Reject: "basic_reject ch tg rq dr c = (r, c') \<Longrightarrow> conn_next c c'"
| Publish: "publish_begin ch body ex key mand props want dr c = Some (p, c') \<Longrightarrow> conn_next c c'"
| Published: "publish_end ch tg fut mand c = (r, c') \<Longrightarrow> conn_next c c'"
| Receive: "receive_get c = Some (i, c') \<Longrightarrow> conn_next c c'"
| Receive_Return: "receive_return_get c = Some (q, c') \<Longrightarrow> conn_next c c'"
| Close: "close_begin c = (r, c') \<Longrightarrow> conn_next c c'"
| Closed: "close_end timed_out fut c = (r, c') \<Longrightarrow> conn_next c c'"
| Drop: "conn_next c (force_drop c)"
| Write: "write_frame f c = (r, c') \<Longrightarrow> conn_next c c'"
| Expect: "expect_begin key c = (r, c') \<Longrightarrow> conn_next c c'"

definition conn_reaches :: "conn \<Rightarrow> conn \<Rightarrow> bool" where
  "conn_reaches = conn_next\<^sup>*\<^sup>*"

lemma keeps_result: "keeps R m \<Longrightarrow> m c = (r, c') \<Longrightarrow> R c c'"
  by (metis keepsD snd_conv)

lemma conn_next_evolves: "conn_next c c' \<Longrightarrow> evolves c c'"
proof (induction rule: conn_next.induct)
  case (Chunk chunk c r c') then show ?case by (metis on_chunk_evolves snd_conv)
next
  case (Tick h silent c r c') then show ?case by (metis heartbeat_tick_evolves snd_conv)
next
  case (Publish ch body ex key mand props want dr c p c') then show ?case by (rule publish_begin_evolves)
next
  case (Receive c i c') then show ?case by (rule receive_evolves)
next
  case (Receive_Return c q c') then show ?case by (rule receive_evolves)
next
  case (Drop c) show ?case by (rule force_drop_evolves)
qed (rule keeps_result; (intro evo | assumption); assumption?)+

lemma conn_reaches_evolves: "conn_reaches c c' \<Longrightarrow> evolves c c'"
  unfolding conn_reaches_def
  by (induction rule: rtranclp_induct) (auto intro: conn_next_evolves evolves_trans)

lemma conn_init_ok: "conn_ok (conn_init cfg)" "loss_told (conn_init cfg)"
  by (simp_all add: conn_ok_def conn_init_def trackers_apart_def loss_told_def losses_def conn_sm_init_def)

lemma conn_reaches_init:
  assumes "conn_reaches (conn_init cfg) c"
  shows "conn_ok c" "loss_told c"
  using conn_reaches_evolves[OF assms] conn_init_ok[of cfg] by (simp_all add: evolves_def)

end
