(* ===== verification/ConnWaits.thy ===== *)
theory ConnWaits
  imports ConnSteps
begin

text \<open>
  Those who wait for the reader of a connection: what the read loop keeps of them, and how they are told
  when it stops.
\<close>

section \<open>Who waits for the reader\<close>

text \<open>
  What the reader leaves to those who wait: the table of method waiters, what is in the queues, and each
  confirm future of a tracker until it is done.
\<close>

definition outstanding_at :: "conn \<Rightarrow> int \<Rightarrow> nat set" where
  "outstanding_at c ch = (case dict_get (c_confirm c) ch of None \<Rightarrow> {} | Some t \<Rightarrow> snd ` set (outstanding t))"

definition awaited :: "conn \<Rightarrow> conn \<Rightarrow> bool" where
  "awaited c d \<longleftrightarrow> c_waiters d = c_waiters c \<and> prefix (c_deliveries c) (c_deliveries d) \<and> prefix (c_returns c) (c_returns d) \<and>
     (conn_ok c \<longrightarrow> (\<forall>ch. \<forall>f \<in> outstanding_at c ch. fut_done (c_cfuts d) f \<or> f \<in> outstanding_at d ch))"

definition reads_on :: "conn \<Rightarrow> conn \<Rightarrow> bool" where
  "reads_on c d \<longleftrightarrow> evolves c d \<and> awaited c d"

lemma fut_done_later: "heap_le h h' \<Longrightarrow> fut_done h f \<Longrightarrow> fut_done h' f"
  by (auto simp: heap_le_def fut_done_def)

lemma reads_on_trans: "reads_on a b \<Longrightarrow> reads_on b c \<Longrightarrow> reads_on a c"
proof -
  assume r: "reads_on a b" "reads_on b c"
  have "fut_done (c_cfuts c) f \<or> f \<in> outstanding_at c ch" if "conn_ok a" "f \<in> outstanding_at a ch" for ch f
  proof -
    have "conn_ok b" "heap_le (c_cfuts b) (c_cfuts c)" using r that(1) by (auto simp: reads_on_def evolves_def)
    then show ?thesis using r that fut_done_later unfolding reads_on_def awaited_def by blast
  qed
  then show "reads_on a c"
    using r by (auto simp: reads_on_def awaited_def intro: evolves_trans prefix_order.trans)
qed

lemma awaited_same:
  "c_waiters d = c_waiters c \<Longrightarrow> c_confirm d = c_confirm c \<Longrightarrow> prefix (c_deliveries c) (c_deliveries d) \<Longrightarrow>
     prefix (c_returns c) (c_returns d) \<Longrightarrow> awaited c d"
  by (simp add: awaited_def outstanding_at_def)

lemma awaited_parts:
  "awaited c (set_buffer b c)" "awaited c (set_pending ch sl c)" "awaited c (finish_delivery ch sl (set_pending ch' sl' c))"
  "awaited c (deliver_to_waiter ch m c)" "awaited c (snd (with_sm (g :: conn_sm \<Rightarrow> unit res \<times> conn_sm) c))"
  "awaited c (snd (with_sm (g :: conn_sm \<Rightarrow> unit res \<times> conn_sm) (set_pending ch sl c)))"
  "awaited c (c\<lparr>c_blocked := blocked, c_notes := n\<rparr>)" "awaited c (snd (broker_close c))" "awaited c c"
proof -
  obtain x c1 where s: "send_method 0 (meth CONNECTION CONNECTION_CLOSE_OK []) c = (x, c1)" by force
  then have "c_waiters c1 = c_waiters c \<and> c_confirm c1 = c_confirm c \<and> c_deliveries c1 = c_deliveries c \<and> c_returns c1 = c_returns c"
    by (cases "encode_method (meth CONNECTION CONNECTION_CLOSE_OK [])")
      (auto simp: send_method_def send_frame_def write_frame_def drain_def op_simps seq_s_def bind_s_def split: sum.splits if_splits)
  then show "awaited c (snd (broker_close c))"
    by (intro awaited_same) (simp_all add: broker_close_def s with_sm_def zoom_s_def sm_reject_def)
qed (rule awaited_same; simp add: set_buffer_def set_pending_def finish_delivery_def finish_return_def Let_def deliver_to_waiter_def
    with_sm_def zoom_s_def split: slot_kind.split list.split option.split prod.split)+

lemma table_entry: "dict_ok d \<Longrightarrow> f \<in> snd ` set d \<Longrightarrow> \<exists>k. dict_get d k = Some f"
  by (force simp: dict_ok_def dict_get_def)

text \<open>A confirm finishes what it takes out of the tracker.\<close>

lemma resolve_confirm_awaited:
  assumes "dict_get (c_confirm c) ch = Some t"
  shows "awaited c (resolve_confirm ch m t c)"
proof -
  let ?tg = "arg_int m ''delivery_tag'' 0" and ?mu = "arg_bool m ''multiple''"
  define r :: "unit fut" where "r = (if m_method m = BASIC_ACK then Result () else Failed (PublishNack ?tg ?mu))"
  obtain t' h' where res: "tracker_resolve ?tg ?mu r (t, c_cfuts c) = (t', h')" by force
  let ?d = "resolve_confirm ch m t c"
  have d: "c_waiters ?d = c_waiters c" "c_deliveries ?d = c_deliveries c" "c_returns ?d = c_returns c"
    "c_confirm ?d = dict_set (c_confirm c) ch t'" "c_cfuts ?d = h'"
    using res by (auto simp: resolve_confirm_def clear_mandatory_tags_def Let_def r_def tracker_on_ack_def tracker_on_nack_def)
  have "fut_done h' f \<or> f \<in> snd ` set (outstanding t')" if ok: "conn_ok c" and f: "f \<in> snd ` set (outstanding t)" for f
  proof -
    have v: "table_valid (outstanding t) (c_cfuts c)" using ok assms by (simp add: conn_ok_def)
    then obtain tg where tg: "dict_get (outstanding t) tg = Some f" using f table_entry[of "outstanding t" f] by (auto simp: table_valid_def)
    have n: "f < length (c_cfuts c)" using v f by (auto simp: table_valid_def)
    have le: "heap_le (c_cfuts c) h'" by (rule heap_le_tracker_resolve[OF res])
    show ?thesis
    proof (cases "covers ?tg ?mu tg")
      case True
      have "h' ! f = r" if "c_cfuts c ! f = Pending" using tracker_resolve_hit[OF v tg that True, of r] by (simp add: res)
      then show ?thesis using le n by (cases "c_cfuts c ! f") (auto simp: fut_done_def heap_le_def r_def)
    next
      case False
      then have "dict_get (outstanding t') tg = Some f" using tracker_resolve_entry[OF v, of ?tg ?mu r tg] tg by (simp add: res)
      then show ?thesis by (auto dest!: dict_get_in intro: rev_image_eqI)
    qed
  qed
  then show ?thesis by (auto simp: awaited_def outstanding_at_def d assms)
qed

lemma handle_frame_reads_on: "reads_on c (snd (handle_frame f c))"
proof -
  have m: "awaited c (snd (handle_method ch m c))" for ch m
  proof -
    have "awaited c (resolve_confirm ch m (the (enabled_tracker c ch)) c)" if "enabled_tracker c ch \<noteq> None"
      using that by (intro resolve_confirm_awaited) (auto simp: enabled_tracker_def split: option.splits if_splits)
    then show ?thesis unfolding handle_method_def Let_def using awaited_parts by simp
  qed
  have "awaited c (snd (handle_header ch d c))" "awaited c (snd (handle_body ch d c))" for ch d
    using awaited_parts by (simp_all add: handle_header_def handle_body_def Let_def split: sum.split option.split)
  with m awaited_parts(9) show ?thesis
    using handle_frame_evolves[of c f] by (auto simp: reads_on_def handle_frame_def split: frame_kind.splits sum.splits)
qed

lemma reads_on_parts: "reads_on c (set_buffer b c)" "reads_on c (snd (with_sm (sm_reject r :: conn_sm \<Rightarrow> unit res \<times> conn_sm) c))"
  using set_buffer_evolves awaited_parts(1,5) keepsD[OF with_sm_step(1)] by (auto simp: reads_on_def)

lemma process_frames_reads_on: "reads_on c (snd (process_frames buf c))"
proof (induction buf c rule: process_frames.induct)
  case (1 buf c)
  show ?case
  proof (cases "decode_frame buf (c_frame_max c) 0")
    case (Inl e)
    then show ?thesis using reads_on_trans[OF reads_on_parts(1,2)] reads_on_parts(1) by (simp add: process_frames.simps[of buf c])
  next
    case (Inr p)
    obtain f nxt where p: "p = (f, nxt)" by (cases p)
    obtain r c1 where h: "handle_frame f (set_buffer (drop nxt buf) c) = (r, c1)" by force
    have c1: "reads_on c c1"
      using reads_on_trans[OF reads_on_parts(1) handle_frame_reads_on, of c f "drop nxt buf"] h by simp
    show ?thesis
    proof (cases "\<exists>u. r = Inr u \<and> \<not> (nxt = 0 \<or> length buf < nxt)")
      case True
      then obtain u where u: "r = Inr u" "\<not> (nxt = 0 \<or> length buf < nxt)" by blast
      then show ?thesis using reads_on_trans[OF c1 "1.IH"[OF Inr p[symmetric] h[symmetric] u]] h
        by (simp add: process_frames.simps[of buf c] Inr p)
    next
      case False
      then show ?thesis using c1 h by (cases r) (auto simp: process_frames.simps[of buf c] Inr p)
    qed
  qed
qed

end
