(* ===== verification/DecodeErrors.thy ===== *)
theory DecodeErrors
  imports Methods
begin

text \<open>
  What the decoders raise. None of them raises a \<open>ProtocolError\<close>: that class is kept for
  \<open>reject\<close>, so that a \<open>ProtocolError\<close> of the read loop means the state machine is in \<open>ERROR\<close>.
\<close>

definition tame :: "'a res \<Rightarrow> bool" where
  "tame r \<longleftrightarrow> (case r of Inl e \<Rightarrow> \<not> is_protocol_error e | Inr _ \<Rightarrow> True)"

named_theorems tame_intros \<open>results that are no ProtocolError\<close>

lemma tame_Inr [simp, tame_intros]: "tame (Inr x)"
  by (simp add: tame_def)

lemma tame_Inl [simp]: "tame (Inl e) \<longleftrightarrow> \<not> is_protocol_error e"
  by (simp add: tame_def)

lemma tame_bind: "tame r \<Longrightarrow> (\<And>x. r = Inr x \<Longrightarrow> tame (f x)) \<Longrightarrow> tame (bind_r r f)"
  by (cases r) auto

lemma tame_bind_pair:
  "tame r \<Longrightarrow> (\<And>x y. r = Inr (x, y) \<Longrightarrow> tame (f x y)) \<Longrightarrow> tame (bind_r r (\<lambda>(x, y). f x y))"
  by (cases r) auto

lemma tame_D: "tame r \<Longrightarrow> r = Inl e \<Longrightarrow> \<not> is_protocol_error e"
  by simp

lemma tame_strings [tame_intros]:
  "tame (utf8_decode bs)" "tame (decode_shortstr data off)" "tame (decode_longstr data off)"
  "tame (short_at data off)" "tame (long_at data off)" "tame (index_r xs off)"
proof -
  show u: "tame (utf8_decode bs)" for bs by (simp add: utf8_decode_def split: option.split)
  show s: "tame (decode_shortstr data off)"
    by (auto simp: decode_shortstr_def Let_def intro!: tame_bind u)
  show l: "tame (decode_longstr data off)" by (auto simp: decode_longstr_def Let_def)
  show "tame (short_at data off)" unfolding short_at_def by (rule tame_bind_pair[OF s]) simp
  show "tame (long_at data off)" unfolding long_at_def by (rule tame_bind_pair[OF l]) simp
  show "tame (index_r xs off)" by (simp add: index_r_def)
qed

lemma tame_decode_scalar [tame_intros]: "tame (decode_scalar t data off)"
proof -
  have need: "tame (need data off n w (Inr x))" for n w and x :: "pyval \<times> nat" by (simp add: need_def)
  have s: "tame (bind_r (decode_shortstr data off) (\<lambda>(s, p). Inr (VStr s, p)))"
    by (rule tame_bind_pair) (simp_all add: tame_strings)
  have l: "tame (bind_r (decode_longstr data off) (\<lambda>(raw, p). bind_r (utf8_decode raw) (\<lambda>s. Inr (VStr s, p))))"
    by (rule tame_bind_pair, rule tame_strings, rule tame_bind) (simp_all add: tame_strings)
  have b: "tame (bind_r (decode_longstr data off) (\<lambda>(raw, p). Inr (VBytes raw, p)))"
    by (rule tame_bind_pair) (simp_all add: tame_strings)
  show ?thesis unfolding decode_scalar_def using need s l b by simp
qed

lemma tame_decode [tame_intros]:
  "tame (decode_field_value m data off d)" "tame (decode_items m data e d pos)"
  "tame (decode_table m data off d)" "tame (decode_entries m data e d pos r)"
proof (induction m data off d and m data e d pos and m data off d and m data e d pos r
    rule: decode_field_value_decode_items_decode_table_decode_entries.induct)
  case (1 m data off d)
  show ?case
    using "1.IH" tame_decode_scalar[of "tag_char (data ! off)" data "off + 1"]
    by (auto simp: decode_field_value.simps[of m data off d] Let_def intro!: tame_bind)
next
  case (2 m data e d pos)
  then show ?case
    by (auto simp: decode_items.simps[of m data e d pos] intro!: tame_bind)
next
  case (3 m data off d)
  then show ?case
    by (auto simp: decode_table.simps[of m data off d] Let_def intro!: tame_bind)
next
  case (4 m data e d pos r)
  then show ?case
    by (auto simp: decode_entries.simps[of m data e d pos r] tame_strings intro!: tame_bind)
qed

lemma tame_args [tame_intros]:
  "tame (decode_start_args data off)" "tame (decode_close_args data off)"
  "tame (decode_deliver_args data off)" "tame (decode_return_args data off)"
  unfolding decode_start_args_def decode_close_args_def decode_deliver_args_def decode_return_args_def
  by (intro tame_bind tame_bind_pair tame_intros)+

lemma tame_one_arg [tame_intros]: "tame r \<Longrightarrow> tame (one_arg k r)"
  unfolding one_arg_def by (rule tame_bind_pair) simp_all

lemma tame_decode_args: "tame (decode_args cid mid data off)"
proof -
  have q: "tame (bind_r (short_at data off) (\<lambda>(q, p). Inr (f q p)))" for f :: "pyval \<Rightarrow> nat \<Rightarrow> pydict"
    by (rule tame_bind_pair) (simp_all add: tame_strings)
  show ?thesis unfolding decode_args_def Let_def by (simp add: q tame_intros)
qed

lemma tame_decode_method: "tame (decode_method data)"
  unfolding decode_method_def Let_def by (auto intro!: tame_bind tame_decode_args)

lemma tame_decode_prop [tame_intros]: "tame (decode_prop k data off)"
  by (cases "(k, data, off)" rule: decode_prop.cases) (auto intro!: tame_bind tame_intros)

lemma tame_decode_props [tame_intros]: "tame (decode_props ps flags data off)"
  by (induction ps flags data off rule: decode_props.induct) (auto intro!: tame_bind tame_intros)

lemma tame_decode_content_header: "tame (decode_content_header data)"
  unfolding decode_content_header_def by (auto intro!: tame_bind tame_intros)

end
