(* ===== verification/ConnSafety.thy ===== *)
theory ConnSafety
  imports ConnWaits DecodeErrors
begin

text \<open>
  What a connection promises: it fails closed, a loss reaches everyone who waits and is told once,
  a publish always comes back to its caller, and what the reader does depends on the bytes of the
  peer and not on how they arrive.
\<close>

section \<open>The reader changes nothing but the connection's content\<close>

definition same_link :: "conn \<Rightarrow> conn \<Rightarrow> bool" where
  "same_link c c' \<longleftrightarrow> c_lost c' = c_lost c \<and> c_closed c' = c_closed c \<and> c_frame_max c' = c_frame_max c \<and>
     c_writer c' = c_writer c"

lemma same_link_refl [simp]: "same_link c c"
  by (simp add: same_link_def)

lemma same_link_trans: "same_link a b \<Longrightarrow> same_link b c \<Longrightarrow> same_link a c"
  by (simp add: same_link_def)

lemma same_link_parts:
  "same_link c (set_buffer b c)" "same_link c (set_pending ch sl c)" "same_link c (finish_delivery ch sl c)"
  "same_link c (deliver_to_waiter ch m c)" "same_link c (snd (with_sm f c))"
  "same_link c (resolve_confirm ch m t c)"
  by (simp_all add: same_link_def set_buffer_def set_pending_def finish_delivery_def finish_return_def Let_def
      deliver_to_waiter_def with_sm_def zoom_s_def resolve_confirm_def clear_mandatory_tags_def
      split: slot_kind.split list.split option.split prod.split)

lemma same_link_notes: "same_link c (c\<lparr>c_blocked := b, c_notes := n\<rparr>)"
  by (simp add: same_link_def)

lemma same_link_write: "same_link c (snd (write_frame f c))"
  by (simp add: same_link_def write_frame_def split: sum.split)

lemma same_link_send: "same_link c (snd (send_method ch m c))"
  by (cases "encode_method m"; cases "write_frame \<lparr>frame_type = METHOD, channel = ch, payload = projr (encode_method m)\<rparr> c";
      cases "fst (write_frame \<lparr>frame_type = METHOD, channel = ch, payload = projr (encode_method m)\<rparr> c)")
    (use same_link_write[of c "\<lparr>frame_type = METHOD, channel = ch, payload = projr (encode_method m)\<rparr>"] in
      \<open>auto simp: send_method_def send_frame_def bind_s_def seq_s_def op_simps drain_def\<close>)

lemma same_link_handle: "same_link c (snd (handle_frame f c))"
proof -
  have b: "same_link c (snd (broker_close c))"
  proof -
    obtain r c1 where s: "send_method 0 (meth CONNECTION CONNECTION_CLOSE_OK []) c = (r, c1)" by force
    have "same_link c c1" using same_link_send[of c 0 "meth CONNECTION CONNECTION_CLOSE_OK []"] s by simp
    then have "same_link c (snd (with_sm f c1))" for f :: "conn_sm \<Rightarrow> unit res \<times> conn_sm"
      using same_link_parts(5) by (rule same_link_trans)
    then show ?thesis by (simp add: broker_close_def s)
  qed
  have m: "same_link c (snd (handle_method ch m c))" for ch m
    by (simp add: handle_method_def Let_def b same_link_parts same_link_notes)
  have p: "same_link c (finish_delivery ch sl (set_pending ch' sl' c))"
    "same_link c (snd (with_sm f (set_pending ch' sl' c)))" for ch sl ch' sl' and f :: "conn_sm \<Rightarrow> unit res \<times> conn_sm"
    using same_link_parts(2,3,5) same_link_trans by blast+
  have "same_link c (snd (handle_header ch d c))" "same_link c (snd (handle_body ch d c))" for ch d
    by (simp_all add: p same_link_parts handle_header_def handle_body_def Let_def split: sum.split option.split)
  with m show ?thesis by (simp add: handle_frame_def split: frame_kind.split sum.split)
qed

section \<open>Errors of the reader\<close>

definition rejected :: "unit res \<times> conn \<Rightarrow> bool" where
  "rejected x \<longleftrightarrow> (case fst x of Inl e \<Rightarrow> is_protocol_error e \<longrightarrow> sm_state (c_sm (snd x)) = ERROR | Inr _ \<Rightarrow> True)"

lemma rejected_reject [simp]: "rejected (with_sm (sm_reject r) c)"
  by (simp add: rejected_def with_sm_def zoom_s_def sm_reject_def)

lemma rejected_Inr [simp]: "rejected (Inr u, c)"
  by (simp add: rejected_def)

lemma rejected_handle: "rejected (handle_frame f c)"
proof -
  have b: "rejected (broker_close c)" by (simp add: broker_close_def split: prod.split)
  have m: "rejected (handle_method ch m c)" for ch m
    unfolding handle_method_def Let_def using b by simp
  have h: "rejected (handle_header ch d c)" for ch d
    using tame_D[OF tame_decode_content_header[of d]]
    by (simp add: handle_header_def Let_def rejected_def[of "(Inl _, _)"] split: sum.split option.split)
  have "rejected (handle_body ch d c)" for ch d
    by (simp add: handle_body_def Let_def split: option.split)
  with h m tame_D[OF tame_decode_method[of "payload f"]] show ?thesis
    by (simp add: handle_frame_def rejected_def[of "(Inl _, _)"] split: frame_kind.split sum.split)
qed

lemma process_frames_link: "rejected (process_frames buf c) \<and> same_link c (snd (process_frames buf c))"
proof (induction buf c rule: process_frames.induct)
  case (1 buf c)
  show ?case
  proof (cases "decode_frame buf (c_frame_max c) 0")
    case (Inl e)
    have "same_link c (snd (with_sm (sm_reject (exc_text e)) (set_buffer buf c)))"
      using same_link_parts(1,5) by (rule same_link_trans)
    then show ?thesis using same_link_parts(1) by (simp add: process_frames.simps[of buf c] Inl)
  next
    case (Inr p)
    obtain f nxt where p: "p = (f, nxt)" by (cases p)
    obtain r c1 where h: "handle_frame f (set_buffer (drop nxt buf) c) = (r, c1)" by force
    have c1: "same_link c c1"
      using same_link_trans[OF same_link_parts(1) same_link_handle, of c f "drop nxt buf"] h by simp
    have rj: "rejected (r, c1)" using rejected_handle[of f "set_buffer (drop nxt buf) c"] h by simp
    show ?thesis
    proof (cases "\<exists>u. r = Inr u \<and> \<not> (nxt = 0 \<or> length buf < nxt)")
      case True
      then obtain u where u: "r = Inr u" "\<not> (nxt = 0 \<or> length buf < nxt)" by blast
      have "rejected (process_frames (drop nxt buf) c1) \<and> same_link c1 (snd (process_frames (drop nxt buf) c1))"
        using "1.IH"[OF Inr p[symmetric] h[symmetric] u] by simp
      then show ?thesis using u h c1 by (auto simp: process_frames.simps[of buf c] Inr p intro: same_link_trans)
    next
      case False
      then show ?thesis using c1 h rj by (cases r) (auto simp: process_frames.simps[of buf c] Inr p)
    qed
  qed
qed

section \<open>Loss\<close>

lemma fail_trackers_done:
  assumes "fail_trackers e ts h = (ts', h')" "f < length h" "(ch, t) \<in> set ts" "f \<in> snd ` set (outstanding t)"
  shows "h' ! f = (if h ! f = Pending then Failed e else h ! f)"
  using assms
proof (induction e ts h arbitrary: ts' h' rule: fail_trackers.induct)
  case (2 e c u ts h)
  let ?h = "settle_list (map snd (outstanding u)) (Failed e) h"
  obtain ts1 where rest: "fail_trackers e ts ?h = (ts1, h')"
    using "2.prems"(1) by (auto simp: tracker_fail_all_def split: prod.splits)
  have f: "f < length h" using "2.prems"(2) .
  have le: "heap_le ?h h'" using fail_trackers_heap[OF rest] by simp
  have ih: "(ch, t) \<in> set ts \<Longrightarrow> h' ! f = (if ?h ! f = Pending then Failed e else ?h ! f)"
    using "2.IH"[of "u\<lparr>outstanding := []\<rparr>" ?h ts1 h'] rest f "2.prems"(4) by (simp add: tracker_fail_all_def)
  show ?case
  proof (cases "(ch, t) \<in> set ts")
    case True
    then show ?thesis using ih f by (auto simp: settle_list_nth)
  next
    case False
    with "2.prems"(3) have "t = u" by simp
    then have "?h ! f = (if h ! f = Pending then Failed e else h ! f)"
      using f "2.prems"(4) by (simp add: settle_list_nth)
    moreover from this have "?h ! f \<noteq> Pending" by simp
    ultimately show ?thesis using le f by (auto simp: heap_le_def)
  qed
qed simp

lemma notify_loss_parts:
  assumes "c_lost c = None" "fail_trackers (as_lost e) (c_confirm c) (c_cfuts c) = (ts, h)"
  shows "c_lost (notify_loss e c) = Some (as_lost e)" "c_confirm (notify_loss e c) = ts" "c_cfuts (notify_loss e c) = h"
    "c_waiters (notify_loss e c) = c_waiters c" "c_sm (notify_loss e c) = c_sm c"
    "c_wfuts (notify_loss e c) = settle_list (map snd (c_waiters c)) (Failed (as_lost e)) (c_wfuts c)"
    "LossSentinel \<in> set (c_deliveries (notify_loss e c))" "LossSentinel \<in> set (c_returns (notify_loss e c))"
  using assms by (simp_all add: notify_loss_def Let_def fail_waiters_def)

text \<open>
  What those who waited at \<open>c\<close> find at \<open>c'\<close>: each future in the table of method waiters is done, and
  so is each confirm future in a tracker; the trackers are empty; each queue ends with one more sentinel.
\<close>

definition told :: "conn \<Rightarrow> conn \<Rightarrow> bool" where
  "told c c' \<longleftrightarrow> (\<forall>f \<in> snd ` set (c_waiters c). fut_done (c_wfuts c') f) \<and>
     (\<forall>ch. \<forall>f \<in> outstanding_at c ch. fut_done (c_cfuts c') f) \<and>
     (\<forall>ch t. dict_get (c_confirm c') ch = Some t \<longrightarrow> outstanding t = []) \<and>
     (\<exists>ms rs. c_deliveries c' = c_deliveries c @ ms @ [LossSentinel] \<and> c_returns c' = c_returns c @ rs @ [LossSentinel])"

lemma notify_loss_told:
  assumes "conn_ok c" "c_lost c = None"
  shows "told c (notify_loss e c)"
proof -
  obtain ts h where f: "fail_trackers (as_lost e) (c_confirm c) (c_cfuts c) = (ts, h)" by force
  have w: "fut_done (c_wfuts (notify_loss e c)) i" if "i \<in> snd ` set (c_waiters c)" for i
  proof -
    have "i < length (c_wfuts c)" using assms(1) that by (auto simp: conn_ok_def table_valid_def)
    then show ?thesis using that by (auto simp: notify_loss_parts[OF assms(2) f] fut_done_def settle_list_nth)
  qed
  have "fut_done h i" if t: "dict_get (c_confirm c) ch = Some t" "i \<in> snd ` set (outstanding t)" for ch t i
  proof -
    have "i < length (c_cfuts c)" using assms(1) t by (auto simp: conn_ok_def table_valid_def)
    moreover have "length (c_cfuts c) \<le> length h" using fail_trackers_heap[OF f] by (simp add: heap_le_def)
    ultimately show ?thesis using fail_trackers_done[OF f _ dict_get_in[OF t(1)] t(2)] by (simp add: fut_done_def)
  qed
  then have o: "\<forall>i \<in> outstanding_at c ch. fut_done (c_cfuts (notify_loss e c)) i" for ch
    by (auto simp: outstanding_at_def notify_loss_parts(3)[OF assms(2) f] split: option.splits)
  have e: "outstanding t = []" if "dict_get (c_confirm (notify_loss e c)) ch = Some t" for ch t
    using that by (auto simp: notify_loss_parts(2)[OF assms(2) f] fail_trackers_get[OF f])
  have q: "c_deliveries (notify_loss e c) = c_deliveries c @ [LossSentinel]" "c_returns (notify_loss e c) = c_returns c @ [LossSentinel]"
    using assms(2) f by (simp_all add: notify_loss_def Let_def fail_waiters_def)
  show ?thesis unfolding told_def using w o e q by (metis append_Nil)
qed

lemma reads_on_told:
  assumes "reads_on c d" "conn_ok c" "told d c'" "heap_le (c_cfuts d) (c_cfuts c')"
  shows "told c c'"
proof -
  have a: "awaited c d" using assms(1) by (simp add: reads_on_def)
  then obtain ms rs where "c_deliveries d = c_deliveries c @ ms" "c_returns d = c_returns c @ rs"
    by (auto simp: awaited_def prefix_def)
  moreover have "fut_done (c_cfuts c') f" if "f \<in> outstanding_at c ch" for ch f
    using a that assms(2,3) fut_done_later[OF assms(4)] unfolding awaited_def told_def by blast
  ultimately show ?thesis using a assms(3) by (auto simp: told_def awaited_def)
qed

lemma loop_error_lost:
  assumes "conn_ok c" "c_lost c = None" "rejected (Inl e, c)"
  shows "\<exists>r c'. loop_error e c = (r, c') \<and> r \<noteq> Inr True \<and> sm_state (c_sm c') = ERROR \<and>
    (\<exists>x. c_lost c' = Some x \<and> is_connection_lost x) \<and> told c c' \<and> heap_le (c_cfuts c) (c_cfuts c')"
proof (cases "is_protocol_error e")
  case True
  obtain ts h where f: "fail_trackers (as_lost e) (c_confirm c) (c_cfuts c) = (ts, h)" by force
  show ?thesis
    using True assms(3) notify_loss_told[OF assms(1,2)] notify_loss_parts[OF assms(2) f] notify_loss_evolves[of c e]
    by (simp add: loop_error_def rejected_def as_lost_lost evolves_def)
next
  case False
  let ?c = "c\<lparr>c_sm := (c_sm c)\<lparr>sm_state := ERROR\<rparr>\<rparr>" and ?e = "ProtocolError (exc_text e)"
  have ok: "conn_ok ?c" "c_lost ?c = None" using assms by (simp_all add: conn_ok_def)
  obtain ts h where f: "fail_trackers (as_lost ?e) (c_confirm ?c) (c_cfuts ?c) = (ts, h)" by force
  have "told c (notify_loss ?e ?c)" using notify_loss_told[OF ok, of ?e] by (simp add: told_def outstanding_at_def)
  then show ?thesis
    using False notify_loss_parts[OF ok(2) f] notify_loss_evolves[of ?c ?e]
    by (simp add: loop_error_def with_sm_def zoom_s_def sm_reject_def as_lost_lost evolves_def)
qed

section \<open>Properties\<close>

text \<open>
  C19. Every state a connection can reach is well-formed, whatever the broker sends and however the
  tasks that share it interleave: the waiting futures and those of the confirm trackers are
  allocated and no two keys, tags or channels share one, a channel's machine carries the id it is
  stored under, and the heartbeat is in 1..60.\<close>

theorem reachable_well_formed:
  "conn_reaches (conn_init cfg) c \<Longrightarrow> conn_ok c"
  by (rule conn_reaches_init)

text \<open>
  C8. A loss is told once. The callback of the user was called exactly once if the connection is
  lost and never if it is not, with the error that later receives raise; the error is a
  \<open>ConnectionLost\<close> even when a codec or protocol error was the cause.\<close>

theorem loss_is_told_once:
  assumes "conn_reaches (conn_init cfg) c"
  shows "filter is_loss_note (c_notes c) = (case c_lost c of None \<Rightarrow> [] | Some e \<Rightarrow> [OnLoss e]) \<and>
    (\<forall>e. c_lost c = Some e \<longrightarrow> is_connection_lost e \<and> receive c = Some (Inl e, c))"
  using conn_reaches_init(2)[OF assms]
  by (auto simp: loss_told_def losses_def receive_def split: option.splits)

text \<open>
  C29. History is kept along every run: what was written to the socket stays a prefix of what is
  written, a future that is done keeps its result for good, and a lost or closed connection is
  never found or open again.\<close>

theorem history_is_kept:
  assumes "conn_reaches c c'"
  shows "prefix (c_out c) (c_out c') \<and> heap_le (c_wfuts c) (c_wfuts c') \<and> heap_le (c_cfuts c) (c_cfuts c') \<and>
    (is_lost c \<longrightarrow> c_lost c' = c_lost c) \<and> (c_closed c \<longrightarrow> c_closed c')"
  using conn_reaches_evolves[OF assms] by (simp add: evolves_def is_lost_def)

text \<open>
  C3. The reader fails closed. When a turn of the read loop does not go on (the stream ended, a
  frame or a method could not be decoded, the broker closed the connection or broke the protocol),
  the state machine is in \<open>ERROR\<close>, the connection is lost and those it knows of are told: every future that was in the
  table of method waiters is done, every confirm future that was in a tracker is done and the
  trackers are empty, and behind what was received the queue of deliveries and that of returns have one sentinel each, which
  wakes one receiver. (Not told is a caller whose entry in the table was replaced before, by a
  second wait for the same answer: see \<open>overlapping_waits_lose_one\<close>.)\<close>

theorem reader_fails_closed:
  assumes "conn_reaches (conn_init cfg) c" "\<not> is_lost c" "\<not> c_closed c"
    and "on_chunk chunk c = (r, c')" "r \<noteq> Inr True"
  shows "sm_state (c_sm c') = ERROR \<and> (\<exists>e. c_lost c' = Some e \<and> is_connection_lost e) \<and> told c c'"
proof -
  have ok: "conn_ok c" using conn_reaches_init(1)[OF assms(1)] .
  define x where "x = (if chunk = [] then with_sm (sm_reject ''broker closed connection'') c else process_frames (c_buffer c @ chunk) c)"
  obtain y d where y: "x = (y, d)" by force
  have "reads_on c (snd x) \<and> rejected x \<and> same_link c (snd x)"
    unfolding x_def by (cases "chunk = []")
      (simp_all add: reads_on_parts(2) process_frames_reads_on process_frames_link same_link_parts(5))
  then have on: "reads_on c d" and link: "rejected (y, d)" "same_link c d" by (simp_all add: y)
  have d: "conn_ok d" "c_lost d = None" "\<not> c_closed d"
    using on link(2) ok assms(2,3) by (auto simp: reads_on_def evolves_def same_link_def is_lost_def)
  obtain e where e: "y = Inl e" using assms(4,5) y d(3) by (cases y) (auto simp: on_chunk_def x_def)
  then have "on_chunk chunk c = loop_error e d" using y by (simp add: on_chunk_def x_def)
  then show ?thesis
    using loop_error_lost[of d e] d(1,2) link(1) e assms(4) reads_on_told[OF on ok] by auto
qed

text \<open>
  A loss reaches every publish that awaits a confirm: each future of a tracker that was pending
  fails with the \<open>ConnectionLost\<close> of the connection, one that was done keeps its verdict.\<close>

theorem loss_fails_every_publish:
  assumes "conn_ok c" "\<not> is_lost c"
    and "dict_get (c_confirm c) ch = Some t" "dict_get (outstanding t) tg = Some f"
  shows "c_cfuts (notify_loss e c) ! f =
    (if c_cfuts c ! f = Pending then Failed (as_lost e) else c_cfuts c ! f)"
proof -
  obtain ts h where ft: "fail_trackers (as_lost e) (c_confirm c) (c_cfuts c) = (ts, h)" by force
  have n: "c_lost c = None" using assms(2) by (simp add: is_lost_def)
  have "table_valid (outstanding t) (c_cfuts c)" using assms(1,3) by (simp add: conn_ok_def)
  moreover have f: "f \<in> snd ` set (outstanding t)" using assms(4) by (auto dest!: dict_get_in intro: rev_image_eqI)
  ultimately have "f < length (c_cfuts c)" by (auto simp: table_valid_def)
  then show ?thesis
    using fail_trackers_done[OF ft _ dict_get_in[OF assms(3)] f] notify_loss_parts(3)[OF n ft] by simp
qed

text \<open>
  C30. A publish always comes back. Whatever the body, the frame size the broker granted and the
  state of the connection, \<open>basic_publish\<close> reaches its await or raises: the loop over the body ends
  because a connection that could write the method and header frames has room for at least one
  octet of body in a frame.\<close>

theorem publish_terminates:
  "\<exists>r c'. publish_begin ch body ex key mand props want dr c = Some (r, c')"
proof -
  obtain x c1 where x: "publish_register ch want mand c = (x, c1)" by force
  obtain w c2 where w: "publish_write ch body ex key mand props c1 = Some (w, c2)"
    using publish_write_total by blast
  show ?thesis
    using w by (cases x; cases w) (auto simp: publish_begin_def x)
qed

text \<open>
  Frames handled so far and those still to come: the buffer is only read by the loop itself, so
  that its value when a frame is handled does not matter.
\<close>

lemma with_sm_buffer: "with_sm f (set_buffer b c) = (case with_sm f c of (r, c') \<Rightarrow> (r, set_buffer b c'))"
  by (simp add: with_sm_def zoom_s_def set_buffer_def split: prod.split)

lemma set_buffer_twice [simp]: "set_buffer a (set_buffer b c) = set_buffer a c"
  by (simp add: set_buffer_def)

lemma write_frame_buffer:
  "write_frame f (set_buffer b c) = (case write_frame f c of (r, c') \<Rightarrow> (r, set_buffer b c'))"
  by (simp add: write_frame_def set_buffer_def split: sum.split)

lemma send_method_buffer:
  "send_method ch m (set_buffer b c) = (case send_method ch m c of (r, c') \<Rightarrow> (r, set_buffer b c'))"
  by (cases "encode_method m"; simp add: send_method_def send_frame_def bind_s_def seq_s_def op_simps drain_def
      write_frame_buffer split: prod.split sum.split) (auto simp: set_buffer_def)

lemma handle_frame_buffer:
  "handle_frame f (set_buffer b c) = (case handle_frame f c of (r, c') \<Rightarrow> (r, set_buffer b c'))"
proof -
  have f: "finish_delivery ch sl (set_buffer b c) = set_buffer b (finish_delivery ch sl c)" for ch sl c
    by (simp add: finish_delivery_def finish_return_def Let_def set_buffer_def split: slot_kind.split list.split)
  have p: "set_pending ch sl (set_buffer b c) = set_buffer b (set_pending ch sl c)" for ch sl c
    by (simp add: set_pending_def set_buffer_def)
  have w: "deliver_to_waiter ch m (set_buffer b c) = set_buffer b (deliver_to_waiter ch m c)" for ch m
    by (simp add: deliver_to_waiter_def set_buffer_def split: option.split)
  have e: "enabled_tracker (set_buffer b c) ch = enabled_tracker c ch" for ch
    by (simp add: enabled_tracker_def set_buffer_def)
  have r: "resolve_confirm ch m t (set_buffer b c) = set_buffer b (resolve_confirm ch m t c)" for ch m t
  proof -
    have k: "clear_mandatory_tags ch tg mu (set_buffer b c) = set_buffer b (clear_mandatory_tags ch tg mu c)" for tg mu
      by (simp add: clear_mandatory_tags_def Let_def set_buffer_def)
    have "c_cfuts (set_buffer b d) = c_cfuts d" "c_confirm (set_buffer b d) = c_confirm d" for d
      by (simp_all add: set_buffer_def)
    then show ?thesis
      by (cases "m_method m = BASIC_ACK")
        (simp_all only: resolve_confirm_def Let_def k if_True if_False,
         simp_all add: set_buffer_def split: prod.split)
  qed
  have bc: "broker_close (set_buffer b c) = (case broker_close c of (r, c') \<Rightarrow> (r, set_buffer b c'))"
    by (simp add: broker_close_def send_method_buffer with_sm_buffer split: prod.split)
  have n: "set_buffer b c\<lparr>c_blocked := x, c_notes := c_notes (set_buffer b c) @ y\<rparr> =
      set_buffer b (c\<lparr>c_blocked := x, c_notes := c_notes c @ y\<rparr>)" for x y
    by (simp add: set_buffer_def)
  have m: "handle_method ch m (set_buffer b c) = (case handle_method ch m c of (r, c') \<Rightarrow> (r, set_buffer b c'))" for ch m
    unfolding handle_method_def Let_def e if_distrib[of "case_prod _"]
    by (simp only: with_sm_buffer p w r bc n prod.case)
  have g: "c_pending (set_buffer b c) = c_pending c" by (simp add: set_buffer_def)
  have h: "handle_header ch d (set_buffer b c) = (case handle_header ch d c of (r, c') \<Rightarrow> (r, set_buffer b c'))" for ch d
    by (cases "decode_content_header d"; cases "dict_get (c_pending c) ch")
      (simp_all add: handle_header_def Let_def g with_sm_buffer p f split: prod.split)
  have "handle_body ch d (set_buffer b c) = (case handle_body ch d c of (r, c') \<Rightarrow> (r, set_buffer b c'))" for ch d
  proof (cases "dict_get (c_pending c) ch")
    case (Some sl)
    show ?thesis
      by (cases "sl_remaining sl") (simp_all add: handle_body_def Let_def g Some with_sm_buffer p f)
  qed (simp add: handle_body_def g with_sm_buffer)
  with h m show ?thesis by (simp add: handle_frame_def split: frame_kind.split sum.split)
qed


lemma process_frames_buffer [simp]: "process_frames buf (set_buffer b c) = process_frames buf c"
proof -
  have "c_frame_max (set_buffer b c) = c_frame_max c" by (simp add: set_buffer_def)
  then show ?thesis by (simp only: process_frames.simps[of buf "set_buffer b c"] process_frames.simps[of buf c] set_buffer_twice)
qed

lemma process_frames_append:
  "process_frames buf c = (Inr (), c1) \<Longrightarrow> process_frames (buf @ rest) c = process_frames (c_buffer c1 @ rest) c1"
proof (induction buf c arbitrary: c1 rule: process_frames.induct)
  case (1 buf c)
  show ?case
  proof (cases "decode_frame buf (c_frame_max c) 0")
    case (Inl e)
    then have "c1 = set_buffer buf c"
      using "1.prems" by (auto simp: process_frames.simps[of buf c] with_sm_def zoom_s_def sm_reject_def split: if_splits)
    moreover have "c_buffer (set_buffer buf c) = buf" by (simp add: set_buffer_def)
    ultimately show ?thesis by simp
  next
    case (Inr p)
    obtain f nxt where p: "p = (f, nxt)" by (cases p)
    have n: "\<not> (nxt = 0 \<or> length buf < nxt)" using frames.consumes[of buf "c_frame_max c" f nxt] Inr p by auto
    have rest: "decode_frame (buf @ rest) (c_frame_max c) 0 = Inr (f, nxt)"
      using frames.stable[of buf "c_frame_max c" f nxt rest] Inr p by simp
    obtain r c2 where h: "handle_frame f c = (r, c2)" by force
    then have hb: "handle_frame f (set_buffer b c) = (r, set_buffer b c2)" for b
      by (simp add: handle_frame_buffer)
    obtain u where r: "r = Inr u"
      using "1.prems" hb n by (cases r) (auto simp: process_frames.simps[of buf c] Inr p)
    have next1: "process_frames (drop nxt buf) (set_buffer (drop nxt buf) c2) = (Inr (), c1)"
      using "1.prems" hb n r by (simp add: process_frames.simps[of buf c] Inr p)
    have "process_frames (drop nxt buf @ rest) (set_buffer (drop nxt buf) c2) = process_frames (c_buffer c1 @ rest) c1"
      using "1.IH"[OF Inr p[symmetric] hb[symmetric] r n next1] .
    moreover have "process_frames (buf @ rest) c = process_frames (drop nxt buf @ rest) c2"
      using n by (simp add: process_frames.simps[of "buf @ rest" c] rest hb r)
    ultimately show ?thesis by simp
  qed
qed

text \<open>
  C20. What the connection does depends on the bytes of the peer and not on how they arrive: reading
  \<open>a\<close> and then \<open>b\<close> leads to the state, the calls of the user's callbacks, the written answers and
  the outcome that reading \<open>a @ b\<close> at once leads to.\<close>

theorem reads_do_not_matter:
  assumes "on_chunk a c = (Inr True, c1)" "b \<noteq> []"
  shows "on_chunk (a @ b) c = on_chunk b c1"
proof -
  have a: "a \<noteq> []"
    using assms(1) by (auto simp: on_chunk_def with_sm_def zoom_s_def sm_reject_def loop_error_def split: if_splits)
  have "process_frames (c_buffer c @ a) c = (Inr (), c1)"
    using assms(1) a by (auto simp: on_chunk_def loop_error_def split: prod.splits sum.splits if_splits)
  from process_frames_append[OF this, of b] show ?thesis using a assms(2) by (simp add: on_chunk_def)
qed

text \<open>
  A closing connection reads once more and no further: the reader tests the flag after every read,
  so that a close-ok that is not complete in the first read after \<open>close\<close> is never handled.
\<close>

lemma closing_reader_reads_once:
  assumes "c_closed c"
  shows "fst (on_chunk chunk c) \<noteq> Inr True"
proof -
  have "fst (loop_error e d) \<noteq> Inr True" for e d
    by (auto simp: loop_error_def split: prod.split sum.split)
  moreover have "c_closed d" if "process_frames (c_buffer c @ chunk) c = (x, d)" for x d
    using process_frames_link[of "c_buffer c @ chunk" c] that assms by (simp add: same_link_def)
  ultimately show ?thesis
    by (auto simp: on_chunk_def with_sm_def zoom_s_def sm_reject_def split: prod.split sum.split)
qed

lemma with_sm_Inr: "with_sm f c = (Inr u, c') \<longleftrightarrow> (\<exists>sm. f (c_sm c) = (Inr u, sm) \<and> c' = c\<lparr>c_sm := sm\<rparr>)"
  by (auto simp: with_sm_def zoom_s_def split: prod.splits)

lemma send_method_Inr: "send_method ch m c = (Inr u, c') \<longleftrightarrow>
    c_writer c \<and> (\<exists>p bs. encode_method m = Inr p \<and>
      encode_frame \<lparr>frame_type = METHOD, channel = ch, payload = p\<rparr> (c_frame_max c) = Inr bs \<and>
      c' = c\<lparr>c_out := c_out c @ bs\<rparr>)"
  by (cases "encode_method m")
    (auto simp: send_method_def send_frame_def bind_s_def seq_s_def op_simps drain_def write_frame_def split: sum.splits)

lemma expect_end_Inr: "expect_end key fut c = (Inr m, c') \<Longrightarrow> c' = c\<lparr>c_waiters := dict_del (c_waiters c) key\<rparr>"
  by (simp add: expect_end_def)

lemma negotiate_heartbeat_bounds: "cfg \<in> {1..60} \<Longrightarrow> negotiate_heartbeat m cfg \<in> {1..cfg}"
  by (auto simp: negotiate_heartbeat_def Let_def)

lemma handshake_steps:
  "on_connection_tune_ok_sent hb sm = (Inr u, sm') \<Longrightarrow> sm_heartbeat sm' = hb"
  "on_connection_open_sent sm = (Inr u, sm') \<Longrightarrow> sm_heartbeat sm' = sm_heartbeat sm \<and> sm_state sm' = OPEN"
  "assert_can_send_connection_method m sm = (Inr u, sm') \<Longrightarrow> sm' = sm"
  by (auto simp: conn_ops split: if_splits option.splits)

lemma encode_method_long: "encode_method m = Inr bs \<Longrightarrow> 0 < length bs"
  by (erule encode_method_InrE) auto

lemma encode_frame_room: "encode_frame f fm = Inr bs \<Longrightarrow> payload f = [] \<or> FRAME_OVERHEAD < fm"
  by (cases "payload f") (auto simp: encode_frame_Inr)

text \<open>
  C37. What tuning settles: the frame size never exceeds the configured one and leaves room for a
  frame, the heartbeat is in 1..60 and at most the configured one, and both are what the
  tune-ok written to the broker and the state machine say.\<close>

theorem tuned_within_limits:
  assumes "connect_tuned fut c = (Inr (hb, f), c')"
    and "cfg_heartbeat (c_config c) \<in> {1..60}"
  shows "hb \<in> {1..cfg_heartbeat (c_config c)} \<and> sm_heartbeat (c_sm c') = hb \<and>
    c_frame_max c' \<le> cfg_frame_max (c_config c) \<and> FRAME_OVERHEAD < c_frame_max c' \<and> sm_state (c_sm c') = OPEN"
proof -
  have "\<exists>tune. hb = negotiate_heartbeat tune (cfg_heartbeat (c_config c)) \<and> sm_heartbeat (c_sm c') = hb \<and>
    c_frame_max c' = negotiate_frame_max tune (cfg_frame_max (c_config c)) \<and> FRAME_OVERHEAD < c_frame_max c' \<and>
    sm_state (c_sm c') = OPEN"
    using assms(1) unfolding connect_tuned_def Let_def
    by (elim bind_s_InrE seq_s_InrE)
      (auto simp: op_simps with_sm_Inr send_method_Inr expect_begin_def create_future_def
        dest!: expect_end_Inr handshake_steps encode_method_long encode_frame_room)
  then show ?thesis
    using negotiate_heartbeat_bounds[OF assms(2)] by (auto simp: negotiate_frame_max_def Let_def)
qed

end
