(* ===== verification/ConnEdges.thy ===== *)
theory ConnEdges
  imports ConnSafety
begin

text \<open>
  Concrete connections for the properties of \<^verbatim>\<open>ConnPublish\<close> and \<^verbatim>\<open>ConnSafety\<close>, and what the
  connection does where tasks overlap, bodies are empty, encodings fail and losses come first.
\<close>

section \<open>A connection in use\<close>

definition sample_config :: conn_config where
  "sample_config = \<lparr>cfg_host = S ''localhost'', cfg_virtual_host = S ''/'', cfg_username = S ''guest'',
     cfg_password = S ''guest'', cfg_heartbeat = 60, cfg_frame_max = 64, cfg_tls = False,
     cfg_tls_profile = S ''tls-verify-full'', cfg_server_hostname = None, cfg_custom_sans = []\<rparr>"

definition sample_conn :: conn where
  "sample_conn = (conn_init sample_config)\<lparr>c_sm := \<lparr>sm_state = OPEN_OK, sm_heartbeat = 60\<rparr>, c_writer := True,
     c_channels := [(1, \<lparr>ch_id = 1, ch_state = Ch_OPEN\<rparr>)],
     c_confirm := [(1, \<lparr>next_tag = 1, outstanding = [], enabled = True\<rparr>)]\<rparr>"

definition deliver_payload :: bytes where
  "deliver_payload = [0, 60, 0, 60, 0, 0, 0, 0, 0, 0, 0, 0, 9, 0, 0, 0]"

definition sample_deliver :: amqp_method where
  "sample_deliver = meth BASIC BASIC_DELIVER [(S ''consumer_tag'', VStr []), (S ''delivery_tag'', VInt 9),
     (S ''redelivered'', VBool False), (S ''exchange'', VStr []), (S ''routing_key'', VStr [])]"

lemma sample_deliver_decoded: "decode_method deliver_payload = Inr sample_deliver"
  by (simp add: deliver_payload_def sample_deliver_def decode_method_def decode_args_def decode_deliver_args_def
      short_at_def decode_shortstr_def pyslice_def from_be_def utf8_empty index_r_def int_at_def Let_def)

lemma sample_publish_encodes:
  "\<exists>mp. encode_method (publish_method [] [] mand) = Inr mp \<and> length mp < 20"
  "n < 100 \<Longrightarrow> \<exists>hp. encode_content_header BASIC (int n) [] = Inr hp \<and> length hp = 14"
proof -
  show "\<exists>mp. encode_method (publish_method [] [] mand) = Inr mp \<and> length mp < 20"
    by (cases mand) (simp_all add: encode_method_def publish_method_def encode_args_def int_arg_def int_req_def short_arg_def dict_get_or_def
      encode_shortstr_def utf8_empty bits_arg_def is_set_def byte_of_int_def to_bytes_def)
  show "\<exists>hp. encode_content_header BASIC (int n) [] = Inr hp \<and> length hp = 14" if "n < 100"
    using that by (simp add: encode_content_header_def basic_props_def to_bytes_def)
qed

section \<open>Publishing succeeds\<close>

lemma body_loop_ok:
  assumes "c_writer c" "0 \<le> ch" "ch \<le> 0xFFFF" "0 < pm" "int pm = c_frame_max c - FRAME_OVERHEAD" "pm < 2 ^ 32"
  shows "\<exists>c'. body_loop ch pm body off c = Some (Inr (), c')"
  using assms
proof (induction "length body - off" arbitrary: off c rule: less_induct)
  case less
  show ?case
  proof (cases "off < length body")
    case True
    let ?k = "pyslice body off (off + pm)"
    have k: "0 < length ?k \<and> off + length ?k \<le> length body" "length ?k \<le> pm"
      using chunk_progress[OF less.prems(4) True] by (auto simp: length_pyslice)
    have "\<exists>bs. encode_frame \<lparr>frame_type = BODY, channel = ch, payload = ?k\<rparr> (c_frame_max c) = Inr bs"
      using less.prems k(2) by (simp add: encode_frame_Inr)
    then obtain bs where w: "write_frame \<lparr>frame_type = BODY, channel = ch, payload = ?k\<rparr> c = (Inr (), c\<lparr>c_out := c_out c @ bs\<rparr>)"
      using less.prems(1) by (auto simp: write_frame_def)
    have "length body - (off + length ?k) < length body - off" using k(1) True by linarith
    from less.hyps[OF this, of "c\<lparr>c_out := c_out c @ bs\<rparr>"] less.prems
    show ?thesis using w True by (simp add: body_loop_step(1))
  qed (simp add: body_loop_step(2))
qed

lemma publish_write_ok:
  assumes "c_writer c" "0 \<le> ch" "ch \<le> 0xFFFF" "c_frame_max c < 2 ^ 32"
    and "encode_method (publish_method ex key mand) = Inr mp"
    and "encode_content_header BASIC (int (length body)) (case props of None \<Rightarrow> [] | Some d \<Rightarrow> d) = Inr hp"
    and "FRAME_OVERHEAD + int (length mp) \<le> c_frame_max c" "FRAME_OVERHEAD + int (length hp) \<le> c_frame_max c"
  shows "\<exists>c'. publish_write ch body ex key mand props c = Some (Inr (), c')"
proof -
  have small: "length mp < 2 ^ 32" "length hp < 2 ^ 32" using assms(4,7,8) by (simp_all add: FRAME_OVERHEAD_def)
  have room: "FRAME_OVERHEAD \<le> c_frame_max c" using assms(7) by simp
  obtain mb where mb: "encode_frame \<lparr>frame_type = METHOD, channel = ch, payload = mp\<rparr> (c_frame_max c) = Inr mb"
    using assms(2,3,7) small room by (auto simp: encode_frame_Inr)
  obtain hb where hb: "encode_frame \<lparr>frame_type = HEADER, channel = ch, payload = hp\<rparr> (c_frame_max c) = Inr hb"
    using assms(2,3,8) small room by (auto simp: encode_frame_Inr)
  let ?c = "c\<lparr>c_out := c_out c @ mb @ hb\<rparr>" and ?pm = "c_frame_max c - FRAME_OVERHEAD"
  have len: "0 < int (length mp)" using encode_method_long[OF assms(5)] by linarith
  then have "0 < ?pm" using assms(7) by linarith
  with room have pm: "max_frame_payload (c_frame_max c) = Inr ?pm" "0 < ?pm"
    by (simp_all add: max_frame_payload_Inr)
  have head: "publish_head ch body ex key mand props c = (Inr ?pm, ?c)"
    by (simp add: publish_head_def write_method_def seq_s_def bind_s_def op_simps assms(5,6) write_frame_def
        assms(1) mb hb pm)
  have "\<exists>bs. encode_frame \<lparr>frame_type = BODY, channel = ch, payload = []\<rparr> (c_frame_max c) = Inr bs"
    using assms(2,3,7) by (simp add: encode_frame_Inr)
  then show ?thesis
    using body_loop_ok[of ?c ch "nat ?pm" body 0] assms(1-4) pm
    by (auto simp: publish_write_def head write_frame_def FRAME_OVERHEAD_def)
qed

lemma sample_publish:
  assumes "length body < 100"
  shows "\<exists>c'. publish_write 1 body [] [] mand None sample_conn = Some (Inr (), c')"
proof -
  obtain mp where mp: "encode_method (publish_method [] [] mand) = Inr mp" "length mp < 20"
    using sample_publish_encodes(1) by blast
  obtain hp where hp: "encode_content_header BASIC (int (length body)) [] = Inr hp" "length hp = 14"
    using sample_publish_encodes(2)[OF assms] by blast
  show ?thesis
    by (rule publish_write_ok[OF _ _ _ _ mp(1) _, of _ _ _ _ hp])
      (use mp hp in \<open>simp_all add: sample_conn_def conn_init_def sample_config_def FRAME_OVERHEAD_def\<close>)
qed

theorem published_is_received_witness:
  "\<exists>c' hf ks. publish_write 1 [1, 2, 3] [] [] False None sample_conn = Some (Inr (), c') \<and> concat ks = [1, 2, 3] \<and>
    handle_frames (\<lparr>frame_type = METHOD, channel = 1, payload = deliver_payload\<rparr> # hf # body_frames 1 ks) sample_conn =
      (Inr (), sample_conn\<lparr>c_deliveries := [Item (delivered sample_deliver [1, 2, 3] [])], c_pending := []\<rparr>)"
proof -
  obtain c' where c': "publish_write 1 [1, 2, 3] [] [] False None sample_conn = Some (Inr (), c')"
    using sample_publish[of "[1, 2, 3]" False] by auto
  have "read_props basic_props [] = []" by (simp add: basic_props_def)
  moreover have "props_ok basic_props (case None of None \<Rightarrow> [] | Some d \<Rightarrow> d)"
    by (simp add: props_ok_def basic_props_def)
  moreover have "c_deliveries sample_conn = []" "dict_del (c_pending sample_conn) 1 = []"
    by (simp_all add: sample_conn_def conn_init_def dict_del_def)
  moreover obtain hf ks where "concat ks = [1, 2, 3]"
    "\<And>d. handle_frames (\<lparr>frame_type = METHOD, channel = 1, payload = deliver_payload\<rparr> # hf # body_frames 1 ks) d =
      (Inr (), d\<lparr>c_deliveries := c_deliveries d @ [Item (delivered sample_deliver [1, 2, 3] (read_props basic_props []))],
        c_pending := dict_del (c_pending d) 1\<rparr>)"
    using published_is_received[OF c' _ _ sample_deliver_decoded] calculation(2)
    by (force simp: sample_deliver_def)
  ultimately show ?thesis using c' by (intro exI[of _ c'] exI[of _ hf] exI[of _ ks]) simp
qed

section \<open>Overlapping waits\<close>

text \<open>
  Two overlapping waits for the same method of the same channel lose one of them: the second
  \<open>_expect\<close> replaces the entry of the first, so that the answer reaches the second only, and neither
  the answer nor the loss of the connection reaches the first, whose future stays pending (it ends
  by the timeout of \<open>wait_for\<close> alone).\<close>

theorem overlapping_waits_lose_one:
  assumes "conn_ok c" "expect_begin (ch, m_class m, m_method m) c = (Inr first, c1)"
    and "expect_begin (ch, m_class m, m_method m) c1 = (Inr second, c2)"
  shows "c_wfuts (deliver_to_waiter ch m c2) ! second = Result m \<and>
    c_wfuts (deliver_to_waiter ch m c2) ! first = Pending \<and>
    (c_lost c = None \<longrightarrow> fut_done (c_wfuts (notify_loss e c2)) second \<and> c_wfuts (notify_loss e c2) ! first = Pending)"
proof -
  let ?k = "(ch, m_class m, m_method m)"
  have c2: "first = length (c_wfuts c)" "second = Suc (length (c_wfuts c))"
    "c_waiters c2 = dict_set (dict_set (c_waiters c) ?k first) ?k second"
    "c_wfuts c2 = c_wfuts c @ [Pending, Pending]" "c_lost c2 = c_lost c"
    using assms(2,3) by (auto simp: expect_begin_def create_future_def)
  have w: "snd ` set (c_waiters c2) \<subseteq> insert second (snd ` set (c_waiters c))"
    using dict_set_values[of "c_waiters c" ?k second] by (simp add: c2(3))
  have "\<forall>f \<in> snd ` set (c_waiters c). f < length (c_wfuts c)"
    using assms(1) by (auto simp: conn_ok_def table_valid_def)
  with w have n: "first \<notin> snd ` set (c_waiters c2)" unfolding c2(1,2) by fastforce
  have g: "dict_get (c_waiters c2) ?k = Some second" by (simp add: c2(3))
  then have s: "second \<in> snd ` set (c_waiters c2)" by (auto dest!: dict_get_in intro: rev_image_eqI)
  have l: "first < length (c_wfuts c2)" "second < length (c_wfuts c2)" by (simp_all add: c2)
  have p: "c_wfuts c2 ! first = Pending" "c_wfuts c2 ! second = Pending" by (simp_all add: c2 nth_append)
  have "c_wfuts (notify_loss e c2) = settle_list (map snd (c_waiters c2)) (Failed (as_lost e)) (c_wfuts c2)"
    if "c_lost c = None"
    using that c2(5) notify_loss_parts(6)[of c2 e] by (metis prod.exhaust)
  then show ?thesis
    using g n s l p c2(1,2) by (auto simp: deliver_to_waiter_def nth_settle settle_list_nth fut_done_def)
qed

theorem overlapping_waits_lose_one_witness:
  "c_wfuts (deliver_to_waiter 1 (meth CONFIRM CONFIRM_SELECT_OK [])
      (snd (expect_begin (1, CONFIRM, CONFIRM_SELECT_OK) (snd (expect_begin (1, CONFIRM, CONFIRM_SELECT_OK) sample_conn))))) ! 0
    = Pending"
proof -
  have "conn_ok sample_conn"
    by (simp add: sample_conn_def conn_init_def conn_ok_def trackers_apart_def)
  from overlapping_waits_lose_one[OF this, of 1 "meth CONFIRM CONFIRM_SELECT_OK []"]
  show ?thesis by (simp add: expect_begin_def create_future_def sample_conn_def conn_init_def)
qed

section \<open>Publishing an empty body\<close>

text \<open>
  An empty body is written as a header of size 0 followed by an empty body frame, which the
  reader of this very library refuses: after the header the message is complete, and the body frame
  is a protocol error that loses the connection.\<close>

theorem empty_body_refused:
  assumes "publish_write ch [] ex key mand props c = Some (Inr (), c')"
    and "props_ok basic_props (case props of None \<Rightarrow> [] | Some d \<Rightarrow> d)"
    and "decode_method dp = Inr m" "m_class m = BASIC" "m_method m = BASIC_DELIVER"
  shows "\<exists>out mf hf. c' = c\<lparr>c_out := c_out c @ out\<rparr> \<and>
    drain_buffer (c_frame_max c) out = (mf # hf # body_frames ch [[]], [], None) \<and>
    (\<forall>d. fst (handle_frames (\<lparr>frame_type = METHOD, channel = ch, payload = dp\<rparr> # hf # body_frames ch [[]]) d) =
      Inl (ProtocolError ''body frame without header''))"
proof -
  obtain pm c1 where head: "publish_head ch [] ex key mand props c = (Inr pm, c1)"
    and body: "write_frame \<lparr>frame_type = BODY, channel = ch, payload = []\<rparr> c1 = (Inr (), c')"
    using assms(1) by (auto simp: publish_write_def split: prod.splits sum.splits)
  obtain mp hp mb hb where
    h: "encode_content_header BASIC (int (length ([]::bytes))) (case props of None \<Rightarrow> [] | Some d \<Rightarrow> d) = Inr hp"
    and mb: "encode_frame \<lparr>frame_type = METHOD, channel = ch, payload = mp\<rparr> (c_frame_max c) = Inr mb"
    and hb: "encode_frame \<lparr>frame_type = HEADER, channel = ch, payload = hp\<rparr> (c_frame_max c) = Inr hb"
    and c1: "c1 = c\<lparr>c_out := c_out c @ mb @ hb\<rparr>"
    by (rule publish_head_Inr[OF head])
  obtain bb where bb: "encode_frame \<lparr>frame_type = BODY, channel = ch, payload = []\<rparr> (c_frame_max c) = Inr bb"
    and c': "c' = c\<lparr>c_out := c_out c @ mb @ hb @ bb\<rparr>"
    using body by (auto simp: write_frame_Inr c1)
  let ?mf = "\<lparr>frame_type = METHOD, channel = ch, payload = mp\<rparr>"
  let ?hf = "\<lparr>frame_type = HEADER, channel = ch, payload = hp\<rparr>"
  have "list_all2 (\<lambda>f bs. True \<and> encode_frame f (c_frame_max c) = Inr bs) (?mf # ?hf # body_frames ch [[]]) [mb, hb, bb]"
    using mb hb bb by simp
  moreover have "0 < length mb" using encode_frame_length[OF mb] by simp
  ultimately have "drain_with (\<lambda>data. decode_frame data (c_frame_max c)) is_incomplete
      (concat [mb, hb, bb] @ take 0 mb) = (?mf # ?hf # body_frames ch [[]], take 0 mb, None)"
    by (intro frames.drain_encoded[of _ _ _ ?mf]) (use mb in auto)
  then have d: "drain_buffer (c_frame_max c) (mb @ hb @ bb) = (?mf # ?hf # body_frames ch [[]], [], None)"
    by (simp add: drain_buffer_with)
  have dec: "decode_content_header hp =
      Inr (BASIC, 0, read_props basic_props (case props of None \<Rightarrow> [] | Some p \<Rightarrow> p))"
    using header_round[OF h assms(2), of "[]"] by simp
  have 1: "handle_frame \<lparr>frame_type = METHOD, channel = ch, payload = dp\<rparr> e =
      (Inr (), set_pending ch (new_slot (SDeliver m)) e)" for e
    using assms(3-5) by (simp add: handle_frame_def handle_method_def)
  have 2: "\<exists>x. handle_frame ?hf (set_pending ch (new_slot (SDeliver m)) e) = (Inr (), x) \<and> dict_get (c_pending x) ch = None" for e
    using dec by (simp add: handle_frame_def handle_header_def set_pending_def Let_def new_slot_def finish_delivery_def)
  have 3: "fst (handle_frame \<lparr>frame_type = BODY, channel = ch, payload = []\<rparr> x) = Inl (ProtocolError ''body frame without header'')"
    if "dict_get (c_pending x) ch = None" for x
    using that by (simp add: handle_frame_def handle_body_def with_sm_def zoom_s_def sm_reject_def)
  have "fst (handle_frames (\<lparr>frame_type = METHOD, channel = ch, payload = dp\<rparr> # ?hf # body_frames ch [[]]) e) =
      Inl (ProtocolError ''body frame without header'')" for e
  proof -
    obtain x where x: "handle_frame ?hf (set_pending ch (new_slot (SDeliver m)) e) = (Inr (), x)"
      "dict_get (c_pending x) ch = None" using 2 by blast
    with 3[OF x(2)] show ?thesis by (auto simp: 1 split: prod.splits)
  qed
  then show ?thesis
    by (intro exI[of _ "mb @ hb @ bb"] exI[of _ ?mf] exI[of _ ?hf]) (use d c' in simp)
qed

theorem empty_body_refused_witness:
  "\<exists>c' hf. publish_write 1 [] [] [] False None sample_conn = Some (Inr (), c') \<and>
    fst (handle_frames (\<lparr>frame_type = METHOD, channel = 1, payload = deliver_payload\<rparr> # hf # body_frames 1 [[]]) sample_conn) =
      Inl (ProtocolError ''body frame without header'')"
proof -
  obtain c' where c': "publish_write 1 [] [] [] False None sample_conn = Some (Inr (), c')"
    using sample_publish[of "[]" False] by auto
  have "props_ok basic_props (case None of None \<Rightarrow> [] | Some d \<Rightarrow> d)"
    by (simp add: props_ok_def basic_props_def)
  from empty_body_refused[OF c' this sample_deliver_decoded] show ?thesis
    using c' by (auto simp: sample_deliver_def)
qed

section \<open>A publish that fails, a publish after the loss\<close>

text \<open>
  A publish that fails after \<open>register\<close> leaves its tag behind. When the encoding of the method,
  of the header or of a frame raises, the tracker keeps the tag it handed out and its pending
  future, and its next tag is one more; the broker, which never saw the message, numbers the next
  one with the tag left behind, so that from then on the verdicts of the broker and the futures of
  the callers are one apart.\<close>

theorem failed_publish_leaves_its_tag:
  assumes "publish_begin ch body ex key mand props True dr c = Some (Inl e, c')"
    and "dict_get (c_confirm c) ch = Some t" "enabled t" "c_writer c"
  shows "\<exists>t' f. dict_get (c_confirm c') ch = Some t' \<and> next_tag t' = next_tag t + 1 \<and>
    dict_get (outstanding t') (next_tag t) = Some f \<and> c_cfuts c' ! f = Pending"
proof -
  obtain x c1 where x: "publish_register ch True mand c = (x, c1)" by force
  have reg: "x = Inr (Some (next_tag t, length (c_cfuts c)))" "c_cfuts c1 = c_cfuts c @ [Pending]"
    "dict_get (c_confirm c1) ch = Some (t\<lparr>next_tag := next_tag t + 1,
       outstanding := dict_set (outstanding t) (next_tag t) (length (c_cfuts c))\<rparr>)" "c_writer c1"
    using x assms(2-4) by (auto simp: publish_register_def tracker_register_eq Let_def)
  obtain w c2 where w: "publish_write ch body ex key mand props c1 = Some (w, c2)"
    using publish_write_total by blast
  obtain out where out: "c2 = c1\<lparr>c_out := c_out c1 @ out\<rparr>" using publish_write_out[OF w] by blast
  have "c' = c2"
    using assms(1) reg(4) by (cases w) (auto simp: publish_begin_def x reg(1) w out seq_s_def bind_s_def
      when_s_def op_simps drain_def split: if_splits)
  then show ?thesis using reg(2,3) out by (simp add: nth_append)
qed

text \<open>
  A publish after the loss waits for ever. \<open>basic_publish\<close> looks at the channel and at the
  blocked flag but not at the loss, and the loss has been told: a confirm future registered then
  is pending and no later loss, of whatever cause, changes the connection.\<close>

theorem publish_after_loss_waits:
  assumes "publish_begin ch body ex key mand props True dr c = Some (Inr (Some (tg, f)), c')"
    and "is_lost c" "dict_get (c_confirm c) ch = Some t"
  shows "c_cfuts c' ! f = Pending \<and> is_lost c' \<and> notify_loss e c' = c' \<and> force_drop c' = c'\<lparr>c_closed := True\<rparr>"
proof -
  obtain x c1 where x: "publish_register ch True mand c = (x, c1)" by force
  obtain w c2 where w: "publish_write ch body ex key mand props c1 = Some (w, c2)"
    using publish_write_total by blast
  obtain out where out: "c2 = c1\<lparr>c_out := c_out c1 @ out\<rparr>" using publish_write_out[OF w] by blast
  have c2: "c' = c2" "x = Inr (Some (tg, f))"
    using assms(1) by (cases x; cases w; auto simp: publish_begin_def x w seq_s_def bind_s_def
      when_s_def op_simps drain_def split: if_splits)+
  have "c_cfuts c1 ! f = Pending" "c_lost c1 = c_lost c"
    using x c2(2) assms(3) by (cases "enabled t"; auto simp: publish_register_def tracker_register_eq tracker_register_off
      Let_def split: if_splits)+
  then have "c_cfuts c' ! f = Pending" "c_lost c' \<noteq> None" using c2(1) out assms(2) by (simp_all add: is_lost_def)
  then show ?thesis by (simp add: is_lost_def notify_loss_def force_drop_def)
qed

text \<open>A connection whose peer went away: lost, but its channel and its tracker are as they were.\<close>

definition lost_conn :: conn where
  "lost_conn = snd (on_chunk [] sample_conn)"

lemma lost_conn_eq: "lost_conn = sample_conn\<lparr>c_sm := \<lparr>sm_state = ERROR, sm_heartbeat = 60\<rparr>,
    c_lost := Some (ConnectionLost ''broker closed connection''), c_deliveries := [LossSentinel],
    c_returns := [LossSentinel], c_notes := [OnLoss (ConnectionLost ''broker closed connection'')]\<rparr>"
  by (simp add: lost_conn_def on_chunk_def sample_conn_def conn_init_def with_sm_def zoom_s_def sm_reject_def
      loop_error_def notify_loss_def fail_waiters_def tracker_fail_all_def as_lost_def Let_def)

lemma sample_register:
  assumes "c = sample_conn \<or> c = lost_conn"
  shows "publish_register 1 True False c = (Inr (Some (1, 0)),
    c\<lparr>c_confirm := [(1, \<lparr>next_tag = 2, outstanding = [(1, 0)], enabled = True\<rparr>)], c_cfuts := [Pending]\<rparr>)"
  using assms
  by (auto simp: publish_register_def lost_conn_eq sample_conn_def conn_init_def tracker_register_def create_future_def)

theorem publish_after_loss_waits_witness:
  "\<exists>c'. publish_begin 1 [7] [] [] False None True True lost_conn = Some (Inr (Some (1, 0)), c') \<and>
     c_cfuts c' ! 0 = Pending \<and> notify_loss (ConnectionLost ''heartbeat timeout'') c' = c'"
proof -
  let ?c = "lost_conn\<lparr>c_confirm := [(1, \<lparr>next_tag = 2, outstanding = [(1, 0)], enabled = True\<rparr>)], c_cfuts := [Pending]\<rparr>"
  obtain mp where mp: "encode_method (publish_method [] [] False) = Inr mp" "length mp < 20"
    using sample_publish_encodes(1) by blast
  obtain hp where hp: "encode_content_header BASIC (int (length [7 :: byte])) [] = Inr hp" "length hp = 14"
    using sample_publish_encodes(2)[of "length [7 :: byte]"] by auto
  have "\<exists>c'. publish_write 1 [7] [] [] False None ?c = Some (Inr (), c')"
    by (rule publish_write_ok[OF _ _ _ _ mp(1), of _ _ _ _ hp])
      (use mp hp in \<open>simp_all add: lost_conn_eq sample_conn_def conn_init_def sample_config_def FRAME_OVERHEAD_def\<close>)
  then obtain c' where w: "publish_write 1 [7] [] [] False None ?c = Some (Inr (), c')" by blast
  obtain out where "c' = ?c\<lparr>c_out := c_out ?c @ out\<rparr>" using publish_write_out[OF w] by blast
  then have "publish_begin 1 [7] [] [] False None True True lost_conn = Some (Inr (Some (1, 0)), c')"
    using sample_register[of lost_conn] w
    by (simp add: publish_begin_def seq_s_def bind_s_def when_s_def op_simps drain_def lost_conn_eq sample_conn_def)
  moreover have "is_lost lost_conn" "\<exists>t. dict_get (c_confirm lost_conn) 1 = Some t"
    by (simp_all add: is_lost_def lost_conn_eq sample_conn_def)
  ultimately show ?thesis using publish_after_loss_waits by blast
qed

theorem failed_publish_leaves_its_tag_witness:
  "\<exists>e c' t' f. publish_begin 1 [7] [] [] False (Some [(S ''reply_to'', VNone)]) True True sample_conn = Some (Inl e, c') \<and>
     dict_get (c_confirm c') 1 = Some t' \<and> next_tag t' = 2 \<and>
     dict_get (outstanding t') 1 = Some f \<and> c_cfuts c' ! f = Pending"
proof -
  let ?c = "sample_conn\<lparr>c_confirm := [(1, \<lparr>next_tag = 2, outstanding = [(1, 0)], enabled = True\<rparr>)], c_cfuts := [Pending]\<rparr>"
  obtain r c' where p: "publish_begin 1 [7] [] [] False (Some [(S ''reply_to'', VNone)]) True True sample_conn = Some (r, c')"
    using publish_terminates by blast
  have "\<exists>e. encode_content_header BASIC (int (length [7 :: byte])) [(S ''reply_to'', VNone)] = Inl e"
    by (simp add: encode_content_header_def basic_props_def)
  then have "\<nexists>pm d. publish_head 1 [7] [] [] False (Some [(S ''reply_to'', VNone)]) ?c = (Inr pm, d)"
    by (auto elim!: publish_head_Inr)
  then obtain e where e: "r = Inl e"
    using p sample_register[of sample_conn]
    by (cases "publish_head 1 [7] [] [] False (Some [(S ''reply_to'', VNone)]) ?c";
        cases "fst (publish_head 1 [7] [] [] False (Some [(S ''reply_to'', VNone)]) ?c)")
      (auto simp: publish_begin_def publish_write_def)
  have "dict_get (c_confirm sample_conn) 1 = Some \<lparr>next_tag = 1, outstanding = [], enabled = True\<rparr>" "c_writer sample_conn"
    by (simp_all add: sample_conn_def)
  from failed_publish_leaves_its_tag[OF p[unfolded e] this(1) _ this(2)] obtain t' f where
    "dict_get (c_confirm c') 1 = Some t'" "next_tag t' = 2" "dict_get (outstanding t') 1 = Some f" "c_cfuts c' ! f = Pending"
    by auto
  then show ?thesis using p e by blast
qed

section \<open>Runs\<close>

definition dropped :: conn where
  "dropped = snd (on_chunk [] (conn_init sample_config))"

lemma dropped_run: "conn_reaches (conn_init sample_config) dropped"
proof -
  have "conn_next (conn_init sample_config) dropped"
    unfolding dropped_def by (rule conn_next.Chunk[of "[]" _ "fst (on_chunk [] (conn_init sample_config))"]) simp
  then show ?thesis by (simp add: conn_reaches_def)
qed

lemma dropped_eq: "c_lost dropped = Some (ConnectionLost ''broker closed connection'')"
  "c_notes dropped = [OnLoss (ConnectionLost ''broker closed connection'')]"
  by (simp_all add: dropped_def on_chunk_def conn_init_def with_sm_def zoom_s_def sm_reject_def
      loop_error_def notify_loss_def fail_waiters_def as_lost_def Let_def)

theorem reachable_well_formed_witness: "conn_ok dropped"
  by (rule reachable_well_formed[OF dropped_run])

theorem loss_is_told_once_witness:
  "c_notes dropped \<noteq> [] \<and> filter is_loss_note (c_notes dropped) = [OnLoss (ConnectionLost ''broker closed connection'')] \<and>
   receive dropped = Some (Inl (ConnectionLost ''broker closed connection''), dropped)"
  using loss_is_told_once[OF dropped_run] by (simp add: dropped_eq)

theorem history_is_kept_witness: "c_lost (force_drop dropped) = c_lost dropped"
proof -
  have "conn_reaches dropped (force_drop dropped)"
    using conn_next.Drop[of dropped] by (simp add: conn_reaches_def r_into_rtranclp)
  from history_is_kept[OF this] show ?thesis by (simp add: is_lost_def dropped_eq)
qed

theorem reader_fails_closed_witness:
  "sm_state (c_sm (snd (on_chunk [9, 0, 0, 0, 0, 0, 0, 206] (conn_init sample_config)))) = ERROR"
proof -
  let ?c = "conn_init sample_config" and ?b = "[9, 0, 0, 0, 0, 0, 0, 206] :: bytes"
  have run: "conn_reaches ?c ?c" by (simp add: conn_reaches_def)
  obtain r c' where o: "on_chunk ?b ?c = (r, c')" by force
  have "\<exists>e. decode_frame ?b 64 0 = Inl e \<and> \<not> is_incomplete e"
    by (simp add: decode_frame_def frame_kind_of_def)
  then have "r \<noteq> Inr True"
    using o by (auto simp: on_chunk_def conn_init_def sample_config_def process_frames.simps[of ?b] set_buffer_def
      with_sm_def zoom_s_def sm_reject_def loop_error_def)
  then show ?thesis
    using reader_fails_closed[OF run _ _ o] o by (simp add: is_lost_def conn_init_def)
qed

theorem loss_fails_every_publish_witness:
  "c_cfuts (notify_loss TimeoutError (snd (publish_register 1 True False sample_conn))) ! 0 = Failed (ConnectionLost [])"
proof -
  let ?c = "snd (publish_register 1 True False sample_conn)"
  have "conn_ok ?c" "\<not> is_lost ?c" "dict_get (c_confirm ?c) 1 = Some \<lparr>next_tag = 2, outstanding = [(1, 0)], enabled = True\<rparr>"
    "c_cfuts ?c ! 0 = Pending"
    by (simp_all add: sample_register conn_ok_def trackers_apart_def table_valid_def dict_ok_def is_lost_def sample_conn_def conn_init_def)
  from loss_fails_every_publish[OF this(1-3), of 1 0 TimeoutError] this(4) show ?thesis
    by (simp add: as_lost_def)
qed

theorem reads_do_not_matter_witness:
  "on_chunk [8, 0, 0, 0, 0, 0, 0, 206] sample_conn = on_chunk [0, 0, 0, 0, 0, 206] (set_buffer [8, 0] sample_conn)"
proof -
  have "on_chunk [8, 0] sample_conn = (Inr True, set_buffer [8, 0] sample_conn)"
    by (simp add: on_chunk_def sample_conn_def conn_init_def sample_config_def process_frames.simps decode_frame_def set_buffer_def)
  from reads_do_not_matter[OF this, of "[0, 0, 0, 0, 0, 206]"] show ?thesis by simp
qed

text \<open>A tune that asks for no heartbeat and larger frames gets the configured ones.\<close>

definition tuning_conn :: conn where
  "tuning_conn = (conn_init (sample_config\<lparr>cfg_virtual_host := []\<rparr>))\<lparr>
     c_sm := \<lparr>sm_state = START_OK, sm_heartbeat = 60\<rparr>, c_writer := True,
     c_waiters := [((0, CONNECTION, CONNECTION_TUNE), 0)],
     c_wfuts := [Result (meth CONNECTION CONNECTION_TUNE
       [(S ''channel_max'', VInt 0), (S ''frame_max'', VInt 131072), (S ''heartbeat'', VInt 0)])]\<rparr>"

lemma with_sm_ok: "f (c_sm c) = (Inr u, sm) \<Longrightarrow> with_sm f c = (Inr u, c\<lparr>c_sm := sm\<rparr>)"
  by (simp add: with_sm_Inr)

lemma tuning_conn_tuned: "\<exists>f c'. connect_tuned 0 tuning_conn = (Inr (60, f), c')"
proof -
  let ?tune = "meth CONNECTION CONNECTION_TUNE
    [(S ''channel_max'', VInt 0), (S ''frame_max'', VInt 131072), (S ''heartbeat'', VInt 0)]"
  let ?ok = "meth CONNECTION CONNECTION_TUNE_OK [(S ''channel_max'', VInt 2047), (S ''frame_max'', VInt 64), (S ''heartbeat'', VInt 60)]"
  let ?open = "meth CONNECTION CONNECTION_OPEN [(S ''virtual_host'', VStr []), (S ''capabilities'', VStr []), (S ''insist'', VBool False)]"
  have n: "int_or ?tune ''channel_max'' 2047 = 2047" "negotiate_frame_max ?tune 64 = 64" "negotiate_heartbeat ?tune 60 = 60"
    by (simp_all add: int_or_def dict_get_or_def negotiate_frame_max_def negotiate_heartbeat_def Let_def)
  obtain p q where p: "encode_method ?ok = Inr p" "length p < 20" and q: "encode_method ?open = Inr q" "length q < 20"
    by (simp add: encode_method_def encode_args_def int_arg_def int_req_def dict_item_def short_arg_def short_req_def
        dict_get_or_def encode_shortstr_def utf8_empty bits_arg_def is_set_def byte_of_int_def to_bytes_def)
  have send: "\<exists>bs. send_method 0 m c = (Inr (), c\<lparr>c_out := c_out c @ bs\<rparr>)"
    if "encode_method m = Inr p" "length p < 20" "c_writer c" "c_frame_max c = 64" for m p c
    using that by (auto simp: send_method_Inr encode_frame_Inr FRAME_OVERHEAD_def)
  let ?c1 = "tuning_conn\<lparr>c_waiters := dict_del (c_waiters tuning_conn) (0, CONNECTION, CONNECTION_TUNE)\<rparr>"
  have 1: "expect_end (0, CONNECTION, CONNECTION_TUNE) 0 tuning_conn = (Inr ?tune, ?c1)"
    by (simp add: expect_end_def tuning_conn_def)
  have cfg: "cfg_heartbeat (c_config tuning_conn) = 60" "cfg_frame_max (c_config tuning_conn) = 64"
    "cfg_virtual_host (c_config tuning_conn) = []" "c_writer tuning_conn" "c_frame_max tuning_conn = 64"
    "c_sm tuning_conn = \<lparr>sm_state = START_OK, sm_heartbeat = 60\<rparr>"
    by (simp_all add: tuning_conn_def conn_init_def sample_config_def)
  obtain b1 where b1: "send_method 0 ?ok (?c1\<lparr>c_frame_max := 64, c_sm := \<lparr>sm_state = TUNE, sm_heartbeat = 60\<rparr>\<rparr>) =
      (Inr (), ?c1\<lparr>c_frame_max := 64, c_sm := \<lparr>sm_state = TUNE, sm_heartbeat = 60\<rparr>, c_out := c_out tuning_conn @ b1\<rparr>)"
    using send[OF p, of "?c1\<lparr>c_frame_max := 64, c_sm := \<lparr>sm_state = TUNE, sm_heartbeat = 60\<rparr>\<rparr>"] cfg by auto
  let ?c2 = "?c1\<lparr>c_frame_max := 64, c_out := c_out tuning_conn @ b1, c_sm := \<lparr>sm_state = TUNE_OK, sm_heartbeat = 60\<rparr>\<rparr>"
  obtain b2 where b2: "send_method 0 ?open ?c2 = (Inr (), ?c2\<lparr>c_out := c_out tuning_conn @ b1 @ b2\<rparr>)"
    using send[OF q, of ?c2] cfg by auto
  show ?thesis
    unfolding connect_tuned_def Let_def
    by (simp add: op_simps 1 cfg n with_sm_ok conn_ops legal_states_def b1 b2 expect_begin_def create_future_def)
qed

theorem tuned_within_limits_witness:
  "\<exists>f c'. connect_tuned 0 tuning_conn = (Inr (60, f), c') \<and> (60 :: int) \<in> {1..60} \<and> c_frame_max c' \<le> 64 \<and> 8 < c_frame_max c'"
proof -
  obtain f c' where "connect_tuned 0 tuning_conn = (Inr (60, f), c')" using tuning_conn_tuned by blast
  moreover have "cfg_heartbeat (c_config tuning_conn) = 60" "cfg_frame_max (c_config tuning_conn) = 64"
    by (simp_all add: tuning_conn_def conn_init_def sample_config_def)
  ultimately show ?thesis using tuned_within_limits[of 0 tuning_conn 60 f c'] by (auto simp: FRAME_OVERHEAD_def)
qed

end
