(* ===== verification/Tasks.thy ===== *)
theory Tasks
  imports ConnEdges
begin

text \<open>
  asyncio tasks as the library uses them: every loop is one task, which ends when its body raises or
  returns, and \<open>close\<close> cancels it and awaits it. A running task is at an await and ends with the
  cancellation there, because no loop swallows it. The reader of a connection is such a task
  (\<^verbatim>\<open>src/src/nuropb_rmq/transport/connection.py\<close>), and so are the consumers.
\<close>

datatype task = NoTask | Running | Ended "unit res"

text \<open>\<open>task.cancel()\<close>, \<open>await task\<close> and \<open>except CancelledError: pass\<close>: what it raises, and the task after it.\<close>

fun join_task :: "task \<Rightarrow> unit res \<times> task" where
  "join_task NoTask = (Inr (), NoTask)"
| "join_task Running = (Inr (), Ended (Inl CancelledError))"
| "join_task (Ended r) = ((if r = Inl CancelledError then Inr () else r), Ended r)"

text \<open>One turn of the reader's task.\<close>

definition reader_turn :: "bytes \<Rightarrow> conn \<Rightarrow> task \<times> conn" where
  "reader_turn chunk c =
     (case on_chunk chunk c of
        (Inr True, c') \<Rightarrow> (Running, c')
      | (Inr False, c') \<Rightarrow> (Ended (Inr ()), c')
      | (Inl e, c') \<Rightarrow> (Ended (Inl e), c'))"

text \<open>
  The \<open>finally\<close> of \<open>close\<close>, from the outcome of its \<open>try\<close>: what \<open>close\<close> returns or raises, and whether
  it has closed the writer. What \<open>wait_closed\<close> raises is ignored.
\<close>

definition close_exit :: "task \<Rightarrow> unit res \<Rightarrow> conn \<Rightarrow> unit res \<times> bool" where
  "close_exit reader r c =
     (case fst (join_task reader) of Inl e \<Rightarrow> (Inl e, False) | Inr _ \<Rightarrow> (r, c_writer c))"

lemma close_exit_running: "close_exit Running r c = (r, c_writer c)"
  by (simp add: close_exit_def)

section \<open>Closing after the peer has gone\<close>

text \<open>The end of the stream is a protocol error for the reader, which raises it out of its task.\<close>

lemma reader_at_end:
  assumes "c_lost c = None"
  shows "\<exists>e c'. reader_turn [] c = (Ended (Inl e), c') \<and> is_protocol_error e \<and> e \<noteq> CancelledError \<and>
    sm_state (c_sm c') = ERROR \<and> c_closed c' = c_closed c"
proof -
  let ?e = "ProtocolError ''broker closed connection''" and ?c = "c\<lparr>c_sm := (c_sm c)\<lparr>sm_state := ERROR\<rparr>\<rparr>"
  have o: "on_chunk [] c = (Inl ?e, notify_loss ?e ?c)"
    by (simp add: on_chunk_def with_sm_def zoom_s_def sm_reject_def loop_error_def)
  obtain ts h where f: "fail_trackers (as_lost ?e) (c_confirm ?c) (c_cfuts ?c) = (ts, h)" by force
  have "sm_state (c_sm (notify_loss ?e ?c)) = ERROR" "c_closed (notify_loss ?e ?c) = c_closed c"
    using notify_loss_parts(5)[OF _ f] assms by (simp_all add: notify_loss_def Let_def fail_waiters_def split: prod.split)
  then show ?thesis by (simp add: reader_turn_def o)
qed

text \<open>
  C39. A connection that its peer has closed cannot be closed. At the end of the stream the reader's
  task ends with a \<open>ProtocolError\<close>; \<open>close\<close> then writes nothing and awaits that task, raises its
  exception and leaves the writer open, and since the connection counts as closed from then on
  every later \<open>close\<close> returns at once: the socket is never released. While the reader runs,
  \<open>close\<close> closes the writer.\<close>

theorem close_after_peer_raises:
  assumes "c_lost c = None" "\<not> c_closed c" "reader_turn [] c = (t, c1)"
  shows "let c2 = c1\<lparr>c_closed := True\<rparr> in
    close_begin c1 = (Inr None, c2) \<and> (\<exists>e. is_protocol_error e \<and> close_exit t (Inr ()) c2 = (Inl e, False)) \<and>
    close_begin c2 = (Inr None, c2) \<and> close_exit Running (Inr ()) c2 = (Inr (), c_writer c2)"
proof -
  obtain e where e: "t = Ended (Inl e)" "is_protocol_error e" "e \<noteq> CancelledError" and s: "sm_state (c_sm c1) = ERROR"
    and c: "\<not> c_closed c1"
    using reader_at_end[OF assms(1)] assms(2,3) by auto
  have "\<not> sm_is_open (c_sm c1)" using s by (simp add: sm_is_open_def)
  then show ?thesis using e c by (auto simp: Let_def close_begin_def close_exit_def)
qed

theorem close_after_peer_raises_witness:
  "\<exists>e c1. reader_turn [] sample_conn = (Ended (Inl e), c1) \<and> close_exit (Ended (Inl e)) (Inr ()) (c1\<lparr>c_closed := True\<rparr>) = (Inl e, False)"
proof -
  have s: "c_lost sample_conn = None" "\<not> c_closed sample_conn" by (simp_all add: sample_conn_def conn_init_def)
  obtain e c1 where t: "reader_turn [] sample_conn = (Ended (Inl e), c1)" using reader_at_end[OF s(1)] by blast
  from close_after_peer_raises[OF s t] have "fst (close_exit (Ended (Inl e)) (Inr ()) (c1\<lparr>c_closed := True\<rparr>)) \<noteq> Inr ()"
    by (auto simp: Let_def)
  then show ?thesis using t by (auto simp: close_exit_def split: if_splits)
qed

end
