(* ===== verification/Consumer.thy ===== *)
theory Consumer
  imports Publishing Tasks
begin

text \<open>
  What the consumers of the program share: the loop that receives and handles one message after the
  other, and the settlement of each message. The subscriber and the dead-letter processor
  (\<^verbatim>\<open>Events\<close>), the registry's viewer (\<^verbatim>\<open>Registry\<close>) and the RPC server (\<^verbatim>\<open>RpcServer\<close>) are instances.
\<close>

section \<open>Settlements in what is written\<close>

text \<open>The delivery a frame on channel \<open>ch\<close> settles, if it is a \<open>basic.ack\<close> or a \<open>basic.nack\<close>.\<close>

definition settled_tag :: "int \<Rightarrow> frame \<Rightarrow> int option" where
  "settled_tag ch f =
     (if frame_type f = METHOD \<and> channel f = ch
      then (case decode_method (payload f) of
              Inr m \<Rightarrow> if m_class m = BASIC \<and> (m_method m = BASIC_ACK \<or> m_method m = BASIC_NACK)
                then Some (arg_int m ''delivery_tag'' 0) else None
            | Inl _ \<Rightarrow> None)
      else None)"

definition settlements :: "int \<Rightarrow> int \<Rightarrow> bytes \<Rightarrow> int list" where
  "settlements fm ch out = List.map_filter (settled_tag ch) (fst (drain_buffer fm out))"

text \<open>Nothing but whole frames.\<close>

definition whole :: "int \<Rightarrow> bytes \<Rightarrow> bool" where
  "whole fm out \<longleftrightarrow> (\<exists>fs. drain_buffer fm out = (fs, [], None))"

lemma drain_more:
  assumes "drain_buffer fm a = (fs, [], None)" "drain_buffer fm b = (gs, r, e)"
  shows "drain_buffer fm (a @ b) = (fs @ gs, r, e)"
  using frames.drain_chunks[of fm a fs "[]" b gs r e] assms by (simp add: drain_buffer_with)

lemma settlements_Nil [simp]: "settlements fm ch [] = []" "whole fm []"
  by (simp_all add: settlements_def whole_def drain_buffer.simps[of _ "[]"] decode_frame_def map_filter_simps)

lemma settlements_append:
  assumes "whole fm a"
  shows "settlements fm ch (a @ b) = settlements fm ch a @ settlements fm ch b" "whole fm b \<Longrightarrow> whole fm (a @ b)"
proof -
  obtain fs where a: "drain_buffer fm a = (fs, [], None)" using assms by (auto simp: whole_def)
  obtain gs r e where b: "drain_buffer fm b = (gs, r, e)" by (cases "drain_buffer fm b")
  show "settlements fm ch (a @ b) = settlements fm ch a @ settlements fm ch b"
    by (simp add: settlements_def drain_more[OF a b] a b List.map_filter_def)
  show "whole fm b \<Longrightarrow> whole fm (a @ b)" using drain_more[OF a b] b by (auto simp: whole_def)
qed

lemma drain_method_bytes:
  assumes "method_bytes fm ch m = Inr bs"
  shows "\<exists>p. encode_method m = Inr p \<and> drain_buffer fm bs = ([\<lparr>frame_type = METHOD, channel = ch, payload = p\<rparr>], [], None)"
proof -
  obtain p where p: "encode_method m = Inr p" and e: "encode_frame \<lparr>frame_type = METHOD, channel = ch, payload = p\<rparr> fm = Inr bs"
    using assms by (auto simp: method_bytes_def bind_r_Inr_iff)
  then have "0 < length bs" using encode_frame_length by fastforce
  with e have "drain_buffer fm (concat [bs] @ take 0 bs) = ([\<lparr>frame_type = METHOD, channel = ch, payload = p\<rparr>], take 0 bs, None)"
    unfolding drain_buffer_with by (intro frames.drain_encoded[OF _ TrueI e]) auto
  then show ?thesis using p by simp
qed

lemma settlement_read:
  "method_bytes fm ch (ack_method tg) = Inr bs \<Longrightarrow> whole fm bs \<and> settlements fm ch bs = [tg]"
  "method_bytes fm ch (nack_method tg rq) = Inr bs \<Longrightarrow> whole fm bs \<and> settlements fm ch bs = [tg]"
proof -
  have d: "decode_method p = Inr m" if "two_way m" "encode_method m = Inr p" for m p
    using method_round[OF that, of "[]"] by simp
  have t: "two_way (ack_method tg)" "two_way (nack_method tg rq)"
    unfolding ack_method_def nack_method_def by (simp_all add: two_way.ack two_way.nack)
  show "method_bytes fm ch (ack_method tg) = Inr bs \<Longrightarrow> whole fm bs \<and> settlements fm ch bs = [tg]"
    using drain_method_bytes[of fm ch "ack_method tg" bs] d[OF t(1)]
    by (auto simp: whole_def settlements_def settled_tag_def map_filter_simps ack_method_def arg_int_def dict_get_or_def)
  show "method_bytes fm ch (nack_method tg rq) = Inr bs \<Longrightarrow> whole fm bs \<and> settlements fm ch bs = [tg]"
    using drain_method_bytes[of fm ch "nack_method tg rq" bs] d[OF t(2)]
    by (auto simp: whole_def settlements_def settled_tag_def map_filter_simps nack_method_def arg_int_def dict_get_or_def)
qed

text \<open>A publish settles nothing.\<close>

lemma published_settles_nothing:
  assumes "publish_write ex_ch body ex key mand props c = Some (Inr (), c')" "body \<noteq> []"
  shows "\<exists>out. c' = c\<lparr>c_out := c_out c @ out\<rparr> \<and> whole (c_frame_max c) out \<and> settlements (c_frame_max c) ch out = []"
proof -
  obtain out mp hp ks where o: "c' = c\<lparr>c_out := c_out c @ out\<rparr>"
    and dr: "drain_buffer (c_frame_max c) out = (\<lparr>frame_type = METHOD, channel = ex_ch, payload = mp\<rparr>
      # \<lparr>frame_type = HEADER, channel = ex_ch, payload = hp\<rparr> # body_frames ex_ch ks, [], None)"
    and h: "encode_content_header BASIC (int (length body)) (case props of None \<Rightarrow> [] | Some d \<Rightarrow> d) = Inr hp"
    and ks: "concat ks = body" "[] \<notin> set ks" and mp: "encode_method (publish_method ex key mand) = Inr mp"
    by (rule publish_write_frames[OF assms])
  obtain a b d where "to_bytes 2 (m_class (publish_method ex key mand)) = Inr a"
    "to_bytes 2 (m_method (publish_method ex key mand)) = Inr b"
    "encode_args (m_class (publish_method ex key mand)) (m_method (publish_method ex key mand))
      (m_args (publish_method ex key mand)) = Inr d" and mp': "mp = (a @ b) @ d" and "length (a @ b) = 4"
    by (rule encode_method_InrE[OF mp])
  then have e: "to_bytes 2 BASIC = Inr a" "to_bytes 2 BASIC_PUBLISH = Inr b" by (simp_all add: publish_method_def)
  have "m_method m = BASIC_PUBLISH" if "decode_method mp = Inr m" for m
    using that unfolding mp' decode_method_ids[OF e] by (auto simp: bind_r_Inr_iff)
  then have "settled_tag ch \<lparr>frame_type = METHOD, channel = ex_ch, payload = mp\<rparr> = None"
    by (auto simp: settled_tag_def split: sum.split)
  moreover have "List.map_filter (settled_tag ch) (body_frames ex_ch ks) = []"
    by (induction ks) (simp_all add: map_filter_simps settled_tag_def)
  moreover have "settled_tag ch \<lparr>frame_type = HEADER, channel = ex_ch, payload = hp\<rparr> = None" by (simp add: settled_tag_def)
  ultimately have "settlements (c_frame_max c) ch out = []"
    by (simp add: settlements_def dr map_filter_simps)
  then show ?thesis using o dr by (auto simp: whole_def)
qed

lemma sent_publish_settles_nothing:
  assumes "basic_publish_begin pch body ex key (Some props) dr profile confirm mand c = Some (Inr (AwaitConfirm tf), c')" "body \<noteq> []"
  shows "\<exists>out. writes c out c' \<and> whole (c_frame_max c) out \<and> settlements (c_frame_max c) ch out = []"
proof -
  obtain o1 where o1: "writes c o1 c'" using basic_publish_begin_writes[OF assms(1)] by blast
  then have "publish_sends pch body ex key props dr profile confirm mand c o1 c'"
    using assms(1) by (auto simp: publish_sends_def writes_def)
  then obtain d c1 where w: "publish_write pch body ex key mand (Some d) c1 = Some (Inr (), c')" "c_out c' = c_out c1 @ o1"
    using publish_sends_written by blast
  obtain o2 where o2: "c' = c1\<lparr>c_out := c_out c1 @ o2\<rparr>" "whole (c_frame_max c1) o2" "settlements (c_frame_max c1) ch o2 = []"
    using published_settles_nothing[OF w(1) assms(2)] by blast
  have "o2 = o1" "c_frame_max c1 = c_frame_max c" using o2(1) w(2) o1 by (simp_all add: writes_def)
  then show ?thesis using o1 o2 by auto
qed

section \<open>The loop\<close>

text \<open>
  \<open>while self._running: msg = await receive(); await self._handle(msg)\<close>. A turn of the world is what
  happens while the loop waits and what \<open>receive\<close> then returns or raises; an exception ends the task.
  \<open>Inr ()\<close> is a loop that still waits, or whose flag is down.
\<close>

fun consume :: "(incoming \<Rightarrow> 's \<Rightarrow> (unit res \<times> 's) option) \<Rightarrow> bool \<Rightarrow> ('s \<Rightarrow> incoming res \<times> 's) list \<Rightarrow> 's \<Rightarrow>
    (unit res \<times> 's) option" where
  "consume handle running [] s = Some (Inr (), s)"
| "consume handle running (w # ws) s =
     (if \<not> running then Some (Inr (), s)
      else case w s of
        (Inl e, s1) \<Rightarrow> Some (Inl e, s1)
      | (Inr msg, s1) \<Rightarrow>
          (case handle msg s1 of
             None \<Rightarrow> None
           | Some (Inl e, s2) \<Rightarrow> Some (Inl e, s2)
           | Some (Inr _, s2) \<Rightarrow> consume handle running ws s2))"

text \<open>The messages that were handled without an exception, in order.\<close>

fun handled_messages :: "(incoming \<Rightarrow> 's \<Rightarrow> (unit res \<times> 's) option) \<Rightarrow> ('s \<Rightarrow> incoming res \<times> 's) list \<Rightarrow> 's \<Rightarrow> incoming list" where
  "handled_messages handle [] s = []"
| "handled_messages handle (w # ws) s =
     (case w s of
        (Inl e, s1) \<Rightarrow> []
      | (Inr msg, s1) \<Rightarrow>
          (case handle msg s1 of
             Some (Inr _, s2) \<Rightarrow> msg # handled_messages handle ws s2
           | _ \<Rightarrow> []))"

text \<open>While the loop waits other tasks may write, but settle nothing on its channel.\<close>

definition quiet :: "('s \<Rightarrow> conn) \<Rightarrow> int \<Rightarrow> ('s \<Rightarrow> incoming res \<times> 's) \<Rightarrow> bool" where
  "quiet link ch w \<longleftrightarrow> (\<forall>s. \<exists>out. writes (link s) out (link (snd (w s))) \<and> whole (c_frame_max (link s)) out \<and>
     settlements (c_frame_max (link s)) ch out = [])"

text \<open>
  What a loop has settled in the state \<open>sn\<close> after its last complete turn: each message it handled, once,
  in the order of delivery. It has handled all of them unless an exception ended it, which was raised
  by \<open>receive\<close> or by the handling of the next message.
\<close>

definition settled_in_order ::
  "(incoming \<Rightarrow> 's \<Rightarrow> (unit res \<times> 's) option) \<Rightarrow> ('s \<Rightarrow> conn) \<Rightarrow> int \<Rightarrow> ('s \<Rightarrow> incoming res \<times> 's) list \<Rightarrow> 's \<Rightarrow>
     unit res \<Rightarrow> 's \<Rightarrow> bool" where
  "settled_in_order handle link ch ws s r s' \<longleftrightarrow>
     (\<exists>sn out. writes (link s) out (link sn) \<and> whole (c_frame_max (link s)) out \<and>
        settlements (c_frame_max (link s)) ch out = map i_tag (handled_messages handle ws s) \<and>
        (case r of
           Inr _ \<Rightarrow> sn = s' \<and> length (handled_messages handle ws s) = length ws
         | Inl e \<Rightarrow> length (handled_messages handle ws s) < length ws \<and>
             (sn = s' \<or> (\<exists>msg. handle msg sn = Some (Inl e, s')))))"

text \<open>
  The contract of a consumer: when it has handled a message normally, what it has written settles that
  message and no other, once. \<open>link\<close> is its connection and \<open>ch\<close> its channel.
\<close>

locale message_consumer =
  fixes handle :: "incoming \<Rightarrow> 's \<Rightarrow> (unit res \<times> 's) option" and link :: "'s \<Rightarrow> conn" and ch :: int
  assumes settles_one: "handle msg s = Some (Inr (), s') \<Longrightarrow>
    \<exists>out. writes (link s) out (link s') \<and> whole (c_frame_max (link s)) out \<and> settlements (c_frame_max (link s)) ch out = [i_tag msg]"
begin

text \<open>
  The loop settles what it handled: each message once, in the order of delivery, and none of those
  after the first exception.
\<close>

lemma loop_settles:
  assumes "consume handle True ws s = Some (r, s')" "\<forall>w \<in> set ws. quiet link ch w"
  shows "settled_in_order handle link ch ws s r s'"
  unfolding settled_in_order_def
  using assms
proof (induction ws arbitrary: s)
  case (Cons w ws)
  obtain x s1 where w: "w s = (x, s1)" by force
  obtain o1 where o1: "writes (link s) o1 (link s1)" "whole (c_frame_max (link s)) o1"
    "settlements (c_frame_max (link s)) ch o1 = []"
    using Cons.prems(2) w by (force simp: quiet_def)
  show ?case
  proof (cases x)
    case (Inl e)
    then show ?thesis using Cons.prems(1) w o1 by (intro exI[of _ s1] exI[of _ o1]) auto
  next
    case (Inr msg)
    then obtain y s2 where h: "handle msg s1 = Some (y, s2)"
      using Cons.prems(1) w by (cases "handle msg s1") auto
    show ?thesis
    proof (cases y)
      case (Inl e)
      then show ?thesis using Cons.prems(1) w Inr h o1 by (intro exI[of _ s1] exI[of _ o1]) auto
    next
      case y: (Inr u)
      obtain o2 where o2: "writes (link s1) o2 (link s2)" "whole (c_frame_max (link s)) o2"
        "settlements (c_frame_max (link s)) ch o2 = [i_tag msg]"
        using settles_one[of msg s1 s2] h y o1(1) by (auto simp: writes_def)
      have l: "handled_messages handle (w # ws) s = msg # handled_messages handle ws s2" by (simp add: w Inr h y)
      have "consume handle True ws s2 = Some (r, s')" using Cons.prems(1) by (simp add: w Inr h y)
      from Cons.IH[OF this] Cons.prems(2) obtain sn o3 where
        o3: "writes (link s2) o3 (link sn)" "whole (c_frame_max (link s2)) o3"
          "settlements (c_frame_max (link s2)) ch o3 = map i_tag (handled_messages handle ws s2)"
        and r: "case r of Inr _ \<Rightarrow> sn = s' \<and> length (handled_messages handle ws s2) = length ws
          | Inl e \<Rightarrow> length (handled_messages handle ws s2) < length ws \<and> (sn = s' \<or> (\<exists>msg. handle msg sn = Some (Inl e, s')))"
        by auto
      have fm: "c_frame_max (link s2) = c_frame_max (link s)" using o1(1) o2(1) by (simp add: writes_def)
      have wr: "writes (link s) (o1 @ o2 @ o3) (link sn)"
        using writes_trans[OF o1(1) writes_trans[OF o2(1) o3(1)]] .
      have wh: "whole (c_frame_max (link s)) (o1 @ o2 @ o3)"
        using o1(2) o2(2) o3(2) fm by (simp add: settlements_append(2))
      have st: "settlements (c_frame_max (link s)) ch (o1 @ o2 @ o3) = map i_tag (handled_messages handle (w # ws) s)"
        unfolding l using o1 o2 o3 fm by (simp add: settlements_append(1))
      show ?thesis unfolding l
        by (intro exI[of _ sn] exI[of _ "o1 @ o2 @ o3"] conjI wr wh st[unfolded l]) (use r in \<open>auto split: sum.splits\<close>)
    qed
  qed
qed (auto intro!: exI[of _ s'] exI[of _ "[]"])

end

section \<open>Starting and closing a consumer\<close>

record consumer =
  cn_running :: bool
  cn_task :: task

text \<open>The end of \<open>start\<close>, and the task after the loop has run for a while.\<close>

definition consumer_init :: consumer where
  "consumer_init = \<lparr>cn_running = False, cn_task = NoTask\<rparr>"

definition consumer_started :: "consumer \<Rightarrow> consumer" where
  "consumer_started s = s\<lparr>cn_running := True, cn_task := Running\<rparr>"

definition consumer_ran :: "unit res \<Rightarrow> consumer \<Rightarrow> consumer" where
  "consumer_ran r s = (case r of Inr _ \<Rightarrow> s | Inl e \<Rightarrow> s\<lparr>cn_task := Ended (Inl e)\<rparr>)"

text \<open>\<open>close\<close>: the flag, the task, and then the connection if it is the consumer's own, up to its await.\<close>

definition consumer_stop :: "consumer \<Rightarrow> unit res \<times> consumer" where
  "consumer_stop s =
     (case join_task (cn_task s) of
        (Inl e, t) \<Rightarrow> (Inl e, s\<lparr>cn_running := False\<rparr>)
      | (Inr _, t) \<Rightarrow> (Inr (), \<lparr>cn_running = False, cn_task = NoTask\<rparr>))"

definition consumer_close_begin :: "bool \<Rightarrow> consumer \<Rightarrow> conn \<Rightarrow> nat option res \<times> consumer \<times> conn" where
  "consumer_close_begin owns_conn s c =
     (case consumer_stop s of
        (Inl e, s') \<Rightarrow> (Inl e, s', c)
      | (Inr _, s') \<Rightarrow> (if owns_conn then (case close_begin c of (r, c') \<Rightarrow> (r, s', c')) else (Inr None, s', c)))"

text \<open>
  C40. A consumer that lost its connection cannot be closed. After a loss \<open>receive\<close> raises the
  \<open>ConnectionLost\<close>, which ends the loop, whatever it handles messages with; from then on every \<open>close\<close>
  raises that exception again and does not touch the connection. A consumer that
  still waits is closed, with the connection if it is its own.\<close>

theorem lost_consumer_close_raises:
  assumes "conn_reaches (conn_init cfg) c" "c_lost c = Some e" "receive c = Some (r, c')"
    and "consume handle True ((\<lambda>_. (r, c')) # ws) c = Some (x, c'')" "cn_task s = Running"
  shows "is_connection_lost e \<and> x = Inl e \<and> c'' = c \<and>
    (let s1 = consumer_ran x s; (r1, s2, c1) = consumer_close_begin owns s1 c; (r2, s3, c2) = consumer_close_begin owns s2 c1 in
       r1 = Inl e \<and> c1 = c \<and> r2 = Inl e \<and> c2 = c) \<and>
    consumer_close_begin owns s c = (if owns then fst (close_begin c) else Inr None, \<lparr>cn_running = False, cn_task = NoTask\<rparr>,
      if owns then snd (close_begin c) else c)"
proof -
  have l: "is_connection_lost e" using conn_reaches_init(2)[OF assms(1)] assms(2) by (auto simp: loss_told_def)
  then have ne: "e \<noteq> CancelledError" by auto
  have r: "r = Inl e" "c' = c" using assms(2,3) by (simp_all add: receive_def)
  then have x: "x = Inl e" "c'' = c" using assms(4) by simp_all
  show ?thesis
    using l ne assms(5) by (simp add: x consumer_ran_def consumer_close_begin_def consumer_stop_def split: prod.split)
qed

theorem lost_consumer_close_raises_witness:
  "\<exists>s1. consumer_close_begin True (consumer_ran (Inl (ConnectionLost ''broker closed connection'')) (consumer_started consumer_init)) dropped =
     (Inl (ConnectionLost ''broker closed connection''), s1, dropped)"
proof -
  let ?h = "\<lambda>_ c. Some (Inr (), c)" and ?e = "ConnectionLost ''broker closed connection''"
  let ?s = "consumer_started consumer_init"
  have r: "receive dropped = Some (Inl ?e, dropped)" by (simp add: receive_def dropped_eq)
  have c: "consume ?h True ((\<lambda>_. (Inl ?e, dropped)) # []) dropped = Some (Inl ?e, dropped)" by simp
  have "cn_task ?s = Running" by (simp add: consumer_started_def)
  from lost_consumer_close_raises[OF dropped_run dropped_eq(1) r c this, of True] show ?thesis
    by (auto simp: Let_def split: prod.splits)
qed

end
