(* ===== verification/FloatText.thy ===== *)
theory FloatText
  imports PyValues
begin

text \<open>
  Numbers as text: the digits of a natural number, \<open>repr()\<close> of a float as CPython prints it (the
  shortest digits that are read back as the same float, the nearest of them; an exponent outside of
  1e-4 to 1e16) and the value of a decimal as \<open>float()\<close> reads it.
\<close>

section \<open>Digits\<close>

definition digit :: "nat \<Rightarrow> bool" where
  "digit c \<longleftrightarrow> 48 \<le> c \<and> c \<le> 57"

definition digits_value :: "pystr \<Rightarrow> nat" where
  "digits_value ds = foldl (\<lambda>a c. 10 * a + (c - 48)) 0 ds"

lemma dec_digits_nonempty: "dec_digits n \<noteq> []"
  by (simp add: dec_digits.simps[of n])

lemma dec_digits_digit: "list_all digit (dec_digits n)"
  by (induction n rule: dec_digits.induct) (auto simp: dec_digits.simps[of n for n] digit_def)

lemma digits_value_dec: "digits_value (dec_digits n) = n"
proof (induction n rule: dec_digits.induct)
  case (1 n)
  then show ?case by (cases "n < 10") (simp_all add: dec_digits.simps[of n] digits_value_def)
qed

lemma dec_digits_head: "0 < n \<Longrightarrow> hd (dec_digits n) \<noteq> 48"
proof (induction n rule: dec_digits.induct)
  case (1 n)
  then show ?case
    by (cases "n < 10") (simp_all add: dec_digits.simps[of n] dec_digits_nonempty hd_append)
qed

lemma digits_value_append: "digits_value (a @ b) = digits_value a * 10 ^ length b + digits_value b"
  by (induction b rule: rev_induct) (simp_all add: digits_value_def algebra_simps)

lemma digits_value_zeros: "digits_value (replicate k 48) = 0"
  by (induction k) (simp_all add: digits_value_def)

section \<open>Decimals\<close>

text \<open>The magnitude of the float next to \<open>d * 10 ^ x\<close>.\<close>

definition decimal_mag :: "nat \<Rightarrow> int \<Rightarrow> nat" where
  "decimal_mag d x = (if 0 \<le> x then float_round (d * 10 ^ nat x) 1 else float_round d (10 ^ nat (- x)))"

lemma decimal_mag_shift: "decimal_mag (d * 10) x = decimal_mag d (x + 1)"
proof (cases "0 \<le> x")
  case True
  then have "nat (x + 1) = Suc (nat x)" by simp
  then show ?thesis using True by (simp add: decimal_mag_def ac_simps)
next
  case False
  then obtain j where j: "nat (- x) = Suc j" "nat (- 1 - x) = j" by (cases "nat (- x)") auto
  have "float_round (d * 10) (10 ^ j * 10) = float_round d (10 ^ j)" by (rule float_round_scale) simp
  then show ?thesis using False j by (cases "x = - 1") (simp_all add: decimal_mag_def ac_simps)
qed

lemma decimal_mag_shifts: "decimal_mag (d * 10 ^ j) x = decimal_mag d (x + int j)"
proof (induction j arbitrary: x)
  case (Suc j)
  have "decimal_mag (d * 10 ^ j * 10) x = decimal_mag (d * 10 ^ j) (x + 1)" by (rule decimal_mag_shift)
  then show ?case using Suc by (simp add: ac_simps)
qed simp

lemma decimal_mag_0 [simp]: "decimal_mag 0 x = 0"
  by (simp add: decimal_mag_def float_round_def half_even_def bit_length.simps[of 0])

section \<open>The shortest digits\<close>

text \<open>The power of ten the float with \<open>u\<close> units is just below.\<close>

definition float_decpt :: "nat \<Rightarrow> int" where
  "float_decpt u =
     (let i = u div UNITS in
      if 0 < i then int (length (dec_digits i))
      else 1 - int (case find (\<lambda>j. UNITS \<le> u * 10 ^ j) [1..<400] of Some j \<Rightarrow> j | None \<Rightarrow> 400))"

text \<open>The two decimals with \<open>k\<close> digits around it, the nearer one first.\<close>

definition near_decimals :: "nat \<Rightarrow> int \<Rightarrow> nat \<Rightarrow> nat list" where
  "near_decimals u p k =
     (let s = int k - p; num = (if 0 \<le> s then u * 10 ^ nat s else u);
          den = (if 0 \<le> s then UNITS else UNITS * 10 ^ nat (- s)); lo = num div den; r = num mod den in
      if 2 * r < den \<or> 2 * r = den \<and> even lo then [lo, lo + 1] else [lo + 1, lo])"

fun shortest_from :: "nat \<Rightarrow> nat \<Rightarrow> nat \<Rightarrow> int \<Rightarrow> nat \<Rightarrow> nat \<times> int" where
  "shortest_from fuel m u p k =
     (case find (\<lambda>d. decimal_mag d (p - int k) = m) (near_decimals u p k) of
        Some d \<Rightarrow> (d, p - int k)
      | None \<Rightarrow> (case fuel of 0 \<Rightarrow> (0, 0) | Suc f \<Rightarrow> shortest_from f m u p (Suc k)))"

declare shortest_from.simps [simp del]

function strip_zeros :: "nat \<Rightarrow> int \<Rightarrow> nat \<times> int" where
  "strip_zeros d x = (if d \<noteq> 0 \<and> d mod 10 = 0 then strip_zeros (d div 10) (x + 1) else (d, x))"
  by pat_completeness auto
termination by (relation "measure fst") auto

declare strip_zeros.simps [simp del]

text \<open>With \<open>p + 1074\<close> digits the decimal is exact, so that the search ends.\<close>

definition float_digits :: "nat \<Rightarrow> nat \<times> int" where
  "float_digits m =
     (let u = float_units m; p = float_decpt u in case shortest_from (nat (p + 1074)) m u p 1 of (d, x) \<Rightarrow> strip_zeros d x)"

lemma float_decpt_low: "- 400 < float_decpt u"
proof -
  have "(case find (\<lambda>j. UNITS \<le> u * 10 ^ j) [1..<400] of Some j \<Rightarrow> j | None \<Rightarrow> 400) \<le> 400"
    by (auto simp: find_Some_iff split: option.split)
  then show ?thesis by (simp add: float_decpt_def Let_def)
qed

text \<open>All digits.\<close>

lemma exact_decimal:
  assumes "m < FLOAT_INF" "int k = p + 1074"
  shows "find (\<lambda>d. decimal_mag d (p - int k) = m) (near_decimals (float_units m) p k) \<noteq> None"
proof -
  define t where "t = nat (int k - p)"
  have t: "t = 1074" "int k - p = int t" "p - int k = - int t" using assms(2) by (simp_all add: t_def)
  have u: "UNITS = 2 ^ t" by (simp only: UNITS_def t(1))
  have "(2 :: nat) ^ t dvd 10 ^ t" by (rule dvd_power_same) simp
  then have dvd: "UNITS dvd float_units m * 10 ^ t" unfolding u by (rule dvd_mult)
  define lo where "lo = float_units m * 10 ^ t div UNITS"
  have "lo * UNITS = float_units m * 10 ^ t" using dvd by (simp add: lo_def)
  then have "float_round lo (10 ^ t) = m" using assms(1) by (rule float_round_exact) simp
  moreover have "0 < t" by (simp only: t(1))
  ultimately have "decimal_mag lo (p - int k) = m" unfolding t(3) by (simp add: decimal_mag_def)
  moreover have "near_decimals (float_units m) p k = [lo, lo + 1]"
    using dvd unfolding near_decimals_def t(2) lo_def by (simp add: Let_def u)
  ultimately show ?thesis by simp
qed

lemma shortest_from_reads:
  assumes "m < FLOAT_INF" "int k \<le> p + 1074" "p + 1074 \<le> int (k + fuel)"
  shows "case shortest_from fuel m (float_units m) p k of (d, x) \<Rightarrow> decimal_mag d x = m"
  using assms
proof (induction fuel arbitrary: k)
  case 0
  then have "int k = p + 1074" by simp
  from exact_decimal[OF 0(1) this] obtain d
    where "find (\<lambda>d. decimal_mag d (p - int k) = m) (near_decimals (float_units m) p k) = Some d" by blast
  moreover from this have "decimal_mag d (p - int k) = m" by (auto simp: find_Some_iff)
  ultimately show ?case by (simp add: shortest_from.simps[of 0])
next
  case (Suc fuel)
  show ?case
  proof (cases "find (\<lambda>d. decimal_mag d (p - int k) = m) (near_decimals (float_units m) p k)")
    case None
    then have "int k \<noteq> p + 1074" using exact_decimal[OF Suc.prems(1)] by blast
    then show ?thesis using Suc.IH[of "Suc k"] Suc.prems by (simp add: shortest_from.simps[of "Suc fuel"] None)
  next
    case (Some d)
    then have "decimal_mag d (p - int k) = m" by (auto simp: find_Some_iff)
    then show ?thesis by (simp add: shortest_from.simps[of "Suc fuel"] Some)
  qed
qed

lemma strip_zeros_reads: "case strip_zeros d x of (d', x') \<Rightarrow> decimal_mag d' x' = decimal_mag d x"
proof (induction d x rule: strip_zeros.induct)
  case (1 d x)
  show ?case
  proof (cases "d \<noteq> 0 \<and> d mod 10 = 0")
    case True
    then have "decimal_mag (d div 10 * 10) x = decimal_mag d x" by auto
    then show ?thesis using 1[OF True] True by (simp add: strip_zeros.simps[of d] decimal_mag_shift)
  qed (auto simp: strip_zeros.simps[of d])
qed

lemma float_digits_read:
  assumes "0 < m" "m < FLOAT_INF"
  obtains d x where "float_digits m = (d, x)" "decimal_mag d x = m" "0 < d"
proof -
  obtain d x where d: "float_digits m = (d, x)" by force
  let ?p = "float_decpt (float_units m)"
  obtain d0 x0 where s: "shortest_from (nat (?p + 1074)) m (float_units m) ?p 1 = (d0, x0)" by force
  have "decimal_mag d0 x0 = m"
    using shortest_from_reads[OF assms(2), of 1 ?p "nat (?p + 1074)"] float_decpt_low[of "float_units m"] s by simp
  then have "decimal_mag d x = m" using strip_zeros_reads[of d0 x0] d s by (auto simp: float_digits_def Let_def)
  then show thesis using that[OF d] assms(1) by (cases "d = 0") auto
qed

section \<open>Printing\<close>

definition exponent_text :: "int \<Rightarrow> pystr" where
  "exponent_text x = 101 # (if x < 0 then 45 else 43) # (let t = dec_digits (nat \<bar>x\<bar>) in if length t < 2 then 48 # t else t)"

text \<open>The digits \<open>ds\<close> with the point after \<open>p\<close> of them.\<close>

definition point_text :: "pystr \<Rightarrow> int \<Rightarrow> pystr" where
  "point_text ds p =
     (if - 4 < p \<and> p \<le> 16 then
        if p \<le> 0 then [48, 46] @ replicate (nat (- p)) 48 @ ds
        else if int (length ds) \<le> p then ds @ replicate (nat p - length ds) 48 @ [46, 48]
        else take (nat p) ds @ 46 # drop (nat p) ds
      else hd ds # (if tl ds = [] then [] else 46 # tl ds) @ exponent_text (p - 1))"

definition mag_text :: "nat \<Rightarrow> pystr" where
  "mag_text m =
     (if m = 0 then [48, 46, 48]
      else case float_digits m of (d, x) \<Rightarrow> let ds = dec_digits d in point_text ds (int (length ds) + x))"

text \<open>\<open>repr(x)\<close>, and what \<open>json.dumps\<close> writes.\<close>

definition float_text :: "pyfloat \<Rightarrow> pystr" where
  "float_text w =
     (if is_nan w then S ''nan''
      else (if float_neg w then [45] else []) @ (if is_finite w then mag_text (float_mag w) else S ''inf''))"

definition json_float :: "pyfloat \<Rightarrow> pystr" where
  "json_float w =
     (if is_nan w then S ''NaN'' else if is_finite w then float_text w
      else if float_neg w then S ''-Infinity'' else S ''Infinity'')"

lemma dec_digits_ascii: "list_all (\<lambda>c. c < 128) (dec_digits n)"
  using dec_digits_digit[of n] by (auto simp: list_all_iff digit_def)

lemma point_text_ascii: "list_all (\<lambda>c. c < 128) ds \<Longrightarrow> ds \<noteq> [] \<Longrightarrow> list_all (\<lambda>c. c < 128) (point_text ds p)"
  using dec_digits_ascii[of "nat \<bar>p - 1\<bar>"] set_take_subset[of "nat p" ds] set_drop_subset[of "nat p" ds]
  by (cases ds) (auto simp: list_all_iff point_text_def exponent_text_def Let_def)

lemma json_float_ascii: "list_all (\<lambda>c. c < 128) (json_float w)"
proof -
  have "list_all (\<lambda>c. c < 128) (mag_text m)" for m
    using point_text_ascii[OF dec_digits_ascii dec_digits_nonempty] by (auto simp: mag_text_def Let_def split: prod.split)
  then show ?thesis by (simp add: json_float_def float_text_def S_def)
qed

section \<open>Reading\<close>

text \<open>The digits after a point, and an exponent, if they are there.\<close>

definition scan_fraction :: "pystr \<Rightarrow> pystr \<times> pystr" where
  "scan_fraction cs =
     (let f = takeWhile digit (tl cs) in
      if take 1 cs = [46] \<and> f \<noteq> [] then (f, drop (length f) (tl cs)) else ([], cs))"

definition scan_exponent :: "pystr \<Rightarrow> int \<times> pystr" where
  "scan_exponent cs =
     (let r = tl cs; body = (if take 1 r = [43] \<or> take 1 r = [45] then tl r else r); f = takeWhile digit body;
          x = int (digits_value f) in
      if (take 1 cs = [101] \<or> take 1 cs = [69]) \<and> f \<noteq> []
      then (if take 1 r = [45] then - x else x, drop (length f) body) else (0, cs))"

text \<open>After the digits \<open>ds\<close>: the number and what follows it.\<close>

definition scan_decimal :: "bool \<Rightarrow> pystr \<Rightarrow> pystr \<Rightarrow> pyfloat \<times> pystr" where
  "scan_decimal neg ds cs =
     (case scan_fraction cs of (f, r) \<Rightarrow>
        (case scan_exponent r of (x, q) \<Rightarrow>
           (float_pack neg (decimal_mag (digits_value (ds @ f)) (x - int (length f))), q)))"

text \<open>What cannot go on a number.\<close>

definition number_ends :: "pystr \<Rightarrow> bool" where
  "number_ends r \<longleftrightarrow> (case r of [] \<Rightarrow> True | c # _ \<Rightarrow> \<not> digit c \<and> c \<noteq> 46 \<and> c \<noteq> 101 \<and> c \<noteq> 69)"

lemma takeWhile_digits: "list_all digit ds \<Longrightarrow> number_ends r \<Longrightarrow> takeWhile digit (ds @ r) = ds"
  by (cases r) (auto simp: list_all_iff takeWhile_append2 number_ends_def)

lemma number_ends_stop:
  assumes "number_ends r"
  shows "scan_fraction r = ([], r)" "scan_exponent r = (0, r)" "takeWhile digit r = []"
  using assms by (auto simp: number_ends_def scan_fraction_def scan_exponent_def split: list.splits)

lemma scan_fraction_digits:
  assumes "list_all digit f" "f \<noteq> []" "takeWhile digit r = []"
  shows "scan_fraction (46 # f @ r) = (f, r)"
proof -
  have "takeWhile digit (f @ r) = f" using assms(1,3) by (simp add: list_all_iff takeWhile_append2)
  then show ?thesis using assms(2) by (simp add: scan_fraction_def)
qed

lemma scan_exponent_text: "number_ends r \<Longrightarrow> scan_exponent (exponent_text x @ r) = (x, r)"
proof -
  assume r: "number_ends r"
  define t where "t = (let t = dec_digits (nat \<bar>x\<bar>) in if length t < 2 then 48 # t else t)"
  have t: "list_all digit t" "t \<noteq> []" "digits_value t = nat \<bar>x\<bar>"
    using dec_digits_digit[of "nat \<bar>x\<bar>"] dec_digits_nonempty[of "nat \<bar>x\<bar>"] digits_value_dec[of "nat \<bar>x\<bar>"]
    by (auto simp: t_def Let_def digit_def digits_value_def)
  have "takeWhile digit (t @ r) = t" using t(1) r by (rule takeWhile_digits)
  then show ?thesis using t(2,3) unfolding exponent_text_def t_def[symmetric] by (simp add: scan_exponent_def)
qed

text \<open>A fraction or an exponent follows the digits, so that the number is a float.\<close>

definition float_follows :: "pystr \<Rightarrow> bool" where
  "float_follows cs \<longleftrightarrow>
     (case cs of
        c # d # r \<Rightarrow>
          c = 46 \<and> digit d \<or>
          (c = 101 \<or> c = 69) \<and> (digit d \<or> (d = 43 \<or> d = 45) \<and> (case r of e # _ \<Rightarrow> digit e | [] \<Rightarrow> False))
      | _ \<Rightarrow> False)"

lemma scan_fraction_shorter: "scan_fraction cs = (f, r) \<Longrightarrow> length r \<le> length cs"
  by (auto simp: scan_fraction_def Let_def split: if_splits)

lemma scan_exponent_shorter: "scan_exponent cs = (x, r) \<Longrightarrow> length r \<le> length cs"
  by (auto simp: scan_exponent_def Let_def split: if_splits)

lemma scan_decimal_shorter: "scan_decimal neg ds cs = (w, r) \<Longrightarrow> length r \<le> length cs"
  by (auto simp: scan_decimal_def split: prod.splits dest!: scan_fraction_shorter scan_exponent_shorter)

section \<open>What is printed is read back\<close>

text \<open>
  The texts a number is read from: digits without a needless zero in front, then a fraction or an
  exponent.
\<close>

definition reads_as :: "pystr \<Rightarrow> nat \<Rightarrow> bool" where
  "reads_as t m \<longleftrightarrow>
     (\<exists>c ip q. t = c # ip @ q \<and> digit c \<and> list_all digit ip \<and> (c = 48 \<longrightarrow> ip = []) \<and>
       (\<forall>r. number_ends r \<longrightarrow> takeWhile digit (q @ r) = [] \<and> float_follows (q @ r) \<and>
         (\<forall>neg. scan_decimal neg (c # ip) (q @ r) = (float_pack neg m, r))))"

lemma digit_chars: "digit 48" "\<not> digit 46" "\<not> digit 101" "\<not> digit 45" "\<not> digit 43"
  by (simp_all add: digit_def)

lemma zeros_digits: "list_all digit (replicate k 48)"
  by (simp add: list_all_iff digit_chars)

lemma reads_fraction:
  assumes "digit c" "list_all digit ip" "c = 48 \<longrightarrow> ip = []" "list_all digit f" "f \<noteq> []"
    "digits_value (c # ip @ f) = d * 10 ^ j" "x = - int (length f) + int j"
  shows "reads_as (c # ip @ 46 # f) (decimal_mag d x)"
proof -
  have "takeWhile digit (46 # f @ r) = [] \<and> float_follows (46 # f @ r) \<and>
      scan_decimal neg (c # ip) (46 # f @ r) = (float_pack neg (decimal_mag d x), r)" if r: "number_ends r" for neg r
    using scan_fraction_digits[OF assms(4,5) number_ends_stop(3)[OF r]] number_ends_stop(2)[OF r] assms(4-6)
      decimal_mag_shifts[of d j "- int (length f)"]
    by (cases f) (simp_all add: assms(7) scan_decimal_def digit_chars float_follows_def)
  then show ?thesis using assms(1-3) unfolding reads_as_def by (intro exI[of _ c] exI[of _ ip] exI[of _ "46 # f"]) simp
qed

lemma exponent_text_stop: "takeWhile digit (exponent_text x @ r) = []" "float_follows (exponent_text x @ r)"
proof -
  obtain c t where "dec_digits (nat \<bar>x\<bar>) = c # t" "digit c"
    using dec_digits_nonempty[of "nat \<bar>x\<bar>"] dec_digits_digit[of "nat \<bar>x\<bar>"] by (cases "dec_digits (nat \<bar>x\<bar>)") auto
  then show "takeWhile digit (exponent_text x @ r) = []" "float_follows (exponent_text x @ r)"
    by (simp_all add: exponent_text_def digit_chars float_follows_def Let_def)
qed

lemma reads_exponent:
  assumes "digit c" "list_all digit f"
  shows "reads_as (c # (if f = [] then [] else 46 # f) @ exponent_text y) (decimal_mag (digits_value (c # f)) (y - int (length f)))"
proof -
  let ?q = "(if f = [] then [] else 46 # f) @ exponent_text y"
  have "takeWhile digit (?q @ r) = [] \<and> float_follows (?q @ r) \<and>
      scan_decimal neg [c] (?q @ r) = (float_pack neg (decimal_mag (digits_value (c # f)) (y - int (length f))), r)"
    if r: "number_ends r" for neg r
  proof (cases f)
    case Nil
    have "scan_fraction (exponent_text y @ r) = ([], exponent_text y @ r)"
      by (simp add: scan_fraction_def exponent_text_def)
    then show ?thesis using Nil by (simp add: scan_decimal_def scan_exponent_text[OF r] exponent_text_stop)
  next
    case (Cons a l)
    have "scan_fraction (46 # f @ exponent_text y @ r) = (f, exponent_text y @ r)"
      using assms(2) Cons exponent_text_stop(1) by (intro scan_fraction_digits) simp_all
    then show ?thesis
      using Cons assms(2) by (simp add: scan_decimal_def scan_exponent_text[OF r] digit_chars float_follows_def)
  qed
  then show ?thesis using assms(1) unfolding reads_as_def by (intro exI[of _ c] exI[of _ "[]"] exI[of _ ?q]) simp
qed

lemma point_text_reads:
  assumes "0 < d" "ds = dec_digits d"
  shows "reads_as (point_text ds (int (length ds) + x)) (decimal_mag d x)"
proof -
  define p where "p = int (length ds) + x"
  have ds: "list_all digit ds" "digits_value ds = d"
    using assms(2) by (simp_all add: dec_digits_digit digits_value_dec)
  obtain c t where c: "ds = c # t" "c \<noteq> 48" "digit c"
    using dec_digits_head[OF assms(1)] dec_digits_nonempty[of d] ds(1) unfolding assms(2)[symmetric]
    by (cases ds) simp_all
  consider "- 4 < p" "p \<le> 0" | "p \<le> 16" "int (length ds) \<le> p" | "0 < p" "p \<le> 16" "p < int (length ds)"
    | "\<not> (- 4 < p \<and> p \<le> 16)" by linarith
  then have "reads_as (point_text ds p) (decimal_mag d x)"
  proof cases
    case 1
    then have "reads_as (48 # [] @ 46 # (replicate (nat (- p)) 48 @ ds)) (decimal_mag d x)"
      by (intro reads_fraction[where j = 0])
        (use ds c digits_value_append[of "48 # replicate (nat (- p)) 48" ds] digits_value_zeros[of "Suc (nat (- p))"]
          in \<open>simp_all add: digit_chars zeros_digits p_def\<close>)
    then show ?thesis using 1 by (simp add: point_text_def)
  next
    case 2
    define z where "z = replicate (nat p - length ds) (48 :: nat)"
    have "reads_as (c # (t @ z) @ 46 # [48]) (decimal_mag d x)"
      by (intro reads_fraction[where j = "Suc (nat p - length ds)"])
        (use ds c 2 digits_value_append[of ds "z @ [48]"] digits_value_zeros[of "Suc (nat p - length ds)"]
          in \<open>simp_all add: digit_chars zeros_digits p_def z_def flip: replicate_append_same\<close>)
    then show ?thesis using 2 c by (simp add: point_text_def z_def)
  next
    case 3
    have tk: "take (nat p) ds = c # take (nat p - 1) t" using 3 c by (cases "nat p") simp_all
    have all: "c # take (nat p - 1) t @ drop (nat p) ds = ds" using append_take_drop_id[of "nat p" ds] by (simp add: tk)
    have l: "list_all digit (take (nat p - 1) t)" "list_all digit (drop (nat p) ds)"
      using ds(1) set_drop_subset[of "nat p" ds] set_take_subset[of "nat p - 1" t] by (auto simp: list_all_iff c(1))
    have x: "x = p - int (length ds)" by (simp add: p_def)
    have "reads_as (c # take (nat p - 1) t @ 46 # drop (nat p) ds) (decimal_mag d x)"
      by (rule reads_fraction[where j = 0, OF c(3) l(1) _ l(2)]) (use 3 c(2) ds(2) in \<open>simp_all add: x all del: One_nat_def\<close>)
    then show ?thesis using 3 tk by (simp add: point_text_def)
  next
    case 4
    then show ?thesis
      using reads_exponent[of c t "p - 1"] ds c by (auto simp: point_text_def p_def)
  qed
  then show ?thesis by (simp add: p_def)
qed

text \<open>A finite magnitude is read back from its text.\<close>

lemma mag_text_reads:
  assumes "m < FLOAT_INF"
  shows "reads_as (mag_text m) m"
proof (cases "m = 0")
  case True
  have "reads_as (48 # [] @ 46 # [48]) (decimal_mag 0 (- 1))"
    by (intro reads_fraction[where j = 0]) (simp_all add: digit_chars digits_value_def)
  then show ?thesis using True by (simp add: mag_text_def)
next
  case False
  obtain d x where d: "float_digits m = (d, x)" "decimal_mag d x = m" "0 < d"
    using float_digits_read[of m] False assms by auto
  then show ?thesis using point_text_reads[OF d(3) refl, of x] False by (simp add: mag_text_def Let_def)
qed

end
