(* ===== verification/Json.thy ===== *)
theory Json
  imports Utf8 FloatText
begin

text \<open>
  \<open>json.dumps\<close> and \<open>json.loads\<close> of the standard library, as the patterns use them: compact
  separators, and \<open>ensure_ascii\<close> on or off. Texts are lists of code points. A text nested deeper than
  the interpreter's recursion limit is parsed here and is a \<open>RecursionError\<close> in CPython.
\<close>

section \<open>Writing\<close>

definition hex_digit :: "nat \<Rightarrow> nat" where
  "hex_digit n = (if n < 10 then 48 + n else 87 + n)"

definition hex4 :: "nat \<Rightarrow> pystr" where
  "hex4 n = [hex_digit (n div 4096 mod 16), hex_digit (n div 256 mod 16), hex_digit (n div 16 mod 16), hex_digit (n mod 16)]"

definition escape_char :: "bool \<Rightarrow> nat \<Rightarrow> pystr" where
  "escape_char ascii c =
     (if c = 34 then [92, 34] else if c = 92 then [92, 92] else if c = 10 then [92, 110]
      else if c = 13 then [92, 114] else if c = 9 then [92, 116] else if c = 12 then [92, 102]
      else if c = 8 then [92, 98]
      else if c < 32 then 92 # 117 # hex4 c
      else if ascii \<and> 126 < c then
        (if c < 65536 then 92 # 117 # hex4 c
         else let d = c - 65536 in
           92 # 117 # hex4 (55296 + d div 1024) @ 92 # 117 # hex4 (56320 + d mod 1024))
      else [c])"

definition json_string :: "bool \<Rightarrow> pystr \<Rightarrow> pystr" where
  "json_string ascii s = 34 # concat (map (escape_char ascii) s) @ [34]"

text \<open>\<open>int.__repr__\<close> raises beyond \<open>sys.get_int_max_str_digits()\<close>, and so does the conversion back.\<close>

definition MAX_STR_DIGITS :: nat where "MAX_STR_DIGITS = 4300"

definition int_text :: "int \<Rightarrow> pystr res" where
  "int_text i =
     (let ds = dec_digits (nat \<bar>i\<bar>) in
      if MAX_STR_DIGITS < length ds then Inl (ValueError ''Exceeds the limit (4300 digits) for integer string conversion'')
      else Inr (if i < 0 then 45 # ds else ds))"

function json_dumps :: "bool \<Rightarrow> pyval \<Rightarrow> pystr res"
  and dump_items :: "bool \<Rightarrow> pyval list \<Rightarrow> pystr res"
  and dump_pairs :: "bool \<Rightarrow> (pystr \<times> pyval) list \<Rightarrow> pystr res" where
  "json_dumps a v =
     (case v of
        VNone \<Rightarrow> Inr (S ''null'')
      | VBool b \<Rightarrow> Inr (if b then S ''true'' else S ''false'')
      | VInt i \<Rightarrow> int_text i
      | VFloat w \<Rightarrow> Inr (json_float w)
      | VStr s \<Rightarrow> Inr (json_string a s)
      | VList xs \<Rightarrow> bind_r (dump_items a xs) (\<lambda>t. Inr (91 # t @ [93]))
      | VTuple xs \<Rightarrow> bind_r (dump_items a xs) (\<lambda>t. Inr (91 # t @ [93]))
      | VDict d \<Rightarrow> bind_r (dump_pairs a d) (\<lambda>t. Inr (123 # t @ [125]))
      | _ \<Rightarrow> Inl (TypeError ''Object of type {} is not JSON serializable''))"
| "dump_items a [] = Inr []"
| "dump_items a (x # xs) =
     bind_r (json_dumps a x) (\<lambda>t. bind_r (dump_items a xs) (\<lambda>ts. Inr (if xs = [] then t else t @ 44 # ts)))"
| "dump_pairs a [] = Inr []"
| "dump_pairs a ((k, v) # d) =
     bind_r (json_dumps a v) (\<lambda>t. bind_r (dump_pairs a d) (\<lambda>ts.
       Inr (json_string a k @ 58 # (if d = [] then t else t @ 44 # ts))))"
  by pat_completeness auto
termination
  by (relation "measures [\<lambda>x. case x of
         Inl (_, v) \<Rightarrow> 2 * size v
       | Inr (Inl (_, xs)) \<Rightarrow> 2 * size_list size xs
       | Inr (Inr (_, d)) \<Rightarrow> 2 * size_list (size_prod (\<lambda>_. 0) size) d]") auto

declare json_dumps.simps [simp del]

section \<open>Reading\<close>

definition json_space :: "nat \<Rightarrow> bool" where
  "json_space c \<longleftrightarrow> c = 32 \<or> c = 9 \<or> c = 10 \<or> c = 13"

definition skip_ws :: "pystr \<Rightarrow> pystr" where
  "skip_ws cs = dropWhile json_space cs"

definition hex_value :: "nat \<Rightarrow> nat option" where
  "hex_value c =
     (if 48 \<le> c \<and> c \<le> 57 then Some (c - 48) else if 97 \<le> c \<and> c \<le> 102 then Some (c - 87)
      else if 65 \<le> c \<and> c \<le> 70 then Some (c - 55) else None)"

fun read_hex4 :: "pystr \<Rightarrow> (nat \<times> pystr) option" where
  "read_hex4 (a # b # c # d # cs) =
     (case (hex_value a, hex_value b, hex_value c, hex_value d) of
        (Some w, Some x, Some y, Some z) \<Rightarrow> Some (((w * 16 + x) * 16 + y) * 16 + z, cs)
      | _ \<Rightarrow> None)"
| "read_hex4 _ = None"

definition simple_escape :: "nat \<Rightarrow> nat option" where
  "simple_escape c =
     (if c = 34 \<or> c = 92 \<or> c = 47 then Some c else if c = 98 then Some 8 else if c = 102 then Some 12
      else if c = 110 then Some 10 else if c = 114 then Some 13 else if c = 116 then Some 9 else None)"

text \<open>
  The \<open>uXXXX\<close> after a backslash, and the low surrogate that may follow a high one: the code point
  and the rest.
\<close>

definition read_unicode :: "pystr \<Rightarrow> (nat \<times> pystr) option" where
  "read_unicode cs =
     (case read_hex4 cs of
        None \<Rightarrow> None
      | Some (u, r) \<Rightarrow>
          if 55296 \<le> u \<and> u < 56320 \<and> take 2 r = [92, 117] then
            (case read_hex4 (drop 2 r) of
               None \<Rightarrow> None
             | Some (w, r2) \<Rightarrow>
                 if 56320 \<le> w \<and> w < 57344 then Some (65536 + (u - 55296) * 1024 + (w - 56320), r2) else Some (u, r))
          else Some (u, r))"

lemma read_hex4_shorter: "read_hex4 cs = Some (u, r) \<Longrightarrow> length r < length cs"
  by (induction cs rule: read_hex4.induct) (auto split: option.splits)

lemma read_unicode_shorter: "read_unicode cs = Some (u, r) \<Longrightarrow> length r < length cs"
  by (fastforce simp: read_unicode_def dest!: read_hex4_shorter split: option.splits if_splits)

text \<open>\<open>scanstring\<close> in strict mode, after the opening quote.\<close>

function scan_string :: "pystr \<Rightarrow> (pystr \<times> pystr) res" where
  "scan_string cs =
     (case cs of
        [] \<Rightarrow> Inl (JsonDecodeError ''Unterminated string starting at'')
      | c # r \<Rightarrow>
          if c = 34 then Inr ([], r)
          else if c = 92 then
            (case r of
               [] \<Rightarrow> Inl (JsonDecodeError ''Unterminated string starting at'')
             | e # r1 \<Rightarrow>
                 if e = 117 then
                   (case read_unicode r1 of
                      None \<Rightarrow> Inl (JsonDecodeError ''Invalid escape uXXXX'')
                    | Some (u, r2) \<Rightarrow> bind_r (scan_string r2) (\<lambda>(s, q). Inr (u # s, q)))
                 else
                   (case simple_escape e of
                      None \<Rightarrow> Inl (JsonDecodeError ''Invalid escape'')
                    | Some x \<Rightarrow> bind_r (scan_string r1) (\<lambda>(s, q). Inr (x # s, q))))
          else if c < 32 then Inl (JsonDecodeError ''Invalid control character at'')
          else bind_r (scan_string r) (\<lambda>(s, q). Inr (c # s, q)))"
  by pat_completeness auto
termination
  by (relation "measure length") (auto dest: read_unicode_shorter)

declare scan_string.simps [simp del]

definition scan_number :: "pystr \<Rightarrow> (pyval \<times> pystr) res" where
  "scan_number cs =
     (let neg = (case cs of c # _ \<Rightarrow> c = 45 | [] \<Rightarrow> False); body = (if neg then tl cs else cs) in
      case body of
        [] \<Rightarrow> Inl (JsonDecodeError ''Expecting value'')
      | c # r \<Rightarrow>
          if \<not> digit c then Inl (JsonDecodeError ''Expecting value'')
          else
            let ds = (if c = 48 then [c] else takeWhile digit body); rest = drop (length ds) body in
            if float_follows rest then (case scan_decimal neg ds rest of (w, q) \<Rightarrow> Inr (VFloat w, q))
            else if MAX_STR_DIGITS < length ds
            then Inl (ValueError ''Exceeds the limit (4300 digits) for integer string conversion'')
            else Inr (VInt (if neg then - int (digits_value ds) else int (digits_value ds)), rest))"

text \<open>The fixed words, with the non-standard ones CPython accepts.\<close>

definition json_words :: "(pystr \<times> pyval) list" where
  "json_words =
     [(S ''null'', VNone), (S ''true'', VBool True), (S ''false'', VBool False), (S ''NaN'', VFloat 0x7FF8000000000000),
      (S ''Infinity'', VFloat 0x7FF0000000000000), (S ''-Infinity'', VFloat 0xFFF0000000000000)]"

definition scan_word :: "pystr \<Rightarrow> (pyval \<times> pystr) res" where
  "scan_word cs =
     (case find (\<lambda>(w, _). take (length w) cs = w) json_words of
        Some (w, v) \<Rightarrow> Inr (v, drop (length w) cs)
      | None \<Rightarrow> scan_number cs)"

function (domintros) scan_value :: "pystr \<Rightarrow> (pyval \<times> pystr) res"
  and scan_items :: "pystr \<Rightarrow> (pyval list \<times> pystr) res"
  and scan_members :: "pydict \<Rightarrow> pystr \<Rightarrow> (pydict \<times> pystr) res" where
  "scan_value cs =
     (case cs of
        [] \<Rightarrow> Inl (JsonDecodeError ''Expecting value'')
      | c # r \<Rightarrow>
          if c = 34 then bind_r (scan_string r) (\<lambda>(s, q). Inr (VStr s, q))
          else if c = 123 then
            (case skip_ws r of
               [] \<Rightarrow> Inl (JsonDecodeError ''Expecting property name enclosed in double quotes'')
             | d # q \<Rightarrow> if d = 125 then Inr (VDict [], q)
                        else bind_r (scan_members [] (skip_ws r)) (\<lambda>(m, q). Inr (VDict m, q)))
          else if c = 91 then
            (case skip_ws r of
               [] \<Rightarrow> Inl (JsonDecodeError ''Expecting value'')
             | d # q \<Rightarrow> if d = 93 then Inr (VList [], q)
                        else bind_r (scan_items (skip_ws r)) (\<lambda>(xs, q). Inr (VList xs, q)))
          else scan_word cs)"
| "scan_items cs =
     bind_r (scan_value cs) (\<lambda>(v, r).
       case skip_ws r of
         [] \<Rightarrow> Inl (JsonDecodeError ''Expecting , delimiter'')
       | c # q \<Rightarrow>
           if c = 93 then Inr ([v], q)
           else if c = 44 then bind_r (scan_items (skip_ws q)) (\<lambda>(vs, p). Inr (v # vs, p))
           else Inl (JsonDecodeError ''Expecting , delimiter''))"
| "scan_members acc cs =
     (case cs of
        [] \<Rightarrow> Inl (JsonDecodeError ''Expecting property name enclosed in double quotes'')
      | c # r \<Rightarrow>
          if c \<noteq> 34 then Inl (JsonDecodeError ''Expecting property name enclosed in double quotes'')
          else
            bind_r (scan_string r) (\<lambda>(k, r1).
              case skip_ws r1 of
                [] \<Rightarrow> Inl (JsonDecodeError ''Expecting : delimiter'')
              | d # r2 \<Rightarrow>
                  if d \<noteq> 58 then Inl (JsonDecodeError ''Expecting : delimiter'')
                  else
                    bind_r (scan_value (skip_ws r2)) (\<lambda>(v, r3).
                      case skip_ws r3 of
                        [] \<Rightarrow> Inl (JsonDecodeError ''Expecting , delimiter'')
                      | e # r4 \<Rightarrow>
                          if e = 125 then Inr (dict_set acc k v, r4)
                          else if e = 44 then scan_members (dict_set acc k v) (skip_ws r4)
                          else Inl (JsonDecodeError ''Expecting , delimiter''))))"
  by pat_completeness auto

lemma skip_ws_length: "length (skip_ws cs) \<le> length cs"
  by (simp add: skip_ws_def length_dropWhile_le)

lemma skip_ws_Cons: "skip_ws cs = c # r \<Longrightarrow> length r < length cs"
  using skip_ws_length[of cs] by simp

lemma scan_string_Nil: "scan_string [] = Inl (JsonDecodeError ''Unterminated string starting at'')"
  by (simp add: scan_string.simps[of "[]"])

lemma scan_string_Cons:
  "scan_string (c # r) =
     (if c = 34 then Inr ([], r)
      else if c = 92 then
        (case r of
           [] \<Rightarrow> Inl (JsonDecodeError ''Unterminated string starting at'')
         | e # r1 \<Rightarrow>
             if e = 117 then
               (case read_unicode r1 of
                  None \<Rightarrow> Inl (JsonDecodeError ''Invalid escape uXXXX'')
                | Some (u, r2) \<Rightarrow> bind_r (scan_string r2) (\<lambda>(s, q). Inr (u # s, q)))
             else
               (case simple_escape e of
                  None \<Rightarrow> Inl (JsonDecodeError ''Invalid escape'')
                | Some x \<Rightarrow> bind_r (scan_string r1) (\<lambda>(s, q). Inr (x # s, q))))
      else if c < 32 then Inl (JsonDecodeError ''Invalid control character at'')
      else bind_r (scan_string r) (\<lambda>(s, q). Inr (c # s, q)))"
  by (simp add: scan_string.simps[of "c # r"])

lemma scan_string_tail:
  assumes "scan_string cs = Inr (s, r)"
  shows "cs = 34 # r \<or> (\<exists>q t. scan_string q = Inr (t, r) \<and> length q < length cs)"
proof (cases cs)
  case Nil
  then show ?thesis using assms by (simp add: scan_string_Nil)
next
  case (Cons c d)
  have a: "scan_string (c # d) = Inr (s, r)" using assms Cons by simp
  show ?thesis
  proof (cases "c = 92")
    case True
    show ?thesis
    proof (cases d)
      case Nil
      then show ?thesis using a True by (simp add: scan_string_Cons)
    next
      case d: (Cons e d1)
      show ?thesis
      proof (cases "e = 117")
        case u: True
        then obtain x q t where "read_unicode d1 = Some (x, q)" "scan_string q = Inr (t, r)"
          using a True d by (cases "read_unicode d1") (auto simp: scan_string_Cons bind_r_Inr_iff)
        then show ?thesis using read_unicode_shorter[of d1 x q] Cons d by auto
      next
        case False
        then obtain t where "scan_string d1 = Inr (t, r)"
          using a True d by (cases "simple_escape e") (auto simp: scan_string_Cons bind_r_Inr_iff)
        then show ?thesis using Cons d by auto
      qed
    qed
  next
    case False
    then show ?thesis
      using a Cons by (auto simp: scan_string_Cons bind_r_Inr_iff split: if_splits)
  qed
qed

lemma scan_string_shorter: "scan_string cs = Inr (s, r) \<Longrightarrow> length r < length cs"
proof (induction "length cs" arbitrary: cs s r rule: less_induct)
  case less
  from scan_string_tail[OF less.prems] show ?case using less.hyps by fastforce
qed

lemma scan_number_shorter: "scan_number cs = Inr (v, r) \<Longrightarrow> length r < length cs"
  by (auto simp: scan_number_def Let_def split: list.splits if_splits prod.splits dest!: scan_decimal_shorter)

lemma scan_word_shorter: "scan_word cs = Inr (v, r) \<Longrightarrow> length r < length cs"
proof (cases "find (\<lambda>(w, _). take (length w) cs = w) json_words")
  case (Some wv)
  assume s: "scan_word cs = Inr (v, r)"
  obtain w x where wv: "wv = (w, x)" by (cases wv)
  have f: "(w, x) \<in> set json_words" "take (length w) cs = w"
    using Some by (auto simp: wv find_Some_iff in_set_conv_nth)
  then have "w \<noteq> []" by (auto simp: json_words_def)
  moreover have "length w \<le> length cs" using f(2) by (metis length_take min.cobounded1)
  moreover have "r = drop (length w) cs" using s Some by (simp add: scan_word_def wv)
  ultimately show ?thesis by (cases w) auto
qed (simp add: scan_word_def scan_number_shorter)

lemma scan_shorter_dom:
  "scan_value_scan_items_scan_members_dom (Inl cs) \<Longrightarrow> (\<forall>v r. scan_value cs = Inr (v, r) \<longrightarrow> length r < length cs)"
  "scan_value_scan_items_scan_members_dom (Inr (Inl cs)) \<Longrightarrow> (\<forall>v r. scan_items cs = Inr (v, r) \<longrightarrow> length r < length cs)"
  "scan_value_scan_items_scan_members_dom (Inr (Inr (acc, cs))) \<Longrightarrow>
     (\<forall>v r. scan_members acc cs = Inr (v, r) \<longrightarrow> length r < length cs)"
proof (induction rule: scan_value_scan_items_scan_members.pinduct)
  case (1 cs)
  then show ?case
    using skip_ws_length[of "tl cs"] scan_word_shorter[of cs]
    by (fastforce simp: scan_value.psimps bind_r_Inr_iff split: list.splits if_splits dest!: scan_string_shorter skip_ws_Cons)
next
  case (2 cs)
  show ?case
  proof (intro allI impI)
    fix v r
    assume "scan_items cs = Inr (v, r)"
    then obtain x q where x: "scan_value cs = Inr (x, q)"
      and rest: "(case skip_ws q of [] \<Rightarrow> Inl (JsonDecodeError ''Expecting , delimiter'')
       | c # q \<Rightarrow> if c = 93 then Inr ([x], q)
           else if c = 44 then bind_r (scan_items (skip_ws q)) (\<lambda>(vs, p). Inr (x # vs, p))
           else Inl (JsonDecodeError ''Expecting , delimiter'')) = Inr (v, r)"
      using "2.hyps" by (auto simp: scan_items.psimps bind_r_Inr_iff)
    have l: "length q < length cs" using "2.IH"(1) x by blast
    then obtain c q1 where c: "skip_ws q = c # q1" "length q1 < length q"
      using rest by (cases "skip_ws q") (auto dest: skip_ws_Cons)
    show "length r < length cs"
    proof (cases "c = 93")
      case False
      then have 44: "c = 44" using rest c by (simp split: if_splits)
      then obtain vs where "scan_items (skip_ws q1) = Inr (vs, r)" using rest c by (auto simp: bind_r_Inr_iff)
      then have "length r < length (skip_ws q1)" using "2.IH"(2)[OF x refl c(1) False 44] by blast
      then show ?thesis using l c(2) skip_ws_length[of q1] by linarith
    qed (use rest c l in simp)
  qed
next
  case (3 acc cs)
  show ?case
  proof (intro allI impI)
    fix v r
    assume a: "scan_members acc cs = Inr (v, r)"
    obtain c0 cs0 where cs: "cs = c0 # cs0" "\<not> c0 \<noteq> 34"
      using a "3.hyps" by (cases cs) (auto simp: scan_members.psimps split: if_splits)
    obtain k r1 where k: "scan_string cs0 = Inr (k, r1)"
      using a "3.hyps" cs by (auto simp: scan_members.psimps bind_r_Inr_iff)
    obtain d r2 where d: "skip_ws r1 = d # r2" "\<not> d \<noteq> 58"
      using a "3.hyps" cs k by (cases "skip_ws r1") (auto simp: scan_members.psimps split: if_splits)
    obtain x r3 where x: "scan_value (skip_ws r2) = Inr (x, r3)"
      using a "3.hyps" cs k d by (auto simp: scan_members.psimps bind_r_Inr_iff)
    obtain e r4 where e: "skip_ws r3 = e # r4"
      using a "3.hyps" cs k d x by (cases "skip_ws r3") (auto simp: scan_members.psimps)
    have "length r3 < length (skip_ws r2)" using "3.IH"(1)[OF cs k refl d] x by blast
    then have l: "length r4 < length cs"
      using scan_string_shorter[OF k] skip_ws_Cons[OF d(1)] skip_ws_Cons[OF e] skip_ws_length[of r2] cs(1) by simp
    show "length r < length cs"
    proof (cases "e = 125")
      case True
      then show ?thesis using a "3.hyps" cs k d x e l by (simp add: scan_members.psimps)
    next
      case False
      then have 44: "e = 44" using a "3.hyps" cs k d x e by (simp add: scan_members.psimps split: if_splits)
      then have "scan_members (dict_set acc k x) (skip_ws r4) = Inr (v, r)"
        using a "3.hyps" cs k d x e by (simp add: scan_members.psimps)
      then have "length r < length (skip_ws r4)" using "3.IH"(2)[OF cs k refl d x refl e False 44] by blast
      then show ?thesis using l skip_ws_length[of r4] by linarith
    qed
  qed
qed

termination scan_value
proof (relation "measure (\<lambda>x. case x of Inl cs \<Rightarrow> 2 * length cs | Inr (Inl cs) \<Rightarrow> 2 * length cs + 1
    | Inr (Inr (_, cs)) \<Rightarrow> 2 * length cs + 1)", goal_cases)
  case 1 show ?case by simp
next
  case (2 cs c r d q) then show ?case using skip_ws_length[of r] by simp
next
  case (3 cs c r d q) then show ?case using skip_ws_length[of r] by simp
next
  case 4 show ?case by simp
next
  case (5 cs vr v r c q)
  then have "length r < length cs" using scan_shorter_dom(1) by blast
  then show ?case using 5 skip_ws_Cons[of r c q] skip_ws_length[of q] by simp
next
  case (6 acc cs c r kr k r1 d r2)
  then show ?case using scan_string_shorter[of r k r1] skip_ws_Cons[of r1 d r2] skip_ws_length[of r2] by simp
next
  case (7 acc cs c r kr k r1 d r2 vr v r3 e r4)
  then have "length r3 < length (skip_ws r2)" using scan_shorter_dom(1) by blast
  then show ?case
    using 7 scan_string_shorter[of r k r1] skip_ws_Cons[of r1 d r2] skip_ws_length[of r2] skip_ws_Cons[of r3 e r4]
      skip_ws_length[of r4] by simp
qed

declare scan_value.simps [simp del] scan_items.simps [simp del] scan_members.simps [simp del]

text \<open>\<open>json.loads(s)\<close> of a str.\<close>

definition json_loads :: "pystr \<Rightarrow> pyval res" where
  "json_loads s =
     (if take 1 s = [0xFEFF] then Inl (JsonDecodeError ''Unexpected UTF-8 BOM (decode using utf-8-sig)'')
      else bind_r (scan_value (skip_ws s)) (\<lambda>(v, r).
        if skip_ws r = [] then Inr v else Inl (JsonDecodeError ''Extra data'')))"

section \<open>What is written is read back\<close>

text \<open>
  Tuples come back as lists and the NaNs as the one \<open>float("nan")\<close> is; everything else that is
  written comes back as it was.
\<close>

fun json_norm :: "pyval \<Rightarrow> pyval" where
  "json_norm (VList xs) = VList (map json_norm xs)"
| "json_norm (VTuple xs) = VList (map json_norm xs)"
| "json_norm (VDict d) = VDict (map (\<lambda>(k, v). (k, json_norm v)) d)"
| "json_norm (VFloat w) = VFloat (if is_nan w then FLOAT_NAN else w)"
| "json_norm v = v"

text \<open>No lone surrogates: two of them that are written as escapes next to each other are read as one character.\<close>

fun scalar_text :: "pyval \<Rightarrow> bool" where
  "scalar_text (VStr s) = list_all is_scalar s"
| "scalar_text (VList xs) = list_all scalar_text xs"
| "scalar_text (VTuple xs) = list_all scalar_text xs"
| "scalar_text (VDict d) = list_all (\<lambda>(k, v). list_all is_scalar k \<and> scalar_text v) d"
| "scalar_text _ = True"

lemma hex_value_digit: "n < 16 \<Longrightarrow> hex_value (hex_digit n) = Some n"
  by (simp add: hex_value_def hex_digit_def)

lemma read_hex4_written: "n < 65536 \<Longrightarrow> read_hex4 (hex4 n @ r) = Some (n, r)"
proof -
  assume n: "n < 65536"
  have "n div 4096 mod 16 = n div 4096" using n by simp
  moreover have "((n div 4096 * 16 + n div 256 mod 16) * 16 + n div 16 mod 16) * 16 + n mod 16 = n"
  proof -
    have "n div 4096 = n div 16 div 16 div 16" "n div 256 = n div 16 div 16" by (simp_all flip: div_mult2_eq)
    then show ?thesis by (simp only: div_mult_mod_eq)
  qed
  moreover have "hex_value (hex_digit (n div 4096 mod 16)) = Some (n div 4096 mod 16)" by (simp add: hex_value_digit)
  ultimately show ?thesis by (simp add: hex4_def hex_value_digit)
qed

lemma read_unicode_written:
  "c < 55296 \<or> 57344 \<le> c \<and> c < 65536 \<Longrightarrow> read_unicode (hex4 c @ r) = Some (c, r)"
  "65536 \<le> c \<Longrightarrow> c \<le> 0x10FFFF \<Longrightarrow>
     read_unicode (hex4 (55296 + (c - 65536) div 1024) @ 92 # 117 # hex4 (56320 + (c - 65536) mod 1024) @ r) = Some (c, r)"
proof -
  show "read_unicode (hex4 c @ r) = Some (c, r)" if "c < 55296 \<or> 57344 \<le> c \<and> c < 65536"
    using that read_hex4_written[of c r] by (auto simp: read_unicode_def)
  assume c: "65536 \<le> c" "c \<le> 0x10FFFF"
  define d where "d = c - 65536"
  have d: "d div 1024 < 1024" "65536 + d = c" using c by (simp_all add: d_def)
  have "65536 + d div 1024 * 1024 + d mod 1024 = c" using d(2) by simp
  then show "read_unicode (hex4 (55296 + (c - 65536) div 1024) @ 92 # 117 # hex4 (56320 + (c - 65536) mod 1024) @ r) = Some (c, r)"
    using d(1) unfolding d_def[symmetric] by (simp add: read_unicode_def read_hex4_written)
qed

lemma scan_escaped:
  assumes "a \<longrightarrow> is_scalar c"
  shows "scan_string (escape_char a c @ r) = bind_r (scan_string r) (\<lambda>(s, q). Inr (c # s, q))"
proof (cases "a \<and> 126 < c")
  case True
  then show ?thesis
    using assms read_unicode_written(1)[of c r] read_unicode_written(2)[of c r]
    by (cases "c < 65536") (auto simp: escape_char_def is_scalar_def scan_string_Cons Let_def)
next
  case False
  then show ?thesis
    using read_unicode_written(1)[of c r] by (auto simp: escape_char_def scan_string_Cons simple_escape_def)
qed

lemma scan_json_string:
  "(a \<longrightarrow> list_all is_scalar s) \<Longrightarrow> scan_string (concat (map (escape_char a) s) @ 34 # r) = Inr (s, r)"
  by (induction s) (auto simp: scan_string_Cons scan_escaped)

text \<open>What may follow a value in a text that is written.\<close>

definition ends :: "pystr \<Rightarrow> bool" where
  "ends r \<longleftrightarrow> (case r of [] \<Rightarrow> True | c # _ \<Rightarrow> c = 44 \<or> c = 93 \<or> c = 125)"

lemma scan_number_digits:
  assumes "digit c" "list_all digit ds" "c = 48 \<longrightarrow> ds = []" "ends r" "length (c # ds) \<le> MAX_STR_DIGITS"
  shows "scan_number (c # ds @ r) = Inr (VInt (int (digits_value (c # ds))), r)"
    "scan_number (45 # c # ds @ r) = Inr (VInt (- int (digits_value (c # ds))), r)"
proof -
  have stop: "takeWhile digit r = []" "\<not> float_follows r"
    using assms(4) by (auto simp: ends_def float_follows_def digit_def split: list.splits)
  have tw: "takeWhile digit (ds @ r) = ds"
    using assms(2) stop(1) by (auto simp: list_all_iff takeWhile_append2)
  have c: "c \<noteq> 45" using assms(1) by (auto simp: digit_def)
  have l: "\<not> MAX_STR_DIGITS < Suc (length ds)" "\<not> MAX_STR_DIGITS < Suc 0" "0 < MAX_STR_DIGITS" "digit 48"
    using assms(5) by (simp_all add: digit_def)
  show "scan_number (c # ds @ r) = Inr (VInt (int (digits_value (c # ds))), r)"
    using assms(3) by (cases "c = 48") (simp_all add: scan_number_def Let_def tw stop(2) c l assms(1))
  show "scan_number (45 # c # ds @ r) = Inr (VInt (- int (digits_value (c # ds))), r)"
    using assms(3) by (cases "c = 48") (simp_all add: scan_number_def Let_def tw stop(2) c l assms(1))
qed

text \<open>A float that is written.\<close>

lemma scan_number_reads:
  assumes "reads_as t m" "ends r"
  shows "scan_number (t @ r) = Inr (VFloat (float_pack False m), r)"
    "scan_number (45 # t @ r) = Inr (VFloat (float_pack True m), r)"
proof -
  have "number_ends r" using assms(2) by (auto simp: ends_def number_ends_def digit_def split: list.splits)
  then obtain c ip q where t: "t = c # ip @ q" "digit c" "list_all digit ip" "c = 48 \<longrightarrow> ip = []"
    and q: "takeWhile digit (q @ r) = []" "float_follows (q @ r)"
    "\<And>neg. scan_decimal neg (c # ip) (q @ r) = (float_pack neg m, r)"
    using assms(1) unfolding reads_as_def by blast
  have "takeWhile digit (ip @ q @ r) = ip" using t(3) q(1) by (auto simp: list_all_iff takeWhile_append2)
  moreover have "c \<noteq> 45" using t(2) by (auto simp: digit_def)
  ultimately show "scan_number (t @ r) = Inr (VFloat (float_pack False m), r)"
    "scan_number (45 # t @ r) = Inr (VFloat (float_pack True m), r)"
    using t q by (cases "c = 48"; simp add: scan_number_def Let_def)+
qed

lemma dec_digits_cons: obtains c ds where "dec_digits n = c # ds" "digit c" "list_all digit ds" "c = 48 \<longrightarrow> ds = []"
proof -
  obtain c ds where d: "dec_digits n = c # ds" using dec_digits_nonempty by (cases "dec_digits n") auto
  moreover have "c = 48 \<longrightarrow> ds = []"
  proof (cases "n = 0")
    case True
    then show ?thesis using d by (simp add: dec_digits.simps[of 0])
  qed (use dec_digits_head[of n] d in auto)
  ultimately show thesis using that dec_digits_digit[of n] by simp
qed

lemma json_words_eq:
  "json_words =
     [([110, 117, 108, 108], VNone), ([116, 114, 117, 101], VBool True), ([102, 97, 108, 115, 101], VBool False),
      ([78, 97, 78], VFloat 0x7FF8000000000000), ([73, 110, 102, 105, 110, 105, 116, 121], VFloat 0x7FF0000000000000),
      ([45, 73, 110, 102, 105, 110, 105, 116, 121], VFloat 0xFFF0000000000000)]"
  by (simp add: json_words_def S_def)

lemma scan_word_number:
  "digit c \<Longrightarrow> scan_word (c # r) = scan_number (c # r)"
  "digit c \<Longrightarrow> scan_word (45 # c # r) = scan_number (45 # c # r)"
  by (auto simp: scan_word_def json_words_eq digit_def)

lemma scan_word_words:
  "scan_word (S ''null'' @ r) = Inr (VNone, r)" "scan_word (S ''true'' @ r) = Inr (VBool True, r)"
  "scan_word (S ''false'' @ r) = Inr (VBool False, r)"
  by (simp_all add: scan_word_def json_words_eq S_def)

text \<open>A written value starts with a character that neither ends nor separates anything.\<close>

definition starts :: "pystr \<Rightarrow> bool" where
  "starts t \<longleftrightarrow> (case t of [] \<Rightarrow> False | c # _ \<Rightarrow> \<not> json_space c \<and> c \<noteq> 93 \<and> c \<noteq> 125 \<and> c < 128)"

lemma skip_ws_starts: "starts t \<Longrightarrow> skip_ws (t @ r) = t @ r"
  by (cases t) (auto simp: starts_def skip_ws_def)

lemma skip_ws_delim: "c \<in> {44, 58, 93, 125, 34} \<Longrightarrow> skip_ws (c # r) = c # r"
  by (auto simp: skip_ws_def json_space_def)

lemma starts_append: "starts t \<Longrightarrow> starts (t @ r)"
  by (cases t) (auto simp: starts_def)

lemma int_text_starts:
  assumes "int_text i = Inr t"
  shows "starts t"
proof -
  obtain c ds where d: "dec_digits (nat \<bar>i\<bar>) = c # ds" "digit c" by (rule dec_digits_cons)
  have "t = (if i < 0 then 45 # c # ds else c # ds)"
    using assms by (auto simp: int_text_def Let_def d split: if_splits)
  then show ?thesis using d(2) by (auto simp: starts_def json_space_def digit_def)
qed

lemma json_float_cases:
  obtains "is_nan w" "json_float w = S ''NaN''"
  | neg where "w = (if neg then 0xFFF0000000000000 else 0x7FF0000000000000)" "\<not> is_nan w"
    "json_float w = (if neg then S ''-Infinity'' else S ''Infinity'')"
  | c t where "\<not> is_nan w" "digit c" "reads_as (c # t) (float_mag w)"
    "json_float w = (if float_neg w then 45 # c # t else c # t)"
proof -
  consider "is_nan w" | "\<not> is_nan w" "\<not> is_finite w" | "is_finite w" by blast
  then show thesis
  proof cases
    case 2
    then have "float_mag w = FLOAT_INF" by (simp add: is_nan_def is_finite_def)
    then have "w = float_pack (float_neg w) FLOAT_INF" using pack_unpack[of w] by simp
    then have "w = (if float_neg w then 0xFFF0000000000000 else 0x7FF0000000000000)"
      by (cases "float_neg w") (simp_all add: float_pack_def FLOAT_INF_def)
    then show ?thesis using that(2) 2 by (simp add: json_float_def)
  next
    case 3
    then have n: "\<not> is_nan w" by (simp add: is_nan_def is_finite_def)
    have m: "reads_as (mag_text (float_mag w)) (float_mag w)" using 3 by (intro mag_text_reads) (simp add: is_finite_def)
    then obtain c t where c: "mag_text (float_mag w) = c # t" "digit c" unfolding reads_as_def by blast
    show ?thesis using that(3)[OF n c(2)] m c 3 n by (simp add: json_float_def float_text_def)
  qed (use that(1) in \<open>simp add: json_float_def\<close>)
qed

lemma json_float_starts: "starts (json_float w)"
  by (cases w rule: json_float_cases) (auto simp: S_def starts_def json_space_def digit_def)

lemma scan_json_float:
  assumes "ends r"
  shows "scan_value (json_float w @ r) = Inr (json_norm (VFloat w), r)"
proof (cases w rule: json_float_cases)
  case 1
  then show ?thesis by (simp add: scan_value.simps[of "_ # _"] scan_word_def json_words_eq S_def FLOAT_NAN_def)
next
  case (2 neg)
  then show ?thesis by (cases neg) (simp_all add: scan_value.simps[of "_ # _"] scan_word_def json_words_eq S_def)
next
  case (3 c t)
  have "c \<noteq> 34" "c \<noteq> 91" "c \<noteq> 123" using 3(2) by (auto simp: digit_def)
  then show ?thesis
    using 3 scan_number_reads[OF 3(3) assms] scan_word_number[OF 3(2), of "t @ r"] pack_unpack[of w]
    by (cases "float_neg w") (simp_all add: scan_value.simps[of "_ # _"])
qed

lemma json_dumps_eqs [simp]:
  "json_dumps a VNone = Inr (S ''null'')" "json_dumps a (VBool b) = Inr (if b then S ''true'' else S ''false'')"
  "json_dumps a (VInt i) = int_text i" "json_dumps a (VStr s) = Inr (json_string a s)"
  "json_dumps a (VFloat w) = Inr (json_float w)"
  "json_dumps a (VList xs) = bind_r (dump_items a xs) (\<lambda>t. Inr (91 # t @ [93]))"
  "json_dumps a (VTuple xs) = bind_r (dump_items a xs) (\<lambda>t. Inr (91 # t @ [93]))"
  "json_dumps a (VDict d) = bind_r (dump_pairs a d) (\<lambda>t. Inr (123 # t @ [125]))"
  "json_dumps a (VBytes bs) = Inl (TypeError ''Object of type {} is not JSON serializable'')"
  "json_dumps a (VDecimal c e) = Inl (TypeError ''Object of type {} is not JSON serializable'')"
  "json_dumps a VDecimalSpecial = Inl (TypeError ''Object of type {} is not JSON serializable'')"
  "json_dumps a (VDatetime n) = Inl (TypeError ''Object of type {} is not JSON serializable'')"
  "json_dumps a VOther = Inl (TypeError ''Object of type {} is not JSON serializable'')"
  by (simp_all add: json_dumps.simps[of a])

lemma json_dumps_starts: "json_dumps a v = Inr t \<Longrightarrow> starts t"
proof (cases v)
  case (VFloat w)
  moreover assume "json_dumps a v = Inr t"
  ultimately show ?thesis using json_float_starts by auto
qed (auto simp: bind_r_Inr_iff json_string_def starts_def json_space_def S_def dest: int_text_starts[unfolded starts_def] split: if_splits)

lemma dump_items_starts: "dump_items a xs = Inr t \<Longrightarrow> xs \<noteq> [] \<Longrightarrow> starts t"
  by (cases xs) (auto simp: bind_r_Inr_iff starts_append dest: json_dumps_starts)

lemma dump_pairs_starts: "dump_pairs a d = Inr t \<Longrightarrow> d \<noteq> [] \<Longrightarrow> starts t"
  by (cases "(a, d)" rule: dump_pairs.cases) (auto simp: bind_r_Inr_iff json_string_def starts_def json_space_def)

lemma scan_int_text:
  assumes "int_text i = Inr t" "ends r"
  shows "scan_value (t @ r) = Inr (VInt i, r)"
proof -
  obtain c ds where d: "dec_digits (nat \<bar>i\<bar>) = c # ds" "digit c" "list_all digit ds" "c = 48 \<longrightarrow> ds = []"
    by (rule dec_digits_cons)
  have l: "length (c # ds) \<le> MAX_STR_DIGITS" and t: "t = (if i < 0 then 45 # c # ds else c # ds)"
    using assms(1) by (auto simp: int_text_def Let_def d(1) split: if_splits)
  have v: "int (digits_value (c # ds)) = \<bar>i\<bar>" using digits_value_dec[of "nat \<bar>i\<bar>"] d(1) by simp
  have "c \<noteq> 34" "c \<noteq> 91" "c \<noteq> 123" using d(2) by (auto simp: digit_def)
  then show ?thesis
    using scan_number_digits[OF d(2-4) assms(2) l] scan_word_number[OF d(2), of "ds @ r"] v
    by (cases "i < 0") (simp_all add: t scan_value.simps[of "45 # c # ds @ r"] scan_value.simps[of "c # ds @ r"])
qed

lemma json_string_scan: "starts (json_string a k)" "json_string a k @ r = 34 # concat (map (escape_char a) k) @ 34 # r"
  by (simp_all add: json_string_def starts_def json_space_def)

lemma scan_words_value:
  "scan_value (S ''null'' @ r) = Inr (VNone, r)" "scan_value (S ''true'' @ r) = Inr (VBool True, r)"
  "scan_value (S ''false'' @ r) = Inr (VBool False, r)"
  using scan_word_words[of r] by (simp_all add: S_def scan_value.simps[of "_ # _"])

lemma scan_list:
  assumes "starts ts" "scan_items (ts @ 93 # r) = Inr (vs, r)"
  shows "scan_value (91 # ts @ 93 # r) = Inr (VList vs, r)"
proof -
  obtain c q where c: "ts = c # q" "c \<noteq> 93" using assms(1) by (cases ts) (auto simp: starts_def)
  have "skip_ws (ts @ 93 # r) = ts @ 93 # r" using assms(1) by (rule skip_ws_starts)
  then show ?thesis using assms(2) c by (simp add: scan_value.simps[of "91 # _"])
qed

lemma scan_dict:
  assumes "starts ts" "scan_members [] (ts @ 125 # r) = Inr (d, r)"
  shows "scan_value (123 # ts @ 125 # r) = Inr (VDict d, r)"
proof -
  obtain c q where c: "ts = c # q" "c \<noteq> 125" using assms(1) by (cases ts) (auto simp: starts_def)
  have "skip_ws (ts @ 125 # r) = ts @ 125 # r" using assms(1) by (rule skip_ws_starts)
  then show ?thesis using assms(2) c by (simp add: scan_value.simps[of "123 # _"])
qed

lemma json_round:
  "json_dumps a v = Inr t \<Longrightarrow> (a \<longrightarrow> scalar_text v) \<Longrightarrow> well_keyed v \<Longrightarrow> ends r \<Longrightarrow> scan_value (t @ r) = Inr (json_norm v, r)"
  "dump_items a xs = Inr t \<Longrightarrow> (a \<longrightarrow> list_all scalar_text xs) \<Longrightarrow> list_all well_keyed xs \<Longrightarrow> xs \<noteq> [] \<Longrightarrow>
     scan_items (t @ 93 # r) = Inr (map json_norm xs, r)"
  "dump_pairs a d = Inr t \<Longrightarrow> (a \<longrightarrow> scalar_text (VDict d)) \<Longrightarrow> list_all (\<lambda>(_, v). well_keyed v) d \<Longrightarrow> dict_ok (acc @ d) \<Longrightarrow> d \<noteq> [] \<Longrightarrow>
     scan_members acc (t @ 125 # r) = Inr (acc @ map (\<lambda>(k, v). (k, json_norm v)) d, r)"
proof (induction a v and a xs and a d arbitrary: t r and t r and t r acc
    rule: json_dumps_dump_items_dump_pairs.induct)
  case (1 a v)
  have empty: "skip_ws (93 # r) = 93 # r" "skip_ws (125 # r) = 125 # r" by (simp_all add: skip_ws_delim)
  have lst: "scan_value (t @ r) = Inr (VList (map json_norm xs), r)"
    if lv: "v = VList xs \<or> v = VTuple xs" for xs
  proof -
    obtain ts where ts: "dump_items a xs = Inr ts" "t = 91 # ts @ [93]"
      using "1.prems"(1) lv by (elim disjE) (auto simp: bind_r_Inr_iff)
    have w: "list_all well_keyed xs" "a \<longrightarrow> list_all scalar_text xs" using "1.prems"(2,3) lv by auto
    show ?thesis
    proof (cases "xs = []")
      case True
      then show ?thesis using ts empty by (simp add: scan_value.simps[of "91 # _"])
    next
      case False
      have "scan_items (ts @ 93 # r) = Inr (map json_norm xs, r)"
        using lv "1.IH"(1)[of xs ts r] "1.IH"(2)[of xs ts r] ts(1) w False by blast
      from scan_list[OF dump_items_starts[OF ts(1) False] this] show ?thesis by (simp add: ts(2))
    qed
  qed
  show ?case
  proof (cases v)
    case (VDict d)
    obtain ts where ts: "dump_pairs a d = Inr ts" "t = 123 # ts @ [125]"
      using "1.prems"(1) VDict by (auto simp: bind_r_Inr_iff)
    show ?thesis
    proof (cases "d = []")
      case True
      then show ?thesis using ts VDict empty by (simp add: scan_value.simps[of "123 # _"])
    next
      case False
      have "scan_members [] (ts @ 125 # r) = Inr (map (\<lambda>(k, v). (k, json_norm v)) d, r)"
        using "1.IH"(3)[OF VDict ts(1), of "[]" r] "1.prems"(2,3) VDict False by simp
      from scan_dict[OF dump_pairs_starts[OF ts(1) False] this] show ?thesis by (simp add: ts(2) VDict)
    qed
  next
    case (VStr s)
    then show ?thesis
      using "1.prems" by (auto simp: json_string_scan(2) scan_value.simps[of "34 # _"] scan_json_string)
  next
    case (VBool b)
    then show ?thesis using "1.prems"(1) by (cases b) (auto simp: scan_words_value)
  qed (use "1.prems" lst in \<open>auto simp: scan_words_value scan_int_text scan_json_float simp del: json_norm.simps(4)\<close>)
next
  case (2 a)
  then show ?case by simp
next
  case (3 a x xs)
  obtain u us where u: "json_dumps a x = Inr u" "dump_items a xs = Inr us" "t = (if xs = [] then u else u @ 44 # us)"
    using "3.prems"(1) by (auto simp: bind_r_Inr_iff)
  have x: "scan_value (u @ q) = Inr (json_norm x, q)" if "ends q" for q
    using "3.IH"(1)[OF u(1)] "3.prems"(2,3) that by simp
  show ?case
  proof (cases "xs = []")
    case True
    then show ?thesis
      using x[of "93 # r"] u(3) by (simp add: scan_items.simps[of "u @ 93 # r"] ends_def skip_ws_delim)
  next
    case False
    have rest: "scan_items (us @ 93 # r) = Inr (map json_norm xs, r)"
      using "3.IH"(2)[OF u(1,2)] "3.prems"(2,3) False by simp
    have "skip_ws (us @ 93 # r) = us @ 93 # r" using dump_items_starts[OF u(2) False] by (rule skip_ws_starts)
    then show ?thesis
      using x[of "44 # us @ 93 # r"] u(3) False rest
      by (simp add: scan_items.simps[of "u @ 44 # us @ 93 # r"] ends_def skip_ws_delim)
  qed
next
  case (4 a)
  then show ?case by simp
next
  case (5 a k v d)
  obtain u us where u: "json_dumps a v = Inr u" "dump_pairs a d = Inr us"
    "t = json_string a k @ 58 # (if d = [] then u else u @ 44 # us)"
    using "5.prems"(1) by (auto simp: bind_r_Inr_iff)
  have v: "scan_value (u @ q) = Inr (json_norm v, q)" if "ends q" for q
    using "5.IH"(1)[OF u(1)] "5.prems"(2,3) that by simp
  have sk: "skip_ws (u @ q) = u @ q" for q using json_dumps_starts[OF u(1)] by (rule skip_ws_starts)
  have new: "dict_set acc k (json_norm v) = acc @ [(k, json_norm v)]"
    using "5.prems"(4) by (intro dict_set_new) (auto simp: dict_ok_def)
  have k: "scan_string (concat (map (escape_char a) k) @ 34 # q) = Inr (k, q)" for q
    using "5.prems"(2) by (intro scan_json_string) simp
  show ?case
  proof (cases "d = []")
    case True
    then show ?thesis
      using v[of "125 # r"] u(3) new
      by (simp add: k json_string_scan(2) scan_members.simps[of acc "34 # _"] skip_ws_delim sk ends_def)
  next
    case False
    have "dict_ok ((acc @ [(k, json_norm v)]) @ d)" using "5.prems"(4) by (auto simp: dict_ok_def)
    then have rest: "scan_members (acc @ [(k, json_norm v)]) (us @ 125 # r) =
        Inr ((acc @ [(k, json_norm v)]) @ map (\<lambda>(k, v). (k, json_norm v)) d, r)"
      using "5.IH"(2)[OF u(1,2)] "5.prems"(2,3) False by simp
    have "skip_ws (us @ 125 # r) = us @ 125 # r" using dump_pairs_starts[OF u(2) False] by (rule skip_ws_starts)
    then show ?thesis
      using v[of "44 # us @ 125 # r"] u(3) False rest new
      by (simp add: k json_string_scan(2) scan_members.simps[of acc "34 # _"] skip_ws_delim sk ends_def)
  qed
qed

text \<open>With \<open>ensure_ascii\<close> it is ASCII.\<close>

lemma json_string_ascii: "list_all (\<lambda>c. c < 128) (json_string True s)"
proof -
  have "hex_digit n < 128" if "n < 16" for n using that by (simp add: hex_digit_def)
  then have "list_all (\<lambda>c. c < 128) (hex4 n)" for n by (simp add: hex4_def)
  then have "list_all (\<lambda>c. c < 128) (escape_char True c)" for c by (simp add: escape_char_def Let_def)
  then have "list_all (\<lambda>c. c < 128) (concat (map (escape_char True) s))" by (induction s) simp_all
  then show ?thesis by (simp add: json_string_def)
qed

lemma json_dumps_ascii:
  "json_dumps a v = Inr t \<Longrightarrow> a \<Longrightarrow> list_all (\<lambda>c. c < 128) t"
  "dump_items a xs = Inr t \<Longrightarrow> a \<Longrightarrow> list_all (\<lambda>c. c < 128) t"
  "dump_pairs a d = Inr t \<Longrightarrow> a \<Longrightarrow> list_all (\<lambda>c. c < 128) t"
proof (induction a v and a xs and a d arbitrary: t and t and t rule: json_dumps_dump_items_dump_pairs.induct)
  case (1 a v)
  then show ?case
    by (cases v)
      (auto simp: bind_r_Inr_iff S_def int_text_def Let_def dec_digits_ascii json_float_ascii json_string_ascii split: if_splits)
qed (auto simp: bind_r_Inr_iff json_string_ascii)

text \<open>A text that is written is read as the value, with its tuples as lists.\<close>

lemma json_loads_written:
  assumes "json_dumps a v = Inr t" "a \<longrightarrow> scalar_text v" "well_keyed v"
  shows "json_loads t = Inr (json_norm v)"
proof -
  have s: "starts t" using json_dumps_starts[OF assms(1)] .
  have "scan_value (t @ []) = Inr (json_norm v, [])"
    using json_round(1)[OF assms, of "[]"] by (simp add: ends_def)
  moreover have "skip_ws t = t" using skip_ws_starts[OF s, of "[]"] by simp
  moreover have "take 1 t \<noteq> [0xFEFF]" using s by (cases t) (auto simp: starts_def)
  ultimately show ?thesis by (simp add: json_loads_def skip_ws_def)
qed

lemma json_loads_dumps: "json_dumps False v = Inr t \<Longrightarrow> well_keyed v \<Longrightarrow> json_loads t = Inr (json_norm v)"
  using json_loads_written[of False v t] by simp

end
