(* ===== verification/Envelope.thy ===== *)
theory Envelope
  imports Json Errors
begin

text \<open>
  \<^verbatim>\<open>src/src/nuropb_rmq/patterns/envelope.py\<close>: JSON-RPC 2.0 bodies over the JSON of \<^verbatim>\<open>Json\<close>. The
  values of a body are the dynamically typed values of the prelude.
\<close>

definition dumps_utf8 :: "pydict \<Rightarrow> bytes res" where
  "dumps_utf8 d = bind_r (json_dumps False (VDict d)) utf8_encode"

definition encode_request :: "pystr \<Rightarrow> pyval \<Rightarrow> pystr \<Rightarrow> bytes res" where
  "encode_request method params request_id =
     dumps_utf8 [(S ''jsonrpc'', VStr (S ''2.0'')), (S ''method'', VStr method), (S ''params'', params),
       (S ''id'', VStr request_id)]"

definition encode_result :: "pyval \<Rightarrow> pystr \<Rightarrow> bytes res" where
  "encode_result result request_id =
     dumps_utf8 [(S ''jsonrpc'', VStr (S ''2.0'')), (S ''result'', result), (S ''id'', VStr request_id)]"

fun str_or_none :: "pystr option \<Rightarrow> pyval" where
  "str_or_none None = VNone"
| "str_or_none (Some s) = VStr s"

definition encode_error :: "int \<Rightarrow> pystr \<Rightarrow> pystr option \<Rightarrow> pydict option \<Rightarrow> bytes res" where
  "encode_error code message request_id data =
     (let err = [(S ''code'', VInt code), (S ''message'', VStr message)];
          err' = (case allowlist_error_data data of
                    Some cleaned \<Rightarrow> if cleaned = [] then err else err @ [(S ''data'', VDict cleaned)]
                  | None \<Rightarrow> err) in
      dumps_utf8 [(S ''jsonrpc'', VStr (S ''2.0'')), (S ''error'', VDict err'), (S ''id'', str_or_none request_id)])"

definition invalid_envelope :: "string \<Rightarrow> pystr option \<Rightarrow> py_exc" where
  "invalid_envelope message rid =
     RpcError INVALID_ENVELOPE (S message) (make_error_data INVALID_ENVELOPE False None None) rid"

text \<open>\<open>except (UnicodeDecodeError, json.JSONDecodeError)\<close>.\<close>

fun undecodable :: "py_exc \<Rightarrow> bool" where
  "undecodable (UnicodeError _) = True"
| "undecodable (JsonDecodeError _) = True"
| "undecodable _ = False"

definition decode_message :: "bytes \<Rightarrow> pydict res" where
  "decode_message body =
     (case bind_r (utf8_decode body) json_loads of
        Inl e \<Rightarrow> Inl (if undecodable e then invalid_envelope ''invalid JSON-RPC body'' None else e)
      | Inr (VDict msg) \<Rightarrow>
          if dict_get msg (S ''jsonrpc'') = Some (VStr (S ''2.0'')) then Inr msg
          else Inl (invalid_envelope ''jsonrpc version must be 2.0'' None)
      | Inr _ \<Rightarrow> Inl (invalid_envelope ''jsonrpc version must be 2.0'' None))"

definition decode_request :: "bytes \<Rightarrow> (pystr \<times> pyval \<times> pystr) res" where
  "decode_request body =
     bind_r (decode_message body) (\<lambda>msg.
       case (dict_get msg (S ''method''), dict_get msg (S ''id'')) of
         (Some (VStr method), Some (VStr request_id)) \<Rightarrow>
           Inr (method, dict_get_or msg (S ''params'') VNone, request_id)
       | _ \<Rightarrow> Inl (invalid_envelope ''request requires string method and id'' None))"

definition encode_notification :: "pystr \<Rightarrow> pyval \<Rightarrow> bytes res" where
  "encode_notification method params =
     dumps_utf8 ([(S ''jsonrpc'', VStr (S ''2.0'')), (S ''method'', VStr method)]
       @ (if params = VNone then [] else [(S ''params'', params)]))"

definition decode_notification :: "bytes \<Rightarrow> (pystr \<times> pyval) res" where
  "decode_notification body =
     bind_r (decode_message body) (\<lambda>msg.
       if dict_has msg (S ''result'') \<or> dict_has msg (S ''error'')
       then Inl (invalid_envelope ''notification must not be a response'' None)
       else if dict_has msg (S ''id'') then Inl (invalid_envelope ''notification must not include id'' None)
       else case dict_get msg (S ''method'') of
         Some (VStr method) \<Rightarrow> Inr (method, dict_get_or msg (S ''params'') VNone)
       | _ \<Rightarrow> Inl (invalid_envelope ''notification requires string method'' None))"

text \<open>\<open>str(v)\<close> of a value that was read; those of lists and dicts are outside of the model.\<close>

fun py_str :: "pyval \<Rightarrow> pystr res" where
  "py_str (VStr s) = Inr s"
| "py_str (VInt i) = int_text i"
| "py_str VNone = Inr (S ''None'')"
| "py_str (VBool b) = Inr (if b then S ''True'' else S ''False'')"
| "py_str (VFloat w) = Inr (float_text w)"
| "py_str _ = Inl (Unmodelled ''str() of a list or dict'')"

fun dict_of :: "pyval \<Rightarrow> pydict option" where
  "dict_of (VDict d) = Some d"
| "dict_of _ = None"

fun str_only :: "pyval \<Rightarrow> pystr option" where
  "str_only (VStr s) = Some s"
| "str_only _ = None"

definition decode_response :: "bytes \<Rightarrow> pyval res" where
  "decode_response body =
     bind_r (decode_message body) (\<lambda>msg.
       let rid = str_only (dict_get_or msg (S ''id'') VNone) in
       case dict_get msg (S ''result'') of
         Some result \<Rightarrow> Inr result
       | None \<Rightarrow>
           (case dict_get msg (S ''error'') of
              Some (VDict err) \<Rightarrow>
                bind_r (py_int (dict_get_or err (S ''code'') (VInt SERVER_ERROR))) (\<lambda>code.
                bind_r (py_str (dict_get_or err (S ''message'') (VStr (S ''error'')))) (\<lambda>message.
                  Inl (RpcError code message
                    (allowlist_error_data (dict_of (dict_get_or err (S ''data'') VNone))) rid)))
            | _ \<Rightarrow> Inl (invalid_envelope ''response missing result/error'' rid)))"

section \<open>Round trips\<close>

lemma decode_dumps:
  assumes "dumps_utf8 d = Inr b" "well_keyed (VDict d)" "dict_get d (S ''jsonrpc'') = Some (VStr (S ''2.0''))"
  shows "decode_message b = Inr (map (\<lambda>(k, v). (k, json_norm v)) d)"
proof -
  obtain t where t: "json_dumps False (VDict d) = Inr t" "utf8_encode t = Inr b"
    using assms(1) by (auto simp: dumps_utf8_def bind_r_Inr_iff)
  have "dict_get (map (\<lambda>(k, v). (k, json_norm v)) d) (S ''jsonrpc'') = Some (VStr (S ''2.0''))"
    using assms(3) by (induction d) (auto split: if_splits)
  then show ?thesis
    using json_loads_dumps[OF t(1) assms(2)] utf8_round[OF t(2)] by (simp add: decode_message_def)
qed

lemma allowlisted_keyed:
  "well_keyed (VDict d) \<Longrightarrow> allowlist_error_data (Some d) = Some c \<Longrightarrow> well_keyed (VDict c)"
  by (auto simp: allowlist_error_data_def dict_ok_def list_all_iff distinct_map_filter)

text \<open>No body is empty.\<close>

lemma dumps_utf8_not_empty: "dumps_utf8 d = Inr b \<Longrightarrow> b \<noteq> []"
proof
  assume d: "dumps_utf8 d = Inr b" and b: "b = []"
  obtain t where t: "json_dumps False (VDict d) = Inr t" "utf8_encode t = Inr b"
    using d by (auto simp: dumps_utf8_def bind_r_Inr_iff)
  have "t = []" using utf8_round[OF t(2)] by (simp add: b utf8_empty)
  then show False using t(1) by (auto simp: bind_r_Inr_iff)
qed

lemma request_body_not_empty: "encode_request m params rid = Inr b \<Longrightarrow> b \<noteq> []"
  unfolding encode_request_def by (rule dumps_utf8_not_empty)

lemma response_bodies_not_empty:
  "encode_result v rid = Inr b \<Longrightarrow> b \<noteq> []" "encode_error code t i d = Inr b \<Longrightarrow> b \<noteq> []"
  by (auto simp: encode_result_def encode_error_def Let_def dest!: dumps_utf8_not_empty)

lemma decode_request_encode:
  assumes "well_keyed v" "encode_request m v rid = Inr b"
  shows "decode_request b = Inr (m, json_norm v, rid)"
  using decode_dumps[OF assms(2)[unfolded encode_request_def]] assms(1)
  by (simp add: decode_request_def dict_ok_def dict_get_or_def)

lemma decode_response_result:
  assumes "well_keyed v" "encode_result v rid = Inr b"
  shows "decode_response b = Inr (json_norm v)"
  using decode_dumps[OF assms(2)[unfolded encode_result_def]] assms(1)
  by (simp add: decode_response_def dict_ok_def dict_get_or_def Let_def)

lemma decode_notification_encode:
  assumes "well_keyed v" "encode_notification m v = Inr b"
  shows "decode_notification b = Inr (m, json_norm v)" "\<exists>e. decode_request b = Inl e"
proof -
  have d: "decode_message b = Inr (map (\<lambda>(k, v). (k, json_norm v))
      ([(S ''jsonrpc'', VStr (S ''2.0'')), (S ''method'', VStr m)] @ (if v = VNone then [] else [(S ''params'', v)])))"
    using assms unfolding encode_notification_def by (intro decode_dumps) (auto simp: dict_ok_def)
  then show "decode_notification b = Inr (m, json_norm v)" "\<exists>e. decode_request b = Inl e"
    by (simp_all add: decode_notification_def decode_request_def dict_has_def dict_get_or_def)
qed

text \<open>The error data a response carries: the allowlisted entries, and none when there is none.\<close>

definition carried_data :: "pydict option \<Rightarrow> pydict option" where
  "carried_data data =
     (case data of None \<Rightarrow> None
      | Some d \<Rightarrow> let c = filter (\<lambda>(k, v). k \<in> set allowed_data_keys) d in
          if c = [] then None else Some (map (\<lambda>(k, v). (k, json_norm v)) c))"

lemma decode_response_error:
  assumes "encode_error code message rid data = Inr b" "\<forall>d. data = Some d \<longrightarrow> well_keyed (VDict d)"
  shows "decode_response b = Inl (RpcError code message (carried_data data) rid)"
proof -
  define c where "c = (case data of None \<Rightarrow> [] | Some d \<Rightarrow> filter (\<lambda>(k, v). k \<in> set allowed_data_keys) d)"
  define err where "err = [(S ''code'', VInt code), (S ''message'', VStr message)] @
    (if c = [] then [] else [(S ''data'', VDict c)])"
  have b: "dumps_utf8 [(S ''jsonrpc'', VStr (S ''2.0'')), (S ''error'', VDict err), (S ''id'', str_or_none rid)] = Inr b"
    using assms(1) by (auto simp: encode_error_def allowlist_error_data_def err_def c_def Let_def split: option.splits if_splits)
  have c: "well_keyed (VDict c)"
  proof (cases data)
    case (Some d)
    then show ?thesis using allowlisted_keyed[of d c] assms(2) by (simp add: c_def allowlist_error_data_def del: well_keyed.simps)
  qed (simp add: c_def)
  then have k: "well_keyed (VDict [(S ''jsonrpc'', VStr (S ''2.0'')), (S ''error'', VDict err), (S ''id'', str_or_none rid)])"
    by (cases rid) (simp_all add: err_def dict_ok_def)
  have "filter (\<lambda>(k, v). k \<in> set allowed_data_keys) (map (\<lambda>(k, v). (k, json_norm v)) c) = map (\<lambda>(k, v). (k, json_norm v)) c"
    by (auto simp: c_def filter_id_conv split: option.splits)
  with decode_dumps[OF b k] show ?thesis
    by (cases rid) (auto simp: carried_data_def decode_response_def dict_get_or_def err_def allowlist_error_data_def Let_def c_def
        split: option.split if_splits)
qed

text \<open>
  C31. Envelopes round-trip. A request is decoded to its method, id and params, a notification to its
  method and params (and is not taken for a request), and a response to its result, for all
  params and results JSON can carry, with tuples as lists.\<close>

theorem envelope_roundtrip:
  assumes "well_keyed v"
  shows "(encode_request m v rid = Inr b \<longrightarrow> decode_request b = Inr (m, json_norm v, rid)) \<and>
    (encode_result v rid = Inr b \<longrightarrow> decode_response b = Inr (json_norm v)) \<and>
    (encode_notification m v = Inr b \<longrightarrow> decode_notification b = Inr (m, json_norm v) \<and>
       (\<exists>e. decode_request b = Inl e))"
  using assms decode_request_encode decode_response_result decode_notification_encode by blast

text \<open>
  An error response is decoded to the error: code, message and id are those that were encoded,
  and of the data exactly the allowlisted entries travel, whatever else the server put there.\<close>

theorem error_roundtrip:
  assumes "encode_error code message rid data = Inr b" "\<forall>d. data = Some d \<longrightarrow> well_keyed (VDict d)"
  shows "decode_response b = Inl (RpcError code message
    (case data of None \<Rightarrow> None
     | Some d \<Rightarrow> let c = filter (\<lambda>(k, v). k \<in> set allowed_data_keys) d in
         if c = [] then None else Some (map (\<lambda>(k, v). (k, json_norm v)) c)) rid)"
  using decode_response_error[OF assms] by (simp add: carried_data_def)

text \<open>A body made of the expected parts, and one whose error code is null.\<close>

lemma sample_json:
  "\<exists>b. encode_request [109] (VTuple [VInt 7, VNone]) [105] = Inr b"
  "\<exists>b. encode_error (- 33300) [] None (Some [(S ''secret'', VInt 1), (S ''retryable'', VBool True)]) = Inr b"
  by (simp_all add: encode_request_def encode_error_def dumps_utf8_def json_string_def escape_char_def int_text_def Let_def
      dec_digits.simps MAX_STR_DIGITS_def allowlist_error_data_def allowed_data_keys_def S_def utf8_ascii)

theorem envelope_roundtrip_witness:
  "\<exists>b. encode_request [109] (VTuple [VInt 7, VNone]) [105] = Inr b \<and>
     decode_request b = Inr ([109], VList [VInt 7, VNone], [105])"
  using envelope_roundtrip[of "VTuple [VInt 7, VNone]" "[109]" "[105]"] sample_json(1) by fastforce

theorem error_roundtrip_witness:
  "\<exists>b. encode_error (- 33300) [] None (Some [(S ''secret'', VInt 1), (S ''retryable'', VBool True)]) = Inr b \<and>
     decode_response b = Inl (RpcError (- 33300) [] (Some [(S ''retryable'', VBool True)]) None)"
proof -
  obtain b where b: "encode_error (- 33300) [] None (Some [(S ''secret'', VInt 1), (S ''retryable'', VBool True)]) = Inr b"
    using sample_json(2) by blast
  with error_roundtrip[OF b] show ?thesis by (simp add: dict_ok_def allowed_data_keys_def)
qed

lemma null_code_raises_TypeError:
  assumes "dumps_utf8 [(S ''jsonrpc'', VStr (S ''2.0'')), (S ''error'', VDict [(S ''code'', VNone)]), (S ''id'', VNone)] = Inr b"
  shows "\<exists>m. decode_response b = Inl (TypeError m)"
  using decode_dumps[OF assms] by (simp add: dict_ok_def decode_response_def dict_get_or_def Let_def)

end
