(* ===== verification/Registry.thy ===== *)
theory Registry
  imports Consumer Envelope "HOL-Library.List_Lexorder"
begin

text \<open>
  \<^verbatim>\<open>src/src/nuropb_rmq/patterns/registry.py\<close>: service advertisements, the in-memory store of a
  viewer and what the viewer does with a message. Times are Python floats, the clock's included.
\<close>

section \<open>Advertisements\<close>

record advert =
  a_service :: pystr
  a_methods :: "pystr list"
  a_instance :: pystr
  a_queue :: pystr
  a_exchange :: pystr
  a_published :: pyfloat
  a_ttl :: pyfloat

definition expires_at :: "advert \<Rightarrow> pyfloat" where
  "expires_at a = float_add (a_published a) (a_ttl a)"

definition is_expired :: "pyfloat \<Rightarrow> advert \<Rightarrow> bool" where
  "is_expired now a \<longleftrightarrow> float_le (expires_at a) now"

definition advert_data :: "advert \<Rightarrow> pydict" where
  "advert_data a =
     [(S ''service'', VStr (a_service a)), (S ''methods'', VList (map VStr (a_methods a))),
      (S ''instance_id'', VStr (a_instance a)), (S ''queue'', VStr (a_queue a)), (S ''exchange'', VStr (a_exchange a)),
      (S ''published_at'', VFloat (a_published a)), (S ''ttl_s'', VFloat (a_ttl a))]"

definition to_wire :: "advert \<Rightarrow> bytes res" where
  "to_wire a = bind_r (json_dumps True (VDict (advert_data a))) utf8_encode"

text \<open>\<open>float(v)\<close> of a value read from JSON.\<close>

fun py_float :: "pyval \<Rightarrow> pyfloat res" where
  "py_float (VInt i) = float_of_int i"
| "py_float (VBool b) = float_of_int (if b then 1 else 0)"
| "py_float (VFloat w) = Inr w"
| "py_float (VStr _) = Inl (Unmodelled ''float() of a str'')"
| "py_float _ = Inl (TypeError ''float() argument must be a string or a real number'')"

fun str_items :: "pyval list \<Rightarrow> pystr list option" where
  "str_items [] = Some []"
| "str_items (VStr s # vs) = map_option ((#) s) (str_items vs)"
| "str_items (_ # vs) = None"

definition advert_methods :: "pyval \<Rightarrow> pystr list res" where
  "advert_methods v =
     (let e = ValueError ''registry advertisement methods must be a list of strings'' in
      if \<not> truthy v then Inr []
      else case v of
        VList vs \<Rightarrow> (case str_items vs of Some ms \<Rightarrow> Inr ms | None \<Rightarrow> Inl e)
      | _ \<Rightarrow> Inl e)"

definition from_wire :: "bytes \<Rightarrow> advert res" where
  "from_wire body =
     bind_r (bind_r (utf8_decode body) json_loads) (\<lambda>v.
       case v of
         VDict data \<Rightarrow>
           bind_r (advert_methods (dict_get_or data (S ''methods'') VNone)) (\<lambda>methods.
           bind_r (bind_r (dict_item data (S ''service'')) py_str) (\<lambda>service.
           bind_r (bind_r (dict_item data (S ''instance_id'')) py_str) (\<lambda>instance_id.
           bind_r (bind_r (dict_item data (S ''queue'')) py_str) (\<lambda>queue.
           bind_r (bind_r (dict_item data (S ''exchange'')) py_str) (\<lambda>exchange.
           bind_r (bind_r (dict_item data (S ''published_at'')) py_float) (\<lambda>published_at.
           bind_r (bind_r (dict_item data (S ''ttl_s'')) py_float) (\<lambda>ttl_s.
             Inr \<lparr>a_service = service, a_methods = methods, a_instance = instance_id, a_queue = queue,
               a_exchange = exchange, a_published = published_at, a_ttl = ttl_s\<rparr>)))))))
       | _ \<Rightarrow> Inl (AttributeError ''object has no attribute get''))"

section \<open>The store\<close>

type_synonym store = "(pystr \<times> advert) list"

definition store_put :: "advert \<Rightarrow> store \<Rightarrow> store" where
  "store_put a st = dict_set st (a_service a) a"

definition store_prune :: "pyfloat \<Rightarrow> store \<Rightarrow> store" where
  "store_prune now st = filter (\<lambda>(_, a). \<not> is_expired now a) st"

definition store_lookup :: "pystr \<Rightarrow> pyfloat \<Rightarrow> store \<Rightarrow> advert option \<times> store" where
  "store_lookup service now st = (let st' = store_prune now st in (dict_get st' service, st'))"

definition list_services :: "pyfloat \<Rightarrow> store \<Rightarrow> advert list \<times> store" where
  "list_services now st = (let st' = store_prune now st in (sort_key a_service (map snd st'), st'))"

section \<open>Announcing and viewing\<close>

definition DEFAULT_REGISTRY_EXCHANGE :: pystr where
  "DEFAULT_REGISTRY_EXCHANGE = S ''nr.mesh.registry''"

definition DEFAULT_ADVERTISE_TTL_S :: pyfloat where
  "DEFAULT_ADVERTISE_TTL_S = 0x404E000000000000"

definition declare_registry_begin :: "int \<Rightarrow> pystr \<Rightarrow> nat cop" where
  "declare_registry_begin ch exchange = exchange_declare_begin ch exchange (S ''fanout'') True False"

definition announce_props :: pydict where
  "announce_props = [(S ''content_type'', VStr (S ''application/json'')), (S ''headers'', VDict [(S ''nr.registry'', VInt 1)])]"

text \<open>After the exchange is declared: the publish, up to its await.\<close>

definition announce_publish :: "int \<Rightarrow> pystr \<Rightarrow> advert \<Rightarrow> conn \<Rightarrow> ((int \<times> nat) option res \<times> conn) option" where
  "announce_publish ch exchange a c =
     (case to_wire a of
        Inl e \<Rightarrow> Some (Inl e, c)
      | Inr wire \<Rightarrow>
          (case publish_check ch None (Some announce_props) c of
             (Inl e, c') \<Rightarrow> Some (Inl e, c')
           | (Inr props, c') \<Rightarrow> publish_begin ch wire exchange [] False props
               (publish_wants None None (dict_get (c_confirm c') ch)) True c'))"

text \<open>\<open>value or default\<close> of an optional string.\<close>

fun str_or :: "pystr option \<Rightarrow> pystr \<Rightarrow> pystr" where
  "str_or (Some s) d = (if s \<noteq> [] then s else d)"
| "str_or None d = d"

definition make_advertisement ::
  "pyfloat \<Rightarrow> pystr \<Rightarrow> pystr list \<Rightarrow> pystr \<Rightarrow> pystr \<Rightarrow> pystr option \<Rightarrow> pystr \<Rightarrow> pyfloat \<Rightarrow> advert" where
  "make_advertisement ttl service methods queue exchange instance_id uuid now =
     \<lparr>a_service = service, a_methods = methods, a_instance = str_or instance_id uuid, a_queue = queue,
      a_exchange = exchange, a_published = now, a_ttl = ttl\<rparr>"

text \<open>The standalone announcer.\<close>

record announcer =
  an_exchange :: pystr
  an_channel :: int
  an_ttl :: pyfloat
  an_started :: bool

definition announcer_init :: "pystr \<Rightarrow> int \<Rightarrow> pyfloat \<Rightarrow> announcer" where
  "announcer_init exchange channel_id ttl =
     \<lparr>an_exchange = exchange, an_channel = channel_id, an_ttl = ttl, an_started = False\<rparr>"

definition announcer_start_begin :: "announcer \<Rightarrow> nat cop" where
  "announcer_start_begin a = declare_registry_begin (an_channel a) (an_exchange a)"

definition announcer_started :: "announcer \<Rightarrow> announcer" where
  "announcer_started a = a\<lparr>an_started := True\<rparr>"

definition announcer_close_begin :: "announcer \<Rightarrow> conn \<Rightarrow> nat option res \<times> announcer \<times> conn" where
  "announcer_close_begin a c = (case close_begin c of (r, c') \<Rightarrow> (r, a\<lparr>an_started := False\<rparr>, c'))"

definition registry_publish_begin :: "announcer \<Rightarrow> nat cop" where
  "registry_publish_begin a =
     (if \<not> an_started a then raise_s (RuntimeError ''registry publisher not started'')
      else declare_registry_begin (an_channel a) (an_exchange a))"

text \<open>The viewer declares the exchange, an exclusive queue, binds it and consumes, one after the other.\<close>

definition viewer_queue_begin :: "int \<Rightarrow> nat cop" where
  "viewer_queue_begin ch = queue_declare_begin ch [] False True True []"

definition viewer_bind_begin :: "int \<Rightarrow> pystr \<Rightarrow> pystr \<Rightarrow> nat cop" where
  "viewer_bind_begin ch queue exchange = queue_bind_begin ch queue exchange []"

definition viewer_consume_begin :: "int \<Rightarrow> pystr \<Rightarrow> nat cop" where
  "viewer_consume_begin ch queue = basic_consume_begin ch queue []"

text \<open>\<open>except (ValueError, KeyError, TypeError, json.JSONDecodeError)\<close>.\<close>

fun viewer_ignores :: "py_exc \<Rightarrow> bool" where
  "viewer_ignores (ValueError _) = True"
| "viewer_ignores (UnicodeError _) = True"
| "viewer_ignores (JsonDecodeError _) = True"
| "viewer_ignores (KeyError _) = True"
| "viewer_ignores (TypeError _) = True"
| "viewer_ignores _ = False"

text \<open>
  A message: the store after it, and what \<open>_handle\<close> raises once it has acknowledged it (the
  \<open>finally\<close>); an exception ends the viewer's task.
\<close>

definition viewer_store :: "pyfloat \<Rightarrow> bytes \<Rightarrow> store \<Rightarrow> unit res \<times> store" where
  "viewer_store now body st =
     (case from_wire body of
        Inr a \<Rightarrow> (Inr (), if is_expired now a then st else store_put a st)
      | Inl e \<Rightarrow> (if viewer_ignores e then Inr () else Inl e, st))"

definition viewer_handle :: "int \<Rightarrow> pyfloat \<Rightarrow> incoming \<Rightarrow> store \<Rightarrow> conn \<Rightarrow> unit res \<times> store \<times> conn" where
  "viewer_handle ch now msg st c =
     (case viewer_store now (i_body msg) st of
        (r, st') \<Rightarrow>
          (case basic_ack ch (i_tag msg) True c of
             (Inl e, c') \<Rightarrow> (Inl e, st', c')
           | (Inr _, c') \<Rightarrow> (r, st', c')))"

text \<open>The viewer's task reads the clock when it handles a message; its state is the store and the connection.\<close>

record viewer =
  vw_exchange :: pystr
  vw_channel :: int
  vw_queue :: "pystr option"
  vw_life :: consumer

definition viewer_init :: "pystr \<Rightarrow> int \<Rightarrow> viewer" where
  "viewer_init exchange channel_id =
     \<lparr>vw_exchange = exchange, vw_channel = channel_id, vw_queue = None, vw_life = consumer_init\<rparr>"

definition viewer_started :: "pystr \<Rightarrow> viewer \<Rightarrow> viewer" where
  "viewer_started queue v = v\<lparr>vw_queue := Some queue, vw_life := consumer_started (vw_life v)\<rparr>"

definition viewer_loop ::
  "(incoming \<Rightarrow> pyfloat) \<Rightarrow> viewer \<Rightarrow> (store \<times> conn \<Rightarrow> incoming res \<times> store \<times> conn) list \<Rightarrow> store \<times> conn \<Rightarrow>
     (unit res \<times> store \<times> conn) option" where
  "viewer_loop clock v = consume (\<lambda>msg (st, c). Some (viewer_handle (vw_channel v) (clock msg) msg st c)) (cn_running (vw_life v))"

definition viewer_close_begin :: "viewer \<Rightarrow> conn \<Rightarrow> nat option res \<times> viewer \<times> conn" where
  "viewer_close_begin v c =
     (case consumer_close_begin True (vw_life v) c of (r, l, c') \<Rightarrow> (r, v\<lparr>vw_life := l\<rparr>, c'))"

interpretation viewer_consumer: message_consumer "\<lambda>msg (st, c). Some (viewer_handle ch (clock msg) msg st c)" snd ch for ch clock
proof
  fix msg and s s' :: "store \<times> conn"
  assume "(case s of (st, c) \<Rightarrow> Some (viewer_handle ch (clock msg) msg st c)) = Some (Inr (), s')"
  then have "basic_ack ch (i_tag msg) True (snd s) = (Inr (), snd s')"
    by (auto simp: viewer_handle_def split: prod.splits sum.splits)
  then show "\<exists>out. writes (snd s) out (snd s') \<and> whole (c_frame_max (snd s)) out \<and> settlements (c_frame_max (snd s)) ch out = [i_tag msg]"
    using settled_writes(1) settlement_read(1) by blast
qed

section \<open>The store against its specification\<close>

datatype store_op = Put advert | Lookup pystr pyfloat | ListAll pyfloat

fun store_step :: "store_op \<Rightarrow> store \<Rightarrow> store" where
  "store_step (Put a) st = store_put a st"
| "store_step (Lookup s now) st = snd (store_lookup s now st)"
| "store_step (ListAll now) st = snd (list_services now st)"

text \<open>The specification: the last advertisement of a service, whatever was looked up in between.\<close>

fun latest :: "store_op list \<Rightarrow> pystr \<Rightarrow> advert option" where
  "latest [] s = None"
| "latest (Put a # ops) s = (case latest ops s of Some b \<Rightarrow> Some b | None \<Rightarrow> if a_service a = s then Some a else None)"
| "latest (_ # ops) s = latest ops s"

fun op_time :: "store_op \<Rightarrow> pyfloat option" where
  "op_time (Put a) = None"
| "op_time (Lookup s t) = Some t"
| "op_time (ListAll t) = Some t"

definition store_tracks :: "store \<Rightarrow> (pystr \<Rightarrow> advert option) \<Rightarrow> pyfloat \<Rightarrow> bool" where
  "store_tracks st f now \<longleftrightarrow> dict_ok st \<and>
     (\<forall>k a. f k = Some a \<longrightarrow> \<not> is_expired now a \<longrightarrow> dict_get st k = Some a) \<and>
     (\<forall>k a. dict_get st k = Some a \<longrightarrow> f k = Some a)"

lemma dict_get_filter_values:
  "dict_ok d \<Longrightarrow> dict_get (filter (\<lambda>(_, v). P v) d) k = (case dict_get d k of None \<Rightarrow> None | Some v \<Rightarrow> if P v then Some v else None)"
proof (induction d)
  case (Cons x d)
  obtain k' v where x: "x = (k', v)" by (cases x)
  have "k' \<notin> fst ` set d" "dict_ok d" using Cons.prems by (auto simp: dict_ok_def x)
  then have "dict_get d k' = None" by (simp add: dict_get_None_iff)
  then show ?case using Cons.IH[OF \<open>dict_ok d\<close>] by (auto simp: x)
qed simp

lemma expired_stays: "is_expired u a \<Longrightarrow> float_le u t \<Longrightarrow> is_expired t a"
  unfolding is_expired_def by (rule float_le_trans)

lemma store_tracks_mono:
  assumes "store_tracks st f u" "float_le u t"
  shows "store_tracks st f t"
proof -
  have "is_expired u a \<Longrightarrow> is_expired t a" for a using assms(2) expired_stays by blast
  then show ?thesis using assms(1) unfolding store_tracks_def by blast
qed

lemma store_tracks_prune:
  assumes "store_tracks st f now"
  shows "store_tracks (store_prune now st) f now"
    "dict_get (store_prune now st) k = (case f k of None \<Rightarrow> None | Some a \<Rightarrow> if is_expired now a then None else Some a)"
proof -
  have ok: "dict_ok st" and tr: "\<And>k a. f k = Some a \<Longrightarrow> \<not> is_expired now a \<Longrightarrow> dict_get st k = Some a"
    and un: "\<And>k a. dict_get st k = Some a \<Longrightarrow> f k = Some a"
    using assms unfolding store_tracks_def by blast+
  have g: "dict_get (store_prune now st) k =
      (case dict_get st k of None \<Rightarrow> None | Some a \<Rightarrow> if is_expired now a then None else Some a)" for k
    by (simp add: store_prune_def dict_get_filter_values[OF ok, of "\<lambda>a. \<not> is_expired now a"] split: option.split)
  show eq: "dict_get (store_prune now st) k = (case f k of None \<Rightarrow> None | Some a \<Rightarrow> if is_expired now a then None else Some a)" for k
  proof (cases "dict_get st k")
    case None
    then have "is_expired now a" if "f k = Some a" for a using tr[OF that] by auto
    then show ?thesis using None by (simp add: g split: option.split)
  next
    case (Some a)
    then show ?thesis using un[OF Some] by (simp add: g)
  qed
  have "dict_ok (store_prune now st)" using ok by (auto simp: store_prune_def dict_ok_def distinct_map_filter)
  then show "store_tracks (store_prune now st) f now"
    by (auto simp: store_tracks_def eq split: option.splits if_splits)
qed

lemma store_tracks_put:
  assumes "store_tracks st f t"
  shows "store_tracks (store_put a st) (f(a_service a \<mapsto> a)) t"
proof -
  have t: "dict_ok st" "\<And>k b. f k = Some b \<Longrightarrow> \<not> is_expired t b \<Longrightarrow> dict_get st k = Some b"
    "\<And>k b. dict_get st k = Some b \<Longrightarrow> f k = Some b"
    using assms unfolding store_tracks_def by blast+
  show ?thesis
    unfolding store_tracks_def store_put_def dict_get_set fun_upd_apply
  proof (intro conjI allI impI)
    fix k b
    show "(if k = a_service a then Some a else dict_get st k) = Some b"
      if "(if k = a_service a then Some a else f k) = Some b" "\<not> is_expired t b"
      using that t(2)[of k b] by (cases "k = a_service a") simp_all
    show "(if k = a_service a then Some a else f k) = Some b"
      if "(if k = a_service a then Some a else dict_get st k) = Some b"
      using that t(3)[of k b] by (cases "k = a_service a") simp_all
  qed (simp add: t(1))
qed

lemma latest_snoc:
  "latest (ops @ [Put a]) = (latest ops)(a_service a \<mapsto> a)" "latest (ops @ [Lookup s t]) = latest ops"
  "latest (ops @ [ListAll t]) = latest ops"
proof -
  show "latest (ops @ [Put a]) = (latest ops)(a_service a \<mapsto> a)"
  proof
    fix k show "latest (ops @ [Put a]) k = ((latest ops)(a_service a \<mapsto> a)) k"
      by (induction ops k rule: latest.induct) (auto split: option.splits)
  qed
  have l: "latest (ops @ [op]) k = latest ops k" if "op_time op \<noteq> None" for op k
    using that by (induction ops k rule: latest.induct) (cases op; simp)+
  show "latest (ops @ [Lookup s t]) = latest ops" "latest (ops @ [ListAll t]) = latest ops"
    by (rule ext, rule l, simp)+
qed

text \<open>The times of the look-ups, in the order they happen.\<close>

definition times :: "store_op list \<Rightarrow> pyfloat list" where
  "times ops = List.map_filter op_time ops"

lemma times_snoc: "times (ops @ [op]) = times ops @ (case op_time op of None \<Rightarrow> [] | Some t \<Rightarrow> [t])"
  by (simp add: times_def map_filter_def split: option.split)

lemma store_run_tracks:
  "sorted_wrt float_le (times ops) \<Longrightarrow> \<forall>x \<in> set (times ops). float_le x t \<Longrightarrow> store_tracks (fold store_step ops []) (latest ops) t"
proof (induction ops arbitrary: t rule: rev_induct)
  case Nil
  then show ?case by (simp add: store_tracks_def)
next
  case (snoc op ops)
  show ?case
  proof (cases "op_time op")
    case None
    then obtain a where op: "op = Put a" by (cases op) auto
    have "store_tracks (fold store_step ops []) (latest ops) t"
      using snoc by (simp add: times_snoc None)
    then show ?thesis using store_tracks_put[of "fold store_step ops []" "latest ops" t a] by (simp add: op latest_snoc fun_upd_def)
  next
    case (Some u)
    have s: "sorted_wrt float_le (times ops)" "\<forall>x \<in> set (times ops). float_le x u" "float_le u t"
      using snoc.prems by (auto simp: times_snoc Some sorted_wrt_append)
    have "store_tracks (store_prune u (fold store_step ops [])) (latest ops) t"
      by (rule store_tracks_mono[OF store_tracks_prune(1)[OF snoc.IH[OF s(1,2)]] s(3)])
    moreover have "fold store_step (ops @ [op]) [] = store_prune u (fold store_step ops [])"
      using Some by (cases op) (simp_all add: store_lookup_def list_services_def Let_def)
    moreover have "latest (ops @ [op]) = latest ops" using Some by (cases op) (simp_all add: latest_snoc)
    ultimately show ?thesis by simp
  qed
qed

text \<open>
  C22. The registry refines its specification. After any history of advertisements, look-ups and
  listings with times that do not run backwards, looking a service up finds its last
  advertisement if that has not expired and nothing otherwise: pruning never loses a live
  service and an expired one is never found.\<close>

theorem lookup_finds_latest:
  assumes "sorted_wrt float_le (times ops @ [now])"
  shows "fst (store_lookup s now (fold store_step ops [])) =
    (case latest ops s of None \<Rightarrow> None | Some a \<Rightarrow> if is_expired now a then None else Some a)"
proof -
  have "store_tracks (fold store_step ops []) (latest ops) now"
    using assms by (intro store_run_tracks) (simp_all add: sorted_wrt_append)
  from store_tracks_prune(2)[OF this] show ?thesis by (simp add: store_lookup_def Let_def)
qed

definition sample_advert :: "pyfloat \<Rightarrow> advert" where
  "sample_advert t = \<lparr>a_service = S ''pay'', a_methods = [S ''charge''], a_instance = [], a_queue = [], a_exchange = [],
     a_published = t, a_ttl = 0x404E000000000000\<rparr>"

text \<open>Published at 0.0 and 80.0 with a ttl of 60.0, and looked up at 70.0 and 100.0.\<close>

lemma sample_expires:
  "expires_at (sample_advert 0) = 0x404E000000000000" "expires_at (sample_advert 0x4054000000000000) = 0x4061800000000000"
  unfolding expires_at_def
  by (rule float_add_exact; simp add: sample_advert_def is_finite_def signed_units_def float_units_def float_mag_def float_neg_def
      FLOAT_INF_def Let_def)+

theorem lookup_finds_latest_witness:
  "fst (store_lookup (S ''pay'') 0x4059000000000000
     (fold store_step [Put (sample_advert 0), Lookup (S ''pay'') 0x4051800000000000, Put (sample_advert 0x4054000000000000)] [])) =
     Some (sample_advert 0x4054000000000000)"
proof -
  let ?ops = "[Put (sample_advert 0), Lookup (S ''pay'') 0x4051800000000000, Put (sample_advert 0x4054000000000000)]"
  have "sorted_wrt float_le (times ?ops @ [0x4059000000000000])" "\<not> is_expired 0x4059000000000000 (sample_advert 0x4054000000000000)"
    by (simp_all add: times_def map_filter_def is_expired_def sample_expires float_le_def is_nan_def
        float_mag_def float_key_def float_neg_def FLOAT_INF_def)
  moreover have "latest ?ops (S ''pay'') = Some (sample_advert 0x4054000000000000)" by (simp add: sample_advert_def)
  ultimately show ?thesis using lookup_finds_latest[of ?ops "0x4059000000000000" "S ''pay''"] by simp
qed

section \<open>The announcement\<close>

lemma dump_strs: "\<exists>t. dump_items a (map VStr ms) = Inr t"
  by (induction ms) (auto simp: bind_r_Inr_iff)

lemma str_items_strs: "str_items (map VStr ms) = Some ms"
  by (induction ms) simp_all

text \<open>Announcing never fails on the advertisement itself.\<close>

lemma to_wire_total: "\<exists>t b. json_dumps True (VDict (advert_data a)) = Inr t \<and> utf8_encode t = Inr b \<and> to_wire a = Inr b"
proof -
  obtain ms where "dump_items True (map VStr (a_methods a)) = Inr ms" using dump_strs by blast
  then obtain t where t: "json_dumps True (VDict (advert_data a)) = Inr t" by (simp add: advert_data_def)
  from json_dumps_ascii(1)[OF this TrueI] utf8_ascii[of t] t show ?thesis by (simp add: to_wire_def)
qed

lemma advert_data_written: "well_keyed (VDict (advert_data a))"
  by (simp add: advert_data_def dict_ok_def list_all_iff)

text \<open>
  C24. An advertisement is announced and viewed as it was: every advertisement has a wire form, and
  unless a text holds a lone surrogate or a time is no number, reading that form gives the
  advertisement back, its two times to the last bit.\<close>

theorem announcement_roundtrip:
  assumes "list_all (list_all is_scalar) (a_methods a)" "list_all is_scalar (a_service a)" "list_all is_scalar (a_instance a)"
    and "list_all is_scalar (a_queue a)" "list_all is_scalar (a_exchange a)"
    and "\<not> is_nan (a_published a)" "\<not> is_nan (a_ttl a)"
  shows "\<exists>b. to_wire a = Inr b \<and> from_wire b = Inr a"
proof -
  obtain t b where t: "json_dumps True (VDict (advert_data a)) = Inr t" "utf8_encode t = Inr b" "to_wire a = Inr b"
    using to_wire_total by blast
  have "scalar_text (VDict (advert_data a))" "json_norm (VDict (advert_data a)) = VDict (advert_data a)"
    using assms by (simp_all add: advert_data_def list_all_iff S_def is_scalar_def)
  with json_loads_written[OF t(1) _ advert_data_written] have "json_loads t = Inr (VDict (advert_data a))" by simp
  with utf8_round[OF t(2)] have "from_wire b = Inr a"
    by (simp add: from_wire_def advert_data_def dict_get_or_def dict_item_def advert_methods_def str_items_strs Let_def)
  with t(3) show ?thesis by blast
qed

theorem announcement_roundtrip_witness: "\<exists>b. to_wire (sample_advert 0x4054000000000000) = Inr b \<and> from_wire b = Inr (sample_advert 0x4054000000000000)"
  by (rule announcement_roundtrip) (simp_all add: sample_advert_def is_scalar_def S_def is_nan_def float_mag_def FLOAT_INF_def)

text \<open>
  A body that is JSON but no object ends the viewer: \<open>data.get\<close> raises an \<open>AttributeError\<close>, which
  the viewer does not ignore.
\<close>

lemma non_object_ends_viewer:
  assumes "bind_r (utf8_decode body) json_loads = Inr (VList xs)"
  shows "\<exists>m. fst (viewer_store now body st) = Inl (AttributeError m)"
  using assms by (simp add: viewer_store_def from_wire_def)

text \<open>
  A time to live that is no number never runs out: JSON's \<open>NaN\<close> is accepted, no comparison with it
  holds, and the advertisement stays in the store until the service announces itself again.
\<close>

lemma nan_ttl_never_expires:
  assumes "from_wire body = Inr a" "is_nan (a_ttl a)"
  shows "viewer_store now body st = (Inr (), store_put a st)"
    "(a_service a, a) \<in> set (fold store_step (map ListAll ts) (store_put a []))"
proof -
  have "is_nan FLOAT_NAN" by (simp add: is_nan_def FLOAT_NAN_def float_mag_def FLOAT_INF_def)
  then have never: "\<not> is_expired t a" for t
    using assms(2) by (simp add: is_expired_def expires_at_def float_add_def float_le_def)
  then show "viewer_store now body st = (Inr (), store_put a st)" by (simp add: viewer_store_def assms(1))
  have "(a_service a, a) \<in> set (fold store_step (map ListAll ts) st)" if "(a_service a, a) \<in> set st" for st
    using that by (induction ts arbitrary: st) (auto simp: list_services_def store_prune_def never Let_def)
  then show "(a_service a, a) \<in> set (fold store_step (map ListAll ts) (store_put a []))" by (simp add: store_put_def)
qed

end
