(* ===== verification/Mesh.thy ===== *)
theory Mesh
  imports Registry Ids Acl
begin

text \<open>
  \<^verbatim>\<open>src/src/nuropb_rmq/patterns/mesh.py\<close>: service identities, the namespace of routing keys they
  own, and the service that declares its queue and binds its keys. A service identity is its name;
  the connection of a service is a value next to it.
\<close>

section \<open>Identities and namespaces\<close>

definition name_start :: "nat \<Rightarrow> bool" where
  "name_start c \<longleftrightarrow> 65 \<le> c \<and> c \<le> 90 \<or> 97 \<le> c \<and> c \<le> 122 \<or> 48 \<le> c \<and> c \<le> 57"

definition name_char :: "nat \<Rightarrow> bool" where
  "name_char c \<longleftrightarrow> name_start c \<or> c = 46 \<or> c = 95 \<or> c = 45"

text \<open>\<open>^[A-Za-z0-9][A-Za-z0-9._-]{0,62}$\<close>, tried with \<open>match\<close>.\<close>

fun safe_name :: "pystr \<Rightarrow> bool" where
  "safe_name [] = False"
| "safe_name (c # cs) =
     (let run = takeWhile name_char cs in
      name_start c \<and> length run \<le> 62 \<and> at_dollar (drop (length run) cs))"

definition make_identity :: "pystr \<Rightarrow> pystr res" where
  "make_identity service =
     (if safe_name service then Inr service
      else Inl (ValueError ''service must be 1..63 chars in [A-Za-z0-9._-] starting alphanumeric''))"

definition namespace_prefix :: "pystr \<Rightarrow> pystr" where
  "namespace_prefix service = service @ S ''.''"

definition mesh_routing_key :: "pystr \<Rightarrow> pystr \<Rightarrow> pystr res" where
  "mesh_routing_key service method =
     (if safe_name method then Inr (service @ S ''.'' @ method)
      else Inl (ValueError ''method name invalid for mesh routing key''))"

text \<open>\<open>".." in routing_key\<close>.\<close>

fun has_dotdot :: "pystr \<Rightarrow> bool" where
  "has_dotdot (a # b # s) = (a = 46 \<and> b = 46 \<or> has_dotdot (b # s))"
| "has_dotdot _ = False"

definition outside_namespace :: "'a res" where
  "outside_namespace = Inl (NamespaceError ''routing key outside namespace: {}'')"

definition assert_in_namespace :: "pystr \<Rightarrow> pyval \<Rightarrow> pystr res" where
  "assert_in_namespace service routing_key =
     (case routing_key of
        VStr key \<Rightarrow>
          if key = [] then Inl (NamespaceError ''routing key required'')
          else if key = service \<or> starts_with key (namespace_prefix service) then
            (if starts_with key (namespace_prefix service) then
               (let rest = drop (length (namespace_prefix service)) key in
                if rest = [] \<or> has_dotdot key then outside_namespace else Inr key)
             else Inr key)
          else outside_namespace
      | _ \<Rightarrow> Inl (NamespaceError ''routing key required''))"

section \<open>The service\<close>

definition DEFAULT_MESH_EXCHANGE :: pystr where
  "DEFAULT_MESH_EXCHANGE = S ''nr.mesh''"

record mesh =
  ms_identity :: pystr
  ms_exchange :: pystr
  ms_channel :: int
  ms_queue_name :: pystr
  ms_profile :: queue_profile
  ms_announce :: bool
  ms_registry :: pystr
  ms_ttl :: pyfloat
  ms_instance :: pystr
  ms_keys :: "pystr list"
  ms_methods :: "pystr list"
  ms_queue :: "pystr option"
  ms_started :: bool

text \<open>\<open>for method in methods: ...\<close>.\<close>

fun mesh_keys :: "pystr \<Rightarrow> pystr list \<Rightarrow> pystr list res" where
  "mesh_keys service [] = Inr []"
| "mesh_keys service (m # ms) =
     bind_r (mesh_routing_key service m) (\<lambda>key.
     bind_r (assert_in_namespace service (VStr key)) (\<lambda>_.
     bind_r (mesh_keys service ms) (\<lambda>keys. Inr (key # keys))))"

definition mesh_init ::
  "pystr \<Rightarrow> pystr list \<Rightarrow> pystr \<Rightarrow> pystr option \<Rightarrow> int \<Rightarrow> queue_profile option \<Rightarrow> bool \<Rightarrow> pystr \<Rightarrow> pyfloat \<Rightarrow>
     pystr option \<Rightarrow> pystr \<Rightarrow> mesh res" where
  "mesh_init identity methods exchange queue channel_id profile announce registry ttl instance_id uuid =
     (if methods = [] then Inl (ValueError ''methods must be non-empty'')
      else
        bind_r (case profile of
                  Some p \<Rightarrow> Inr p
                | None \<Rightarrow> durable_at_least_once 60000 (S ''nr.dlx.'' @ identity) (S ''timeout'') 10) (\<lambda>p.
        bind_r (mesh_keys identity methods) (\<lambda>keys.
          Inr \<lparr>ms_identity = identity, ms_exchange = exchange, ms_channel = channel_id,
            ms_queue_name = str_or queue (S ''nr.svc.'' @ identity), ms_profile = p, ms_announce = announce,
            ms_registry = registry, ms_ttl = ttl, ms_instance = str_or instance_id uuid, ms_keys = keys,
            ms_methods = methods, ms_queue = None, ms_started = False\<rparr>)))"

definition assert_bind_allowed :: "mesh \<Rightarrow> pystr \<Rightarrow> pystr res" where
  "assert_bind_allowed m routing_key =
     (case assert_in_namespace (ms_identity m) (VStr routing_key) of
        Inl (NamespaceError e) \<Rightarrow>
          Inl (RpcError BIND_REFUSED (S e) (make_error_data BIND_REFUSED False None (Some routing_key)) None)
      | r \<Rightarrow> r)"

text \<open>
  \<open>start\<close> after the connection and its channel are open: the exchange, the queue, then one bind
  after the other, each refused before anything is written when the key is not the service's.
\<close>

definition mesh_exchange_begin :: "mesh \<Rightarrow> nat cop" where
  "mesh_exchange_begin m = exchange_declare_begin (ms_channel m) (ms_exchange m) (S ''direct'') True False"

definition mesh_queue_begin :: "mesh \<Rightarrow> (bool \<times> nat option) cop" where
  "mesh_queue_begin m = queue_declare_profile_begin (ms_channel m) (ms_profile m) False None"

definition mesh_declared :: "pystr \<Rightarrow> mesh \<Rightarrow> mesh" where
  "mesh_declared queue m = m\<lparr>ms_queue := Some queue\<rparr>"

definition mesh_bind_begin :: "mesh \<Rightarrow> pystr \<Rightarrow> pystr \<Rightarrow> nat cop" where
  "mesh_bind_begin m queue key =
     bind_s (lift_s (assert_bind_allowed m key)) (\<lambda>_.
       queue_bind_begin (ms_channel m) queue (ms_exchange m) key)"

definition mesh_finish :: "mesh \<Rightarrow> pystr option \<times> mesh" where
  "mesh_finish m = (ms_queue m, m\<lparr>ms_started := True\<rparr>)"

definition mesh_is_started :: "mesh \<Rightarrow> bool" where
  "mesh_is_started m \<longleftrightarrow> ms_started m \<and> ms_queue m \<noteq> None"

definition mesh_advert :: "mesh \<Rightarrow> pyfloat \<Rightarrow> pystr \<Rightarrow> advert" where
  "mesh_advert m now queue =
     \<lparr>a_service = ms_identity m, a_methods = ms_methods m, a_instance = ms_instance m, a_queue = queue,
      a_exchange = ms_exchange m, a_published = now, a_ttl = ms_ttl m\<rparr>"

definition mesh_announce_begin :: "mesh \<Rightarrow> nat cop" where
  "mesh_announce_begin m = declare_registry_begin (ms_channel m) (ms_registry m)"

definition mesh_close :: "mesh \<Rightarrow> mesh" where
  "mesh_close m = m\<lparr>ms_started := False\<rparr>"

text \<open>\<open>rebind\<close> up to its \<open>start\<close>: a fresh connection of the same configuration.\<close>

definition mesh_rebind :: "mesh \<Rightarrow> conn \<Rightarrow> mesh \<times> conn" where
  "mesh_rebind m c = ((mesh_close m)\<lparr>ms_queue := None\<rparr>, conn_init (c_config c))"

section \<open>What a service may bind\<close>

lemma starts_with_append [simp]: "starts_with (p @ s) p"
  by (simp add: starts_with_iff)

lemma in_namespace_iff:
  assumes "s \<noteq> []"
  shows "assert_in_namespace s (VStr k) = Inr k' \<longleftrightarrow>
    k' = k \<and> (k = s \<or> (\<exists>r. r \<noteq> [] \<and> k = s @ S ''.'' @ r \<and> \<not> has_dotdot k))"
proof -
  have sw: "starts_with k (namespace_prefix s) \<longleftrightarrow> (\<exists>r. k = s @ S ''.'' @ r)"
    by (auto simp: starts_with_iff prefix_def namespace_prefix_def)
  show ?thesis
  proof (cases "starts_with k (namespace_prefix s)")
    case True
    then obtain r where r: "k = s @ S ''.'' @ r" using sw by blast
    have n: "s @ S ''.'' @ r \<noteq> s" by simp
    show ?thesis using True n
      by (auto simp: assert_in_namespace_def r namespace_prefix_def outside_namespace_def Let_def)
  next
    case False
    then show ?thesis using sw assms by (auto simp: assert_in_namespace_def outside_namespace_def)
  qed
qed

lemma in_namespace_raises:
  "assert_in_namespace s (VStr k) = Inl e \<Longrightarrow> \<exists>m. e = NamespaceError m"
  by (auto simp: assert_in_namespace_def outside_namespace_def Let_def split: if_splits)

lemma mesh_keys_Inr:
  "s \<noteq> [] \<Longrightarrow> mesh_keys s ms = Inr keys \<Longrightarrow>
     keys = map (\<lambda>m. s @ S ''.'' @ m) ms \<and> (\<forall>k \<in> set keys. assert_in_namespace s (VStr k) = Inr k)"
proof (induction ms arbitrary: keys)
  case (Cons m ms)
  then show ?case by (auto simp: bind_r_Inr_iff mesh_routing_key_def in_namespace_iff split: if_splits)
qed simp

text \<open>
  C18. A service binds only inside its namespace. The keys of a service that could be made are
  \<open>service.method\<close> for its methods, in order, and none of them is refused; every other key is
  refused with BIND_REFUSED before anything is written, unless it is the name of the service or
  starts with it and a dot. A key two services may both bind exists only if the name of one
  continues the name of the other after a dot.\<close>

theorem mesh_binds_inside_namespace:
  assumes "make_identity s = Inr s" "mesh_init s methods ex q ch prof ann reg ttl inst uuid = Inr m"
  shows "ms_keys m = map (\<lambda>x. s @ S ''.'' @ x) methods \<and>
    (\<forall>k \<in> set (ms_keys m). assert_bind_allowed m k = Inr k) \<and>
    (\<forall>k. k \<noteq> s \<and> \<not> prefix (s @ S ''.'') k \<longrightarrow>
       (\<exists>e. \<forall>queue c. mesh_bind_begin m queue k c =
          (Inl (RpcError BIND_REFUSED e (make_error_data BIND_REFUSED False None (Some k)) None), c))) \<and>
    (\<forall>s' k. make_identity s' = Inr s' \<and> s' \<noteq> s \<and> assert_in_namespace s (VStr k) = Inr k \<and>
       assert_in_namespace s' (VStr k) = Inr k \<longrightarrow> prefix (s @ S ''.'') s' \<or> prefix (s' @ S ''.'') s)"
proof -
  have ne: "s' \<noteq> []" if "make_identity s' = Inr s'" for s' using that by (cases s') (simp_all add: make_identity_def)
  have id: "ms_identity m = s" and k: "mesh_keys s methods = Inr (ms_keys m)"
    using assms(2) by (auto simp: mesh_init_def bind_r_Inr_iff split: if_splits)
  note keys = mesh_keys_Inr[OF ne[OF assms(1)] k]
  have refused: "\<exists>e. \<forall>queue c. mesh_bind_begin m queue k c =
      (Inl (RpcError BIND_REFUSED e (make_error_data BIND_REFUSED False None (Some k)) None), c)"
    if "k \<noteq> s" "\<not> prefix (s @ S ''.'') k" for k
  proof -
    have "assert_in_namespace s (VStr k) \<noteq> Inr k'" for k'
      using that by (auto simp: in_namespace_iff[OF ne[OF assms(1)]] prefix_def)
    then obtain e where "assert_in_namespace s (VStr k) = Inl (NamespaceError e)"
      by (metis in_namespace_raises sumE)
    then show ?thesis by (simp add: mesh_bind_begin_def assert_bind_allowed_def id bind_s_eval op_simps)
  qed
  have shared: "prefix (s @ S ''.'') s' \<or> prefix (s' @ S ''.'') s"
    if "make_identity s' = Inr s'" "s' \<noteq> s" "assert_in_namespace s (VStr k) = Inr k" "assert_in_namespace s' (VStr k) = Inr k" for s' k
  proof -
    have "k = t \<or> prefix (t @ S ''.'') k" if "t \<noteq> []" "assert_in_namespace t (VStr k) = Inr k" for t
      using that(2) unfolding in_namespace_iff[OF that(1)] prefix_def by auto
    then have "k = s \<or> prefix (s @ S ''.'') k" "k = s' \<or> prefix (s' @ S ''.'') k"
      using that(3,4) ne[OF assms(1)] ne[OF that(1)] by blast+
    moreover have "prefix (a @ S ''.'') b" if "prefix (a @ S ''.'') k" "prefix (b @ S ''.'') k" "length a < length b" for a b
    proof -
      have "prefix b k" using that(2) by (auto simp: prefix_def)
      with that(1) have "prefix (a @ S ''.'') b \<or> prefix b (a @ S ''.'')" using prefix_same_cases by blast
      moreover have "prefix b (a @ S ''.'') \<Longrightarrow> b = a @ S ''.''"
        using that(3) by (auto simp: prefix_def append_eq_append_conv2 Cons_eq_append_conv S_def)
      ultimately show ?thesis by auto
    qed
    moreover have "length s \<noteq> length s'" if "prefix (s @ S ''.'') k" "prefix (s' @ S ''.'') k"
      using that \<open>s' \<noteq> s\<close> by (auto simp: prefix_def)
    ultimately show ?thesis using \<open>s' \<noteq> s\<close> by (metis linorder_neqE_nat)
  qed
  have "\<forall>k \<in> set (ms_keys m). assert_bind_allowed m k = Inr k"
    using keys by (simp add: assert_bind_allowed_def id)
  then show ?thesis using keys refused shared by blast
qed

theorem mesh_binds_inside_namespace_witness:
  "\<exists>m. mesh_init (S ''pay'') [S ''charge''] DEFAULT_REGISTRY_EXCHANGE None 1 None False [] DEFAULT_ADVERTISE_TTL_S None [1] = Inr m \<and>
     ms_keys m = [S ''pay.charge''] \<and> (\<forall>c. \<exists>e. fst (mesh_bind_begin m [] (S ''other.charge'') c) = Inl e)"
proof -
  have i: "make_identity (S ''pay'') = Inr (S ''pay'')"
    by (simp add: make_identity_def S_def name_start_def name_char_def at_dollar_def)
  have "\<exists>m. mesh_init (S ''pay'') [S ''charge''] DEFAULT_REGISTRY_EXCHANGE None 1 None False [] DEFAULT_ADVERTISE_TTL_S None [1] = Inr m"
    by (simp add: mesh_init_def durable_at_least_once_def make_profile_def post_init_def requires_dlx_def delivery_modes
        mesh_routing_key_def S_def name_start_def name_char_def at_dollar_def assert_in_namespace_def namespace_prefix_def)
  then obtain m where m: "mesh_init (S ''pay'') [S ''charge''] DEFAULT_REGISTRY_EXCHANGE None 1 None False [] DEFAULT_ADVERTISE_TTL_S None [1] = Inr m"
    by blast
  from mesh_binds_inside_namespace[OF i m] have k: "ms_keys m = [S ''pay.charge'']"
    and r: "\<And>k. k \<noteq> S ''pay'' \<and> \<not> prefix (S ''pay'' @ S ''.'') k \<Longrightarrow>
       (\<exists>e. \<forall>queue c. mesh_bind_begin m queue k c =
          (Inl (RpcError BIND_REFUSED e (make_error_data BIND_REFUSED False None (Some k)) None), c))"
    by (simp_all flip: S_append)
  have "S ''other.charge'' \<noteq> S ''pay'' \<and> \<not> prefix (S ''pay'' @ S ''.'') (S ''other.charge'')"
    by (simp add: S_def)
  from r[OF this] have "\<forall>c. \<exists>e. fst (mesh_bind_begin m [] (S ''other.charge'') c) = Inl e" by fastforce
  with k m show ?thesis by blast
qed

text \<open>
  Dots are allowed in names, so that the namespace of a service contains those of all services
  whose names continue it: \<open>pay\<close> may bind the keys of \<open>pay.cards\<close>. And a name may end in a newline.
\<close>

lemma nested_service_names:
  "make_identity (S ''pay'') = Inr (S ''pay'')" "make_identity (S ''pay.cards'') = Inr (S ''pay.cards'')"
  "assert_in_namespace (S ''pay'') (VStr (S ''pay.cards.charge'')) = Inr (S ''pay.cards.charge'')"
  "assert_in_namespace (S ''pay.cards'') (VStr (S ''pay.cards.charge'')) = Inr (S ''pay.cards.charge'')"
  "make_identity (S ''pay'' @ [10]) = Inr (S ''pay'' @ [10])"
  by (simp_all add: make_identity_def S_def name_start_def name_char_def at_dollar_def assert_in_namespace_def
      namespace_prefix_def)

end
