(* ===== verification/Context.thy ===== *)
theory Context
  imports Errors Acl
begin

text \<open>
  \<^verbatim>\<open>src/src/nuropb_rmq/patterns/context.py\<close>: claims in the headers of a message and their
  verification. PyJWT's \<open>decode\<close> is an argument: from the token, the key, the algorithm, the
  audience and the issuer it returns the claims, or raises \<open>ExpiredSignatureError\<close>, another
  \<open>InvalidTokenError\<close>, or any other exception.
\<close>

definition CLAIMS_HEADER :: pystr where "CLAIMS_HEADER = S ''nr.claims''"
definition CLAIMS_TYP_HEADER :: pystr where "CLAIMS_TYP_HEADER = S ''nr.claims_typ''"
definition CLAIMS_TYP_JWT :: pystr where "CLAIMS_TYP_JWT = S ''JWT''"

lemmas claims_names = CLAIMS_HEADER_def CLAIMS_TYP_HEADER_def CLAIMS_TYP_JWT_def

text \<open>\<open>dict(props.get("headers") or {})\<close>.\<close>

definition headers_copy :: "pydict \<Rightarrow> pydict res" where
  "headers_copy props =
     (let h = dict_get_or props (S ''headers'') VNone in
      if \<not> truthy h then Inr []
      else case h of VDict d \<Rightarrow> Inr d | _ \<Rightarrow> Inl (Unmodelled ''dict() of a value that is no dict''))"

definition attach_claims_headers :: "pydict \<Rightarrow> pyval \<Rightarrow> pydict res" where
  "attach_claims_headers properties token =
     (case token of
        VStr t \<Rightarrow>
          if t = [] then Inl (ValueError ''claims token must be a non-empty string'')
          else bind_r (headers_copy properties) (\<lambda>headers.
            Inr (dict_set properties (S ''headers'')
              (VDict (dict_set (dict_set headers CLAIMS_HEADER (VStr t)) CLAIMS_TYP_HEADER (VStr CLAIMS_TYP_JWT)))))
      | _ \<Rightarrow> Inl (ValueError ''claims token must be a non-empty string''))"

datatype jwt_result = Claims pydict | ExpiredSignature | InvalidToken | JwtRaises py_exc

type_synonym jwt_decode = "pystr \<Rightarrow> pyval \<Rightarrow> pystr \<Rightarrow> pystr option \<Rightarrow> pystr option \<Rightarrow> jwt_result"

record auth_config =
  au_secret :: "pyval option"
  au_public_key :: "pyval option"
  au_algorithms :: "pystr list"
  au_public :: "pystr list"
  au_authorize :: "(pydict \<Rightarrow> pystr \<Rightarrow> pyval \<Rightarrow> bool res) option"
  au_audience :: "pystr option"
  au_issuer :: "pystr option"

definition make_auth_config :: "bool \<Rightarrow> auth_config \<Rightarrow> auth_config res" where
  "make_auth_config jwt_installed a =
     (if au_secret a = None \<and> au_public_key a = None
      then Inl (ValueError ''AuthConfig requires jwt_secret and/or jwt_public_key'')
      else if \<not> jwt_installed then Inl (RuntimeError ''JWT claims require optional dependency'')
      else Inr a)"

definition is_public :: "auth_config \<Rightarrow> pystr \<Rightarrow> bool" where
  "is_public a method \<longleftrightarrow> method \<in> set (au_public a)"

definition key_for_alg :: "auth_config \<Rightarrow> pystr \<Rightarrow> pyval res" where
  "key_for_alg a alg =
     (if starts_with alg (S ''HS'') then
        (case au_secret a of
           None \<Rightarrow> Inl (RpcError UNAUTHORIZED (S ''HS* algorithm configured but jwt_secret missing'')
                     (make_error_data UNAUTHORIZED False None None) None)
         | Some k \<Rightarrow> Inr k)
      else
        (case au_public_key a of
           None \<Rightarrow> Inl (RpcError UNAUTHORIZED (S ''asymmetric algorithm configured but jwt_public_key missing'')
                     (make_error_data UNAUTHORIZED False None None) None)
         | Some k \<Rightarrow> Inr k))"

definition claims_error :: "int \<Rightarrow> string \<Rightarrow> pystr \<Rightarrow> pystr \<Rightarrow> py_exc" where
  "claims_error code message method corr =
     RpcError code (S message) (make_error_data code False (Some corr) (Some method)) None"

text \<open>\<open>for alg in self.algorithms: ...\<close>; None when no algorithm accepts the token.\<close>

fun decode_claims :: "jwt_decode \<Rightarrow> auth_config \<Rightarrow> pystr \<Rightarrow> pystr \<Rightarrow> pystr \<Rightarrow> pystr list \<Rightarrow> pydict option res" where
  "decode_claims jwt a method corr token [] = Inr None"
| "decode_claims jwt a method corr token (alg # algs) =
     bind_r (key_for_alg a alg) (\<lambda>key.
       case jwt token key alg (au_audience a) (au_issuer a) of
         Claims c \<Rightarrow> Inr (Some c)
       | ExpiredSignature \<Rightarrow> Inl (claims_error CLAIMS_EXPIRED ''claims expired'' method corr)
       | InvalidToken \<Rightarrow> decode_claims jwt a method corr token algs
       | JwtRaises e \<Rightarrow> Inl e)"

text \<open>\<open>hmac.compare_digest\<close> of two strings: it refuses characters outside of ASCII.\<close>

definition compare_digest :: "pystr \<Rightarrow> pystr \<Rightarrow> bool res" where
  "compare_digest a b =
     (if list_all (\<lambda>c. c < 128) a \<and> list_all (\<lambda>c. c < 128) b then Inr (a = b)
      else Inl (TypeError ''comparing strings with non-ASCII characters is not supported''))"

text \<open>\<open>not isinstance(v, str) or not hmac.compare_digest(v, expected)\<close>.\<close>

definition unbound :: "pyval \<Rightarrow> pystr \<Rightarrow> bool res" where
  "unbound v expected =
     (case v of VStr s \<Rightarrow> bind_r (compare_digest s expected) (\<lambda>eq. Inr (\<not> eq)) | _ \<Rightarrow> Inr True)"

text \<open>\<open>except Exception\<close> around \<open>authorize_func\<close>: it lets a cancellation through.\<close>

definition authorize :: "auth_config \<Rightarrow> pydict \<Rightarrow> pystr \<Rightarrow> pyval \<Rightarrow> pystr \<Rightarrow> unit res" where
  "authorize a claims method params corr =
     (case au_authorize a of
        None \<Rightarrow> Inr ()
      | Some f \<Rightarrow>
          (case f claims method params of
             Inl CancelledError \<Rightarrow> Inl CancelledError
           | Inl _ \<Rightarrow> Inl (claims_error UNAUTHORIZED ''authorize_func rejected request'' method corr)
           | Inr ok \<Rightarrow> if ok then Inr () else Inl (claims_error UNAUTHORIZED ''authorize_func denied'' method corr)))"

definition check_claims :: "auth_config \<Rightarrow> pydict \<Rightarrow> pystr \<Rightarrow> pyval \<Rightarrow> pystr \<Rightarrow> pydict option res" where
  "check_claims a claims method params corr =
     bind_r (unbound (dict_get_or claims (S ''jti'') VNone) corr) (\<lambda>bad.
       if bad then Inl (claims_error CLAIMS_UNBOUND ''claims jti not bound to correlation id'' method corr)
       else bind_r (unbound (dict_get_or claims (S ''method'') VNone) method) (\<lambda>bad.
         if bad then Inl (claims_error CLAIMS_UNBOUND ''claims method not bound to request method'' method corr)
         else bind_r (authorize a claims method params corr) (\<lambda>_. Inr (Some claims))))"

text \<open>The header's type and token.\<close>

definition claims_token :: "pydict \<Rightarrow> pystr \<Rightarrow> pystr \<Rightarrow> pystr res" where
  "claims_token props method corr =
     (let h = dict_get_or props (S ''headers'') VNone; h' = (if truthy h then h else VDict []) in
      case h' of
        VDict headers \<Rightarrow>
          (let typ = dict_get_or headers CLAIMS_TYP_HEADER VNone; token = dict_get_or headers CLAIMS_HEADER VNone in
           if typ = VNone \<and> token = VNone then Inl (claims_error CLAIMS_MISSING ''claims missing'' method corr)
           else if typ \<noteq> VStr CLAIMS_TYP_JWT then Inl (claims_error UNAUTHORIZED ''unsupported claims type'' method corr)
           else case token of
             VStr t \<Rightarrow> if t = [] then Inl (claims_error CLAIMS_MISSING ''claims token missing'' method corr) else Inr t
           | _ \<Rightarrow> Inl (claims_error CLAIMS_MISSING ''claims token missing'' method corr))
      | _ \<Rightarrow> Inl (claims_error CLAIMS_MISSING ''claims headers missing'' method corr))"

definition verify_request ::
  "jwt_decode \<Rightarrow> auth_config \<Rightarrow> pystr \<Rightarrow> pyval \<Rightarrow> pystr \<Rightarrow> pydict \<Rightarrow> pydict option res" where
  "verify_request jwt a method params corr props =
     (if is_public a method then Inr None
      else bind_r (claims_token props method corr) (\<lambda>token.
        bind_r (decode_claims jwt a method corr token (au_algorithms a)) (\<lambda>claims.
          case claims of
            None \<Rightarrow> Inl (claims_error UNAUTHORIZED ''claims signature invalid'' method corr)
          | Some c \<Rightarrow> check_claims a c method params corr)))"

section \<open>What is accepted\<close>

lemma unbound_False: "unbound v x = Inr False \<Longrightarrow> v = VStr x"
  by (auto simp: unbound_def compare_digest_def bind_r_Inr_iff split: pyval.splits if_splits)

lemma dict_get_or_Str: "dict_get_or d k VNone = VStr x \<longleftrightarrow> dict_get d k = Some (VStr x)"
  by (auto simp: dict_get_or_def split: option.splits)

lemma check_claims_Inr:
  assumes "check_claims a c method params corr = Inr r"
  shows "r = Some c" "dict_get c (S ''jti'') = Some (VStr corr)" "dict_get c (S ''method'') = Some (VStr method)"
    "case au_authorize a of None \<Rightarrow> True | Some f \<Rightarrow> f c method params = Inr True"
  using assms
  by (auto simp: check_claims_def bind_r_Inr_iff authorize_def dict_get_or_Str dest!: unbound_False
      split: if_splits option.splits sum.splits py_exc.splits)

lemma claims_token_Inr:
  assumes "claims_token props method corr = Inr t"
  obtains hs where "dict_get props (S ''headers'') = Some (VDict hs)" "dict_get hs CLAIMS_HEADER = Some (VStr t)"
    "dict_get hs CLAIMS_TYP_HEADER = Some (VStr (S ''JWT''))" "t \<noteq> []"
proof -
  obtain h where "dict_get_or props (S ''headers'') VNone = h" by blast
  with assms that show thesis
    by (cases h) (auto simp: claims_token_def Let_def dict_get_or_Str CLAIMS_TYP_JWT_def dict_get_or_def
        split: if_splits pyval.splits option.splits)
qed

lemma decode_claims_Some:
  "decode_claims jwt a method corr token algs = Inr (Some c) \<Longrightarrow>
     \<exists>alg \<in> set algs. \<exists>key. key_for_alg a alg = Inr key \<and> jwt token key alg (au_audience a) (au_issuer a) = Claims c"
proof (induction algs)
  case (Cons a' algs)
  then obtain key where k: "key_for_alg a a' = Inr key" by (auto simp: bind_r_Inr_iff)
  show ?case
  proof (cases "jwt token key a' (au_audience a) (au_issuer a)")
    case (Claims c')
    then show ?thesis using Cons.prems k by auto
  next
    case InvalidToken
    then show ?thesis using Cons k by auto
  qed (use Cons.prems k in auto)
qed simp

text \<open>
  C7. Claims are accepted only when they are bound to the request. Whatever PyJWT does,
  \<open>verify_request\<close> returns without claims exactly for public methods; it returns claims only if
  they are what PyJWT verified for the non-empty token in the headers, of type JWT, under a
  configured algorithm with the kind of key that belongs to it (never a public key as an HMAC
  secret), their \<open>jti\<close> is the correlation id, their \<open>method\<close> the method called, and the
  authorization function, if there is one, returned true.\<close>

theorem accepted_claims_are_bound:
  assumes "verify_request jwt a method params corr props = Inr r"
  shows "(r = None \<longleftrightarrow> is_public a method) \<and>
    (\<forall>claims. r = Some claims \<longrightarrow>
       (\<exists>hs token alg key. dict_get props (S ''headers'') = Some (VDict hs) \<and> token \<noteq> [] \<and>
          dict_get hs CLAIMS_HEADER = Some (VStr token) \<and> dict_get hs CLAIMS_TYP_HEADER = Some (VStr (S ''JWT'')) \<and>
          alg \<in> set (au_algorithms a) \<and>
          (if starts_with alg (S ''HS'') then au_secret a else au_public_key a) = Some key \<and>
          jwt token key alg (au_audience a) (au_issuer a) = Claims claims) \<and>
       dict_get claims (S ''jti'') = Some (VStr corr) \<and> dict_get claims (S ''method'') = Some (VStr method) \<and>
       (case au_authorize a of None \<Rightarrow> True | Some f \<Rightarrow> f claims method params = Inr True))"
proof (cases "is_public a method")
  case False
  then obtain token c where t: "claims_token props method corr = Inr token"
    and d: "decode_claims jwt a method corr token (au_algorithms a) = Inr (Some c)"
    and c: "check_claims a c method params corr = Inr r"
    using assms by (auto simp: verify_request_def bind_r_Inr_iff split: option.splits)
  obtain hs where hs: "dict_get props (S ''headers'') = Some (VDict hs)" "dict_get hs CLAIMS_HEADER = Some (VStr token)"
    "dict_get hs CLAIMS_TYP_HEADER = Some (VStr (S ''JWT''))" "token \<noteq> []"
    using t by (rule claims_token_Inr)
  from decode_claims_Some[OF d] obtain alg key where k: "alg \<in> set (au_algorithms a)" "key_for_alg a alg = Inr key"
    "jwt token key alg (au_audience a) (au_issuer a) = Claims c" by blast
  have "(if starts_with alg (S ''HS'') then au_secret a else au_public_key a) = Some key"
    using k(2) by (auto simp: key_for_alg_def split: if_splits option.splits)
  with hs k check_claims_Inr[OF c] False show ?thesis by auto
qed (use assms in \<open>simp add: verify_request_def\<close>)

definition sample_auth :: auth_config where
  "sample_auth = \<lparr>au_secret = Some (VStr [115]), au_public_key = None, au_algorithms = [S ''HS256''], au_public = [],
     au_authorize = None, au_audience = None, au_issuer = None\<rparr>"

text \<open>A decoder that accepts one token, and headers that carry it.\<close>

definition sample_jwt :: jwt_decode where
  "sample_jwt token key alg aud iss =
     (if token = [116] then Claims [(S ''jti'', VStr [49]), (S ''method'', VStr [109])] else InvalidToken)"

lemma sample_accepted:
  "\<exists>props. attach_claims_headers [] (VStr [116]) = Inr props \<and>
     verify_request sample_jwt sample_auth [109] VNone [49] props = Inr (Some [(S ''jti'', VStr [49]), (S ''method'', VStr [109])])"
  by (simp add: attach_claims_headers_def headers_copy_def dict_get_or_def verify_request_def is_public_def sample_auth_def
      sample_jwt_def claims_token_def claims_names key_for_alg_def check_claims_def unbound_def compare_digest_def
      authorize_def Let_def S_def)

theorem accepted_claims_are_bound_witness:
  "\<exists>hs. dict_get hs CLAIMS_HEADER = Some (VStr [116]) \<and>
     sample_jwt [116] (VStr [115]) (S ''HS256'') None None = Claims [(S ''jti'', VStr [49]), (S ''method'', VStr [109])]"
proof -
  obtain props where v: "verify_request sample_jwt sample_auth [109] VNone [49] props =
      Inr (Some [(S ''jti'', VStr [49]), (S ''method'', VStr [109])])" using sample_accepted by blast
  from accepted_claims_are_bound[OF v] show ?thesis
    by (auto simp: sample_auth_def sample_jwt_def split: if_splits)
qed

text \<open>
  A correlation id outside of ASCII makes the comparison raise a \<open>TypeError\<close>: the request is
  refused, but not with CLAIMS_UNBOUND.
\<close>

lemma non_ascii_id_raises:
  assumes "\<not> list_all (\<lambda>c. c < 128) corr" "dict_get claims (S ''jti'') = Some (VStr j)"
  shows "\<exists>m. check_claims a claims method params corr = Inl (TypeError m)"
  using assms by (auto simp: check_claims_def unbound_def compare_digest_def dict_get_or_def)

end
