(* ===== verification/Events.thy ===== *)
theory Events
  imports Consumer Envelope
begin

text \<open>
  \<^verbatim>\<open>src/src/nuropb_rmq/patterns/events.py\<close> and \<^verbatim>\<open>src/src/nuropb_rmq/patterns/dlq_timeout.py\<close>:
  notifications over an exchange, and the consumer of a dead-letter queue that answers timed out
  requests. A user's handler is an argument: what it returns or raises for a method, its parameters
  and the message.
\<close>

section \<open>Publishing notifications\<close>

record publisher =
  pb_exchange :: pystr
  pb_type :: pystr
  pb_channel :: int
  pb_profile :: queue_profile
  pb_started :: bool

definition publisher_init :: "pystr \<Rightarrow> pystr \<Rightarrow> int \<Rightarrow> queue_profile option \<Rightarrow> publisher res" where
  "publisher_init exchange exchange_type channel_id profile =
     bind_r (case profile of Some p \<Rightarrow> Inr p | None \<Rightarrow> transient_fast_path) (\<lambda>p.
       Inr \<lparr>pb_exchange = exchange, pb_type = exchange_type, pb_channel = channel_id, pb_profile = p, pb_started = False\<rparr>)"

definition publisher_start_begin :: "publisher \<Rightarrow> nat cop" where
  "publisher_start_begin p = exchange_declare_begin (pb_channel p) (pb_exchange p) (pb_type p) False True"

definition publisher_started :: "publisher \<Rightarrow> publisher" where
  "publisher_started p = p\<lparr>pb_started := True\<rparr>"

definition publisher_close_begin :: "publisher \<Rightarrow> conn \<Rightarrow> nat option res \<times> publisher \<times> conn" where
  "publisher_close_begin p c = (case close_begin c of (r, c') \<Rightarrow> (r, p\<lparr>pb_started := False\<rparr>, c'))"

definition event_publish_begin ::
  "publisher \<Rightarrow> pystr \<Rightarrow> pystr \<Rightarrow> pyval \<Rightarrow> conn \<Rightarrow> (publish_await res \<times> conn) option" where
  "event_publish_begin p routing_key method params c =
     (if \<not> pb_started p then Some (Inl (RuntimeError ''publisher not started''), c)
      else
        (let key = (if pb_type p = S ''fanout'' then [] else routing_key) in
         case encode_notification method params of
           Inl e \<Rightarrow> Some (Inl e, c)
         | Inr body \<Rightarrow>
             basic_publish_begin (pb_channel p) body (pb_exchange p) key
               (Some [(S ''content_type'', VStr (S ''application/json''))]) True (Some (pb_profile p)) None False c))"

section \<open>Subscribing\<close>

record subscriber =
  sb_exchange :: pystr
  sb_type :: pystr
  sb_key :: pystr
  sb_queue_name :: pystr
  sb_exclusive :: bool
  sb_auto_delete :: bool
  sb_channel :: int
  sb_queue :: "pystr option"
  sb_life :: consumer

definition subscriber_init :: "pystr \<Rightarrow> pystr \<Rightarrow> pystr \<Rightarrow> pystr \<Rightarrow> bool \<Rightarrow> bool \<Rightarrow> int \<Rightarrow> subscriber" where
  "subscriber_init exchange exchange_type binding_key queue exclusive auto_delete channel_id =
     \<lparr>sb_exchange = exchange, sb_type = exchange_type,
      sb_key = (if exchange_type = S ''fanout'' then [] else binding_key), sb_queue_name = queue,
      sb_exclusive = exclusive, sb_auto_delete = auto_delete, sb_channel = channel_id, sb_queue = None,
      sb_life = consumer_init\<rparr>"

text \<open>\<open>start\<close>: one request after the other.\<close>

definition subscriber_exchange_begin :: "subscriber \<Rightarrow> nat cop" where
  "subscriber_exchange_begin s = exchange_declare_begin (sb_channel s) (sb_exchange s) (sb_type s) False True"

definition subscriber_queue_begin :: "subscriber \<Rightarrow> nat cop" where
  "subscriber_queue_begin s =
     queue_declare_begin (sb_channel s) (sb_queue_name s) False (sb_exclusive s) (sb_auto_delete s) []"

definition subscriber_bind_begin :: "subscriber \<Rightarrow> pystr \<Rightarrow> nat cop" where
  "subscriber_bind_begin s queue = queue_bind_begin (sb_channel s) queue (sb_exchange s) (sb_key s)"

definition subscriber_consume_begin :: "subscriber \<Rightarrow> pystr \<Rightarrow> nat cop" where
  "subscriber_consume_begin s queue = basic_consume_begin (sb_channel s) queue []"

definition subscriber_started :: "pystr \<Rightarrow> subscriber \<Rightarrow> subscriber" where
  "subscriber_started queue s = s\<lparr>sb_queue := Some queue, sb_life := consumer_started (sb_life s)\<rparr>"

text \<open>
  \<open>_handle\<close>: what it raises once the message has been acknowledged (the \<open>finally\<close>). A handler that
  awaits runs to its end first.
\<close>

type_synonym event_handler = "pystr \<Rightarrow> pyval \<Rightarrow> incoming \<Rightarrow> unit res"

definition event_handle :: "event_handler \<Rightarrow> int \<Rightarrow> incoming \<Rightarrow> unit cop" where
  "event_handle handler ch msg c =
     (let r = bind_r (decode_notification (i_body msg)) (\<lambda>(method, params). handler method params msg) in
      case basic_ack ch (i_tag msg) True c of
        (Inl e, c') \<Rightarrow> (Inl e, c')
      | (Inr _, c') \<Rightarrow> (r, c'))"

definition subscriber_loop ::
  "event_handler \<Rightarrow> subscriber \<Rightarrow> (conn \<Rightarrow> incoming res \<times> conn) list \<Rightarrow> conn \<Rightarrow> (unit res \<times> conn) option" where
  "subscriber_loop handler s = consume (\<lambda>msg c. Some (event_handle handler (sb_channel s) msg c)) (cn_running (sb_life s))"

definition subscriber_close_begin :: "subscriber \<Rightarrow> conn \<Rightarrow> nat option res \<times> subscriber \<times> conn" where
  "subscriber_close_begin s c =
     (case consumer_close_begin True (sb_life s) c of (r, l, c') \<Rightarrow> (r, s\<lparr>sb_life := l\<rparr>, c'))"

section \<open>The dead-letter queue\<close>

record dlq =
  dq_name :: pystr
  dq_channel :: int
  dq_profile :: queue_profile
  dq_life :: consumer
  dq_unroutable :: nat

definition dlq_init :: "pystr \<Rightarrow> int \<Rightarrow> queue_profile option \<Rightarrow> dlq res" where
  "dlq_init name channel_id profile =
     bind_r (case profile of Some p \<Rightarrow> Inr p | None \<Rightarrow> dlq_terminal) (\<lambda>p.
       Inr \<lparr>dq_name = name, dq_channel = channel_id, dq_profile = p, dq_life = consumer_init, dq_unroutable = 0\<rparr>)"

definition dlq_declare_begin :: "dlq \<Rightarrow> (bool \<times> nat option) cop" where
  "dlq_declare_begin q = queue_declare_profile_begin (dq_channel q) (dq_profile q) False None"

definition dlq_consume_begin :: "dlq \<Rightarrow> nat cop" where
  "dlq_consume_begin q = basic_consume_begin (dq_channel q) (dq_name q) []"

definition dlq_started :: "dlq \<Rightarrow> dlq" where
  "dlq_started q = q\<lparr>dq_life := consumer_started (dq_life q)\<rparr>"

definition dlq_reply :: "incoming \<Rightarrow> (pystr \<times> pystr) option" where
  "dlq_reply msg =
     (case (dict_get (i_props msg) (S ''reply_to''), dict_get (i_props msg) (S ''correlation_id'')) of
        (Some (VStr reply_to), Some (VStr corr)) \<Rightarrow> if reply_to \<noteq> [] then Some (reply_to, corr) else None
      | _ \<Rightarrow> None)"

definition timeout_body :: "pystr \<Rightarrow> bytes res" where
  "timeout_body corr =
     encode_error REQUEST_TIMEOUT (S ''request timed out'') (Some corr)
       (make_error_data REQUEST_TIMEOUT True (Some corr) None)"

definition dlq_handle_begin :: "int \<Rightarrow> incoming \<Rightarrow> conn \<Rightarrow> (publish_await res \<times> conn) option" where
  "dlq_handle_begin ch msg c =
     (case dlq_reply msg of
        None \<Rightarrow> Some (Inr (AwaitConfirm None), c)
      | Some (reply_to, corr) \<Rightarrow>
          (case timeout_body corr of
             Inl e \<Rightarrow> Some (Inl e, c)
           | Inr body \<Rightarrow>
               basic_publish_begin ch body [] reply_to
                 (Some [(S ''content_type'', VStr (S ''application/json'')), (S ''correlation_id'', VStr corr)])
                 False None None True c))"

definition dlq_handle_end :: "int \<Rightarrow> incoming \<Rightarrow> unit cop" where
  "dlq_handle_end ch msg = basic_ack ch (i_tag msg) True"

text \<open>
  A turn of \<open>_loop\<close> on a channel that is not in confirm mode, where the publish does not wait; None
  if it has to wait.
\<close>

definition dlq_handle :: "int \<Rightarrow> incoming \<Rightarrow> conn \<Rightarrow> (unit res \<times> conn) option" where
  "dlq_handle ch msg c =
     (case dlq_handle_begin ch msg c of
        Some (Inr (AwaitConfirm None), c1) \<Rightarrow> Some (dlq_handle_end ch msg c1)
      | Some (Inl e, c1) \<Rightarrow> Some (Inl e, c1)
      | _ \<Rightarrow> None)"

definition dlq_loop :: "dlq \<Rightarrow> (conn \<Rightarrow> incoming res \<times> conn) list \<Rightarrow> conn \<Rightarrow> (unit res \<times> conn) option" where
  "dlq_loop q = consume (dlq_handle (dq_channel q)) (cn_running (dq_life q))"

definition dlq_close_begin :: "dlq \<Rightarrow> conn \<Rightarrow> nat option res \<times> dlq \<times> conn" where
  "dlq_close_begin q c =
     (case consumer_close_begin True (dq_life q) c of (r, l, c') \<Rightarrow> (r, q\<lparr>dq_life := l\<rparr>, c'))"

text \<open>\<open>_on_return\<close>: the count of replies whose queue is gone.\<close>

definition dlq_on_return :: "dlq \<Rightarrow> dlq" where
  "dlq_on_return q = q\<lparr>dq_unroutable := dq_unroutable q + 1\<rparr>"

section \<open>What handling a message does\<close>

text \<open>
  A notification is acknowledged exactly once, whatever the handler does, and what the handler gets
  is what was published. An exception of one message ends the loop: the messages after it are
  neither handled nor acknowledged.
\<close>

lemma event_handle_acks:
  assumes "encode_notification m v = Inr (i_body msg)" "well_keyed v" "event_handle handler ch msg c = (r, c')"
    and "basic_ack ch (i_tag msg) True c = (Inr u, c1)"
  shows "r = handler m (json_norm v) msg \<and>
    (\<exists>bs. method_bytes (c_frame_max c) ch (ack_method (i_tag msg)) = Inr bs \<and> writes c bs c')"
  using assms settled_writes(1)[OF assms(4)] decode_notification_encode(1)[OF assms(2,1)]
  by (auto simp: event_handle_def)

interpretation event_consumer: message_consumer "\<lambda>msg c. Some (event_handle handler ch msg c)" "\<lambda>c. c" ch for handler ch
proof
  fix msg c c' assume "Some (event_handle handler ch msg c) = Some (Inr (), c')"
  then have "basic_ack ch (i_tag msg) True c = (Inr (), c')"
    by (auto simp: event_handle_def Let_def split: prod.splits sum.splits)
  then show "\<exists>out. writes c out c' \<and> whole (c_frame_max c) out \<and> settlements (c_frame_max c) ch out = [i_tag msg]"
    using settled_writes(1) settlement_read(1) by blast
qed

lemma bad_notification_ends_loop:
  assumes "decode_notification (i_body msg) = Inl e" "cn_running (sb_life s)" "w c = (Inr msg, c1)"
  shows "\<exists>e' c'. subscriber_loop handler s (w # ws) c = Some (Inl e', c')"
  using assms by (auto simp: subscriber_loop_def event_handle_def split: prod.split sum.split)

text \<open>A dead letter that has somebody to tell.\<close>

lemma timeout_body_not_empty: "timeout_body corr = Inr b \<Longrightarrow> b \<noteq> []"
  unfolding timeout_body_def by (rule response_bodies_not_empty(2))

interpretation dlq_consumer: message_consumer "dlq_handle ch" "\<lambda>c. c" ch for ch
proof
  fix msg c c' assume h: "dlq_handle ch msg c = Some (Inr (), c')"
  then obtain c1 where b: "dlq_handle_begin ch msg c = Some (Inr (AwaitConfirm None), c1)" and a: "basic_ack ch (i_tag msg) True c1 = (Inr (), c')"
    by (auto simp: dlq_handle_def dlq_handle_end_def split: option.splits prod.splits sum.splits publish_await.splits)
  have "\<exists>out. writes c out c1 \<and> whole (c_frame_max c) out \<and> settlements (c_frame_max c) ch out = []"
  proof (cases "dlq_reply msg")
    case None
    then show ?thesis using b by (intro exI[of _ "[]"]) (simp add: dlq_handle_begin_def)
  next
    case (Some x)
    then show ?thesis
      using b sent_publish_settles_nothing timeout_body_not_empty
      by (fastforce simp: dlq_handle_begin_def split: sum.splits prod.splits)
  qed
  then obtain o1 where o1: "writes c o1 c1" "whole (c_frame_max c) o1" "settlements (c_frame_max c) ch o1 = []" by blast
  obtain o2 where o2: "method_bytes (c_frame_max c1) ch (ack_method (i_tag msg)) = Inr o2" "writes c1 o2 c'"
    using settled_writes(1)[OF a] by blast
  then have "whole (c_frame_max c) o2" "settlements (c_frame_max c) ch o2 = [i_tag msg]"
    using settlement_read(1) o1(1) by (auto simp: writes_def)
  then show "\<exists>out. writes c out c' \<and> whole (c_frame_max c) out \<and> settlements (c_frame_max c) ch out = [i_tag msg]"
    using writes_trans[OF o1(1) o2(2)] o1(2,3) by (intro exI[of _ "o1 @ o2"]) (simp add: settlements_append)
qed

text \<open>
  The synthesized reply: whoever waits for the id reads a retryable REQUEST_TIMEOUT that carries it.
\<close>

lemma timeout_reply_read_back:
  assumes "timeout_body corr = Inr b"
  shows "decode_response b = Inl (RpcError REQUEST_TIMEOUT (S ''request timed out'')
    (Some [(S ''code_name'', VStr (S ''REQUEST_TIMEOUT'')), (S ''retryable'', VBool True), (S ''correlation_id'', VStr corr)])
    (Some corr))"
proof -
  have "\<forall>d. make_error_data REQUEST_TIMEOUT True (Some corr) None = Some d \<longrightarrow> well_keyed (VDict d)"
    by (simp add: make_error_data_eq dict_ok_def)
  from decode_response_error[OF assms[unfolded timeout_body_def] this] show ?thesis
    by (simp add: carried_data_def make_error_data_eq allowed_data_keys_def dict_get_or_def code_names_def)
qed

end
