(* ===== verification/RpcServer.thy ===== *)
theory RpcServer
  imports Consumer Envelope Context Mesh
begin

text \<open>
  \<open>RpcServer\<close> of \<^verbatim>\<open>src/src/nuropb_rmq/patterns/rpc.py\<close>: what the server answers to a message and how
  it settles it. The handler is an argument, a function from the method and its parameters to what
  it returns or raises (\<open>NackDelivery\<close>, an \<open>RpcError\<close>, or anything else).
\<close>

section \<open>The server\<close>

record server =
  sv_queue :: pystr
  sv_channel :: int
  sv_owns_conn :: bool
  sv_declare :: bool
  sv_profile :: queue_profile
  sv_auth :: "auth_config option"
  sv_life :: consumer

definition server_init ::
  "pystr \<Rightarrow> int \<Rightarrow> auth_config option \<Rightarrow> bool \<Rightarrow> bool \<Rightarrow> queue_profile option \<Rightarrow> server res" where
  "server_init queue channel_id auth conn_given declare_queue profile =
     bind_r (case profile of
               Some p \<Rightarrow> Inr p
             | None \<Rightarrow> durable_at_least_once 60000 (S ''nr.dlx.'' @ queue) (S ''timeout'') 10) (\<lambda>p.
       Inr \<lparr>sv_queue = queue, sv_channel = channel_id, sv_owns_conn = (\<not> conn_given), sv_declare = declare_queue,
         sv_profile = p, sv_auth = auth, sv_life = consumer_init\<rparr>)"

definition server_from_mesh :: "mesh \<Rightarrow> auth_config option \<Rightarrow> server res" where
  "server_from_mesh m auth =
     (case ms_queue m of
        Some q \<Rightarrow>
          if mesh_is_started m then server_init q (ms_channel m) auth True False (Some (ms_profile m))
          else Inl (RuntimeError ''mesh service not started'')
      | None \<Rightarrow> Inl (RuntimeError ''mesh service not started''))"

text \<open>\<open>start\<close> on its own connection once that is open, or on a shared one, which must be.\<close>

definition server_check_conn :: "server \<Rightarrow> unit cop" where
  "server_check_conn sv c =
     (if \<not> sv_owns_conn sv \<and> \<not> sm_is_open (c_sm c) then (Inl (RuntimeError ''shared connection is not open''), c)
      else (Inr (), c))"

definition server_declare_begin :: "server \<Rightarrow> (bool \<times> nat option) option cop" where
  "server_declare_begin sv =
     (if sv_declare sv
      then bind_s (queue_declare_profile_begin (sv_channel sv) (sv_profile sv) False None) (\<lambda>x. ret_s (Some x))
      else ret_s None)"

definition server_consume_begin :: "server \<Rightarrow> nat cop" where
  "server_consume_begin sv = basic_consume_begin (sv_channel sv) (sv_queue sv) []"

definition server_started :: "server \<Rightarrow> server" where
  "server_started sv = sv\<lparr>sv_life := consumer_started (sv_life sv)\<rparr>"

section \<open>A request\<close>

type_synonym rpc_handler = "pystr \<Rightarrow> pyval \<Rightarrow> pyval res"

datatype outcome = Nack bool | Reply bytes

definition corr_of :: "incoming \<Rightarrow> pystr option" where
  "corr_of msg = str_only (dict_get_or (i_props msg) (S ''correlation_id'') VNone)"

text \<open>The \<open>try\<close> block: the encoded result, or what was raised. The id of a decoded request is a string.\<close>

definition server_try :: "jwt_decode \<Rightarrow> auth_config option \<Rightarrow> rpc_handler \<Rightarrow> incoming \<Rightarrow> bytes res" where
  "server_try jwt auth handler msg =
     bind_r (decode_request (i_body msg)) (\<lambda>(method, params, body_id).
       let corr = corr_of msg; request_id = (case corr of Some c \<Rightarrow> c | None \<Rightarrow> body_id) in
       if corr \<noteq> None \<and> corr \<noteq> Some body_id then
         Inl (RpcError INVALID_ENVELOPE (S ''correlation_id / jsonrpc id diverge'')
           (make_error_data INVALID_ENVELOPE False corr (Some method)) None)
       else
         bind_r (case auth of
                   None \<Rightarrow> Inr None
                 | Some a \<Rightarrow> verify_request jwt a method params request_id (i_props msg)) (\<lambda>_.
         bind_r (handler method params) (\<lambda>result.
           encode_result result request_id)))"

text \<open>
  The \<open>except\<close> clauses. \<open>except Exception\<close> does not catch a cancellation; a value that is outside of
  the model stays so.
\<close>

definition server_process :: "jwt_decode \<Rightarrow> auth_config option \<Rightarrow> rpc_handler \<Rightarrow> incoming \<Rightarrow> outcome res" where
  "server_process jwt auth handler msg =
     (case server_try jwt auth handler msg of
        Inr out \<Rightarrow> Inr (Reply out)
      | Inl (NackDelivery requeue) \<Rightarrow> Inr (Nack requeue)
      | Inl (RpcError code message data eid) \<Rightarrow>
          bind_r (encode_error code message (case corr_of msg of Some c \<Rightarrow> Some c | None \<Rightarrow> eid) data) (\<lambda>out. Inr (Reply out))
      | Inl CancelledError \<Rightarrow> Inl CancelledError
      | Inl (Unmodelled what) \<Rightarrow> Inl (Unmodelled what)
      | Inl _ \<Rightarrow>
          bind_r (encode_error SERVER_ERROR (S ''internal error'') (corr_of msg)
                    (make_error_data SERVER_ERROR False (corr_of msg) None)) (\<lambda>out. Inr (Reply out)))"

definition reply_target :: "incoming \<Rightarrow> pystr option" where
  "reply_target msg =
     (case dict_get (i_props msg) (S ''reply_to'') of
        Some (VStr r) \<Rightarrow> if r \<noteq> [] then Some r else None
      | _ \<Rightarrow> None)"

definition reply_props :: "incoming \<Rightarrow> pydict" where
  "reply_props msg =
     (S ''content_type'', VStr (S ''application/json''))
     # (case corr_of msg of
          Some rid \<Rightarrow> if rid \<noteq> [] then [(S ''correlation_id'', VStr rid)] else []
        | None \<Rightarrow> [])"

text \<open>The reply, which awaits no confirm, and then the acknowledgement; or the negative one.\<close>

definition server_settle :: "int \<Rightarrow> incoming \<Rightarrow> outcome \<Rightarrow> conn \<Rightarrow> (unit res \<times> conn) option" where
  "server_settle ch msg oc c =
     (case oc of
        Nack requeue \<Rightarrow> Some (basic_nack ch (i_tag msg) requeue False True c)
      | Reply out \<Rightarrow>
          (case reply_target msg of
             None \<Rightarrow> Some (basic_ack ch (i_tag msg) True c)
           | Some r \<Rightarrow>
               (case basic_publish_begin ch out [] r (Some (reply_props msg)) False None (Some False) False c of
                  None \<Rightarrow> None
                | Some (Inl e, c1) \<Rightarrow> Some (Inl e, c1)
                | Some (Inr _, c1) \<Rightarrow> Some (basic_ack ch (i_tag msg) True c1))))"

definition server_handle ::
  "jwt_decode \<Rightarrow> auth_config option \<Rightarrow> rpc_handler \<Rightarrow> int \<Rightarrow> incoming \<Rightarrow> conn \<Rightarrow> (unit res \<times> conn) option" where
  "server_handle jwt auth handler ch msg c =
     (case server_process jwt auth handler msg of
        Inl e \<Rightarrow> Some (Inl e, c)
      | Inr oc \<Rightarrow> server_settle ch msg oc c)"

text \<open>The server's task, and its end.\<close>

definition server_loop ::
  "jwt_decode \<Rightarrow> rpc_handler \<Rightarrow> server \<Rightarrow> (conn \<Rightarrow> incoming res \<times> conn) list \<Rightarrow> conn \<Rightarrow> (unit res \<times> conn) option" where
  "server_loop jwt handler sv = consume (server_handle jwt (sv_auth sv) handler (sv_channel sv)) (cn_running (sv_life sv))"

definition server_close_begin :: "server \<Rightarrow> conn \<Rightarrow> nat option res \<times> server \<times> conn" where
  "server_close_begin sv c =
     (case consumer_close_begin (sv_owns_conn sv) (sv_life sv) c of (r, l, c') \<Rightarrow> (r, sv\<lparr>sv_life := l\<rparr>, c'))"

section \<open>What the client sees\<close>

text \<open>The outcome of a call as the handler and the encoder determine it, and its image at the client.\<close>

definition handled :: "rpc_handler \<Rightarrow> pystr \<Rightarrow> pyval \<Rightarrow> pystr \<Rightarrow> pyval res" where
  "handled handler method params rid =
     bind_r (handler method params) (\<lambda>v. bind_r (encode_result v rid) (\<lambda>_. Inr v))"

fun client_sees :: "pystr \<Rightarrow> pyval res \<Rightarrow> pyval res" where
  "client_sees rid (Inr v) = Inr (json_norm v)"
| "client_sees rid (Inl (RpcError code message data _)) = Inl (RpcError code message (carried_data data) (Some rid))"
| "client_sees rid (Inl _) = Inl (RpcError SERVER_ERROR (S ''internal error'')
     (Some [(S ''code_name'', VStr (S ''SERVER_ERROR'')), (S ''retryable'', VBool False), (S ''correlation_id'', VStr rid)])
     (Some rid))"

definition keyed_outcome :: "pyval res \<Rightarrow> bool" where
  "keyed_outcome r = (case r of
     Inr v \<Rightarrow> well_keyed v
   | Inl (RpcError _ _ (Some d) _) \<Rightarrow> well_keyed (VDict d)
   | _ \<Rightarrow> True)"

text \<open>A result that cannot be encoded raises an exception of the encoder.\<close>

definition encoder_raises :: "py_exc \<Rightarrow> bool" where
  "encoder_raises e \<longleftrightarrow> (\<exists>m. e = ValueError m \<or> e = TypeError m \<or> e = UnicodeError m)"

lemma json_dumps_raises:
  "json_dumps a v = Inl e \<Longrightarrow> encoder_raises e"
  "dump_items a xs = Inl e \<Longrightarrow> encoder_raises e"
  "dump_pairs a d = Inl e \<Longrightarrow> encoder_raises e"
proof (induction a v and a xs and a d rule: json_dumps_dump_items_dump_pairs.induct)
  case (1 a v)
  then show ?case
    by (cases v) (auto simp: bind_r_Inl_iff encoder_raises_def int_text_def Let_def split: if_splits)
qed (auto simp: bind_r_Inl_iff)

lemma dumps_utf8_raises: "dumps_utf8 d = Inl e \<Longrightarrow> encoder_raises e"
  by (auto simp: dumps_utf8_def bind_r_Inl_iff utf8_encode_def encoder_raises_def
      dest!: json_dumps_raises split: option.splits)

lemma encode_result_raises: "encode_result v rid = Inl e \<Longrightarrow> \<nexists>c ms d i. e = RpcError c ms d i"
  by (auto simp: encode_result_def encoder_raises_def dest!: dumps_utf8_raises)

lemma make_error_data_keyed: "make_error_data code r cid m = Some d \<Longrightarrow> well_keyed (VDict d)"
  by (auto simp: make_error_data_eq dict_ok_def split: option.splits)

lemma carried_make_error_data [simp]: "carried_data (make_error_data code r cid None) =
    Some ([(S ''code_name'', VStr (dict_get_or code_names code (S ''UNKNOWN''))), (S ''retryable'', VBool r)]
      @ (case cid of None \<Rightarrow> [] | Some c \<Rightarrow> [(S ''correlation_id'', VStr c)]))"
  by (simp add: carried_data_def make_error_data_eq allowed_data_keys_def split: option.split)

lemma server_try_authorised:
  assumes "decode_request (i_body msg) = Inr (m, p, rid)" "corr_of msg = Some rid"
    and "\<forall>a. auth = Some a \<longrightarrow> (\<exists>r. verify_request jwt a m p rid (i_props msg) = Inr r)"
  shows "server_try jwt auth handler msg = bind_r (handler m p) (\<lambda>v. encode_result v rid)"
  using assms by (cases auth) (auto simp: server_try_def)

text \<open>Every exception but an \<open>RpcError\<close> is an internal error at the client.\<close>

lemma internal_error_read:
  assumes "encode_error SERVER_ERROR (S ''internal error'') (Some rid) (make_error_data SERVER_ERROR False (Some rid) None) = Inr b"
    and "\<nexists>c ms d i. e = RpcError c ms d i"
  shows "decode_response b = client_sees rid (Inl e)"
proof -
  have "decode_response b = Inl (RpcError SERVER_ERROR (S ''internal error'')
      (carried_data (make_error_data SERVER_ERROR False (Some rid) None)) (Some rid))"
    by (rule decode_response_error[OF assms(1)]) (blast intro: make_error_data_keyed)
  then show ?thesis using assms(2) by (cases e) (simp_all add: code_names_def dict_get_or_def)
qed

lemma raised_read:
  assumes "server_try jwt auth handler msg = Inl e" "corr_of msg = Some rid"
    and "server_process jwt auth handler msg = Inr (Reply b)" "keyed_outcome (Inl e)"
  shows "decode_response b = client_sees rid (Inl e)"
proof (cases "\<exists>c ms d i. e = RpcError c ms d i")
  case True
  then obtain c ms d i where e: "e = RpcError c ms d i" by blast
  have "encode_error c ms (Some rid) d = Inr b"
    using assms(1-3) by (simp add: server_process_def e bind_r_Inr_iff)
  from decode_response_error[OF this] show ?thesis
    using assms(4) by (simp add: e keyed_outcome_def split: option.splits)
next
  case False
  then have "encode_error SERVER_ERROR (S ''internal error'') (Some rid) (make_error_data SERVER_ERROR False (Some rid) None) = Inr b"
    using assms(1-3) by (cases e) (auto simp: server_process_def bind_r_Inr_iff)
  from internal_error_read[OF this False] show ?thesis .
qed

text \<open>The reply to a request that was encoded by the client and passes authorization.\<close>

lemma outcome_read:
  assumes "encode_request m params rid = Inr (i_body msg)" "well_keyed params" "corr_of msg = Some rid"
    and "\<forall>a. auth = Some a \<longrightarrow> (\<exists>r. verify_request jwt a m (json_norm params) rid (i_props msg) = Inr r)"
    and "keyed_outcome (handler m (json_norm params))" "server_process jwt auth handler msg = Inr (Reply b)"
  shows "decode_response b = client_sees rid (handled handler m (json_norm params) rid)"
proof -
  note attempt = server_try_authorised[OF decode_request_encode[OF assms(2,1)] assms(3,4), of handler]
  show ?thesis
  proof (cases "handler m (json_norm params)")
    case (Inl e)
    have "server_try jwt auth handler msg = Inl e" by (simp add: attempt Inl)
    from raised_read[OF this assms(3,6)] assms(5) show ?thesis by (simp add: handled_def Inl)
  next
    case (Inr v)
    have k: "well_keyed v" using assms(5) by (simp add: Inr keyed_outcome_def)
    show ?thesis
    proof (cases "encode_result v rid")
      case (Inl e)
      have t: "server_try jwt auth handler msg = Inl e" by (simp add: attempt Inr Inl)
      have "keyed_outcome (Inl e)" using encode_result_raises[OF Inl] by (cases e) (simp_all add: keyed_outcome_def)
      from raised_read[OF t assms(3,6) this] show ?thesis by (simp add: handled_def Inr Inl)
    next
      case enc: (Inr out)
      have "server_try jwt auth handler msg = Inr out" by (simp add: attempt Inr enc)
      then have "b = out" using assms(6) by (simp add: server_process_def)
      then show ?thesis using decode_response_result[OF k enc] by (simp add: handled_def Inr enc)
    qed
  qed
qed

text \<open>
  C5. The client reads what the handler did. When a request that was encoded by the client arrives
  with its correlation id and passes authorization, and the server replies, the body of the reply is
  decoded to the handler's result; to the \<open>RpcError\<close> the handler raised, with its code, message and
  allowlisted data; and to an internal error for every other exception and for a result that is not
  JSON.\<close>

theorem client_reads_outcome:
  assumes "encode_request m params rid = Inr (i_body msg)" "well_keyed params" "corr_of msg = Some rid"
    and "\<forall>a. auth = Some a \<longrightarrow> (\<exists>r. verify_request jwt a m (json_norm params) rid (i_props msg) = Inr r)"
    and "keyed_outcome (handler m (json_norm params))" "server_process jwt auth handler msg = Inr (Reply b)"
  shows "decode_response b = client_sees rid (handled handler m (json_norm params) rid)"
  by (rule outcome_read[OF assms])

definition sample_request :: "bytes \<Rightarrow> incoming" where
  "sample_request b = \<lparr>i_tag = 1, i_exchange = [], i_key = [], i_body = b,
     i_props = [(S ''correlation_id'', VStr [105]), (S ''reply_to'', VStr [114])], i_redelivered = False, i_ctag = []\<rparr>"

lemma sample_result_encodes: "\<exists>b. encode_result (VInt 7) [105] = Inr b"
  by (simp add: encode_result_def dumps_utf8_def json_string_def escape_char_def int_text_def Let_def
      dec_digits.simps MAX_STR_DIGITS_def S_def utf8_ascii)

lemma sample_processed:
  assumes "encode_request [109] (VTuple [VInt 7, VNone]) [105] = Inr q"
  shows "\<exists>b. server_process sample_jwt None (\<lambda>_ _. Inr (VInt 7)) (sample_request q) = Inr (Reply b)"
proof -
  obtain b where b: "encode_result (VInt 7) [105] = Inr b" using sample_result_encodes by blast
  have c: "corr_of (sample_request q) = Some [105]" by (simp add: corr_of_def sample_request_def dict_get_or_def)
  have d: "decode_request (i_body (sample_request q)) = Inr ([109], VList [VInt 7, VNone], [105])"
    using decode_request_encode[OF _ assms] by (simp add: sample_request_def)
  have "server_try sample_jwt None (\<lambda>_ _. Inr (VInt 7)) (sample_request q) = Inr b"
    using server_try_authorised[OF d c, of None] b by simp
  then show ?thesis by (simp add: server_process_def)
qed

theorem client_reads_outcome_witness:
  "\<exists>q b. server_process sample_jwt None (\<lambda>_ _. Inr (VInt 7)) (sample_request q) = Inr (Reply b) \<and>
     decode_response b = Inr (VInt 7)"
proof -
  obtain q where q: "encode_request [109] (VTuple [VInt 7, VNone]) [105] = Inr q" using sample_json(1) by blast
  obtain b where b: "server_process sample_jwt None (\<lambda>_ _. Inr (VInt 7)) (sample_request q) = Inr (Reply b)"
    using sample_processed[OF q] by blast
  have "decode_response b = client_sees [105] (handled (\<lambda>_ _. Inr (VInt 7)) [109] (json_norm (VTuple [VInt 7, VNone])) [105])"
    by (rule client_reads_outcome[where msg = "sample_request q" and jwt = sample_jwt and auth = None])
      (use q b in \<open>simp_all add: sample_request_def corr_of_def dict_get_or_def keyed_outcome_def\<close>)
  moreover obtain r where "encode_result (VInt 7) [105] = Inr r" using sample_result_encodes by blast
  ultimately show ?thesis using b by (auto simp: handled_def)
qed

lemma server_try_not_empty: "server_try jwt auth handler msg = Inr b \<Longrightarrow> b \<noteq> []"
  by (auto simp: server_try_def bind_r_Inr_iff Let_def dest!: response_bodies_not_empty split: if_splits)

lemma reply_not_empty:
  assumes "server_process jwt auth handler msg = Inr (Reply b)"
  shows "b \<noteq> []"
proof (cases "server_try jwt auth handler msg")
  case (Inl e)
  then show ?thesis
    using assms by (cases e) (auto simp: server_process_def bind_r_Inr_iff dest: response_bodies_not_empty)
next
  case (Inr out)
  then show ?thesis using assms server_try_not_empty by (simp add: server_process_def)
qed

section \<open>Settlement\<close>

lemma unauthorised_ignores_handler:
  assumes "decode_request (i_body msg) = Inr (m, p, rid)" "corr_of msg = None \<or> corr_of msg = Some rid"
    and "verify_request jwt a m p rid (i_props msg) = Inl e"
  shows "server_process jwt (Some a) h msg = server_process jwt (Some a) h' msg"
proof -
  have "server_try jwt (Some a) g msg = Inl e" for g
    using assms by (auto simp: server_try_def)
  then show ?thesis by (simp add: server_process_def)
qed

lemma server_handle_total: "\<exists>r c'. server_handle jwt auth handler ch msg c = Some (r, c')"
proof (cases "server_process jwt auth handler msg")
  case (Inr oc)
  have "\<exists>r c'. server_settle ch msg oc c = Some (r, c')"
  proof (cases oc)
    case (Reply out)
    then show ?thesis
    proof (cases "reply_target msg")
      case (Some t)
      obtain w c1 where "basic_publish_begin ch out [] t (Some (reply_props msg)) False None (Some False) False c = Some (w, c1)"
        using basic_publish_begin_total by blast
      then show ?thesis using Reply Some
        by (cases w; cases "basic_ack ch (i_tag msg) True c1") (simp_all add: server_settle_def)
    qed (cases "basic_ack ch (i_tag msg) True c", simp add: server_settle_def)
  next
    case (Nack requeue)
    then show ?thesis by (cases "basic_nack ch (i_tag msg) requeue False True c") (simp add: server_settle_def)
  qed
  then show ?thesis by (simp add: server_handle_def Inr)
qed (simp add: server_handle_def)

text \<open>What a settlement writes: \<open>reply\<close> and then \<open>bs\<close>.\<close>

definition settles :: "int \<Rightarrow> incoming \<Rightarrow> outcome \<Rightarrow> conn \<Rightarrow> bytes \<Rightarrow> bytes \<Rightarrow> bool" where
  "settles ch msg oc c reply bs =
     (case oc of
        Nack requeue \<Rightarrow> reply = [] \<and> method_bytes (c_frame_max c) ch (nack_method (i_tag msg) requeue) = Inr bs
      | Reply out \<Rightarrow>
          method_bytes (c_frame_max c) ch (ack_method (i_tag msg)) = Inr bs \<and>
          (case reply_target msg of
             None \<Rightarrow> reply = []
           | Some r \<Rightarrow> (\<exists>w c1. writes c reply c1 \<and>
               basic_publish_begin ch out [] r (Some (reply_props msg)) False None (Some False) False c = Some (Inr w, c1))))"

lemma server_settle_writes:
  assumes "server_settle ch msg oc c = Some (Inr (), c')"
  shows "\<exists>reply bs. writes c (reply @ bs) c' \<and> settles ch msg oc c reply bs"
proof (cases oc)
  case (Nack requeue)
  then obtain bs where "settles ch msg oc c [] bs" "writes c bs c'"
    using assms settled_writes(2)[of ch "i_tag msg" requeue True c "()" c'] by (auto simp: server_settle_def settles_def)
  then show ?thesis by (metis append_Nil)
next
  case (Reply out)
  show ?thesis
  proof (cases "reply_target msg")
    case None
    then obtain bs where "settles ch msg oc c [] bs" "writes c bs c'"
      using assms Reply settled_writes(1)[of ch "i_tag msg" True c "()" c'] by (auto simp: server_settle_def settles_def)
    then show ?thesis by (metis append_Nil)
  next
    case (Some t)
    obtain w c1 where p: "basic_publish_begin ch out [] t (Some (reply_props msg)) False None (Some False) False c = Some (Inr w, c1)"
      and a: "basic_ack ch (i_tag msg) True c1 = (Inr (), c')"
      using assms Reply Some by (auto simp: server_settle_def split: option.splits prod.splits sum.splits)
    obtain reply where r: "writes c reply c1" using basic_publish_begin_writes p unconfirmed_awaits_nothing[OF p] by blast
    obtain bs where b: "method_bytes (c_frame_max c1) ch (ack_method (i_tag msg)) = Inr bs" "writes c1 bs c'"
      using settled_writes(1)[OF a] by blast
    have "c_frame_max c1 = c_frame_max c" using r by (simp add: writes_def)
    then have "settles ch msg oc c reply bs" using r b(1) p by (auto simp: settles_def Reply Some)
    then show ?thesis using writes_trans[OF r b(2)] by blast
  qed
qed

text \<open>Among the frames of a settlement only the last one settles anything.\<close>

lemma settles_settles_once:
  assumes "settles ch msg oc c reply bs" "\<forall>b. oc = Reply b \<longrightarrow> b \<noteq> []"
  shows "whole (c_frame_max c) (reply @ bs) \<and> settlements (c_frame_max c) ch (reply @ bs) = [i_tag msg]"
proof -
  have bs: "whole (c_frame_max c) bs \<and> settlements (c_frame_max c) ch bs = [i_tag msg]"
    using assms(1) settlement_read by (cases oc) (auto simp: settles_def)
  have "whole (c_frame_max c) reply \<and> settlements (c_frame_max c) ch reply = []"
  proof (cases "reply = []")
    case False
    then obtain out t w c1 where o: "oc = Reply out" and wr: "writes c reply c1"
      and p: "basic_publish_begin ch out [] t (Some (reply_props msg)) False None (Some False) False c = Some (Inr w, c1)"
      using assms(1) by (auto simp: settles_def split: outcome.splits option.splits)
    obtain tf where w: "w = AwaitConfirm tf" using unconfirmed_awaits_nothing[OF p] by blast
    obtain o1 where "writes c o1 c1" "whole (c_frame_max c) o1" "settlements (c_frame_max c) ch o1 = []"
      using sent_publish_settles_nothing[OF p[unfolded w]] assms(2) o by blast
    then show ?thesis using wr by (simp add: writes_def)
  qed simp
  with bs show ?thesis by (simp add: settlements_append)
qed

interpretation rpc_consumer: message_consumer "server_handle jwt auth handler ch" "\<lambda>c. c" ch for jwt auth handler ch
proof
  fix msg c c' assume h: "server_handle jwt auth handler ch msg c = Some (Inr (), c')"
  then obtain oc where oc: "server_process jwt auth handler msg = Inr oc" "server_settle ch msg oc c = Some (Inr (), c')"
    by (auto simp: server_handle_def split: sum.splits)
  obtain reply bs where w: "writes c (reply @ bs) c'" "settles ch msg oc c reply bs" using server_settle_writes[OF oc(2)] by blast
  moreover have "\<forall>b. oc = Reply b \<longrightarrow> b \<noteq> []" using oc(1) reply_not_empty by blast
  ultimately show "\<exists>out. writes c out c' \<and> whole (c_frame_max c) out \<and> settlements (c_frame_max c) ch out = [i_tag msg]"
    using settles_settles_once by blast
qed

text \<open>
  C12. A delivery is settled exactly once. Handling a message always ends, and when it returns
  normally what it has written is the reply, if there is one and somebody to send it to, followed by
  exactly one acknowledgement with the delivery tag of the message; or, when the handler asked for
  it, one negative acknowledgement and no reply. A request that fails authorization is answered
  in the same way whatever the handler would do.\<close>

theorem delivery_settled_once:
  "(\<exists>r c'. server_handle jwt auth handler ch msg c = Some (r, c')) \<and>
   (\<forall>c'. server_handle jwt auth handler ch msg c = Some (Inr (), c') \<longrightarrow>
     (\<exists>oc reply bs. server_process jwt auth handler msg = Inr oc \<and> writes c (reply @ bs) c' \<and>
        (case oc of
           Nack requeue \<Rightarrow> reply = [] \<and> method_bytes (c_frame_max c) ch (nack_method (i_tag msg) requeue) = Inr bs
         | Reply out \<Rightarrow>
             method_bytes (c_frame_max c) ch (ack_method (i_tag msg)) = Inr bs \<and>
             (case reply_target msg of
                None \<Rightarrow> reply = []
              | Some r \<Rightarrow> (\<exists>w c1. writes c reply c1 \<and>
                  basic_publish_begin ch out [] r (Some (reply_props msg)) False None (Some False) False c = Some (Inr w, c1)))))) \<and>
   (\<forall>a m p rid e h. auth = Some a \<and> decode_request (i_body msg) = Inr (m, p, rid) \<and>
      (corr_of msg = None \<or> corr_of msg = Some rid) \<and> verify_request jwt a m p rid (i_props msg) = Inl e \<longrightarrow>
      server_handle jwt auth handler ch msg c = server_handle jwt auth h ch msg c)"
proof -
  have "\<exists>oc reply bs. server_process jwt auth handler msg = Inr oc \<and> writes c (reply @ bs) c' \<and> settles ch msg oc c reply bs"
    if "server_handle jwt auth handler ch msg c = Some (Inr (), c')" for c'
    using that server_settle_writes by (fastforce simp: server_handle_def split: sum.splits)
  moreover have "server_handle jwt auth handler ch msg c = server_handle jwt auth h ch msg c"
    if "auth = Some a \<and> decode_request (i_body msg) = Inr (m, p, rid) \<and>
      (corr_of msg = None \<or> corr_of msg = Some rid) \<and> verify_request jwt a m p rid (i_props msg) = Inl e" for a m p rid e h
    using that unauthorised_ignores_handler[of msg m p rid jwt a e handler h] by (simp add: server_handle_def)
  ultimately show ?thesis using server_handle_total unfolding settles_def by blast
qed

text \<open>
  While the broker blocks the connection a reply raises a \<open>ConnectionBlockedError\<close> out of the handling
  of the message, which ends the server's loop with the message neither answered nor settled.
\<close>

lemma blocked_reply_ends_server:
  assumes "server_process jwt auth handler msg = Inr (Reply out)" "reply_target msg = Some t"
    and "channel_open_for_ops ch c = (Inr (), c)" "c_blocked c"
  shows "\<exists>m. server_handle jwt auth handler ch msg c = Some (Inl (ConnectionBlockedError m), c)"
proof -
  have "publish_check ch None (Some (reply_props msg)) c =
      (Inl (ConnectionBlockedError ''connection.blocked - publish refused''), c)"
    using assms(3,4) by (simp add: publish_check_def seq_s_eval bind_s_eval op_simps)
  then show ?thesis using assms(1,2) by (simp add: server_handle_def server_settle_def basic_publish_begin_def)
qed

lemma sample_nack_bytes: "\<exists>bs. method_bytes 64 1 (nack_method 1 False) = Inr bs"
proof -
  have "\<exists>mp. encode_method (nack_method 1 False) = Inr mp \<and> length mp < 20"
    by (simp add: encode_method_def nack_method_def encode_args_def int_arg_def int_req_def dict_get_or_def
      dict_item_def bits_arg_def is_set_def byte_of_int_def to_bytes_def)
  then show ?thesis by (auto simp: method_bytes_def encode_frame_Inr FRAME_OVERHEAD_def)
qed

lemma sample_channel_open: "channel_open_for_ops 1 sample_conn = (Inr (), sample_conn)"
  by (simp add: channel_open_for_ops_def with_channel_def ch_assert_open_for_ops_def ch_is_open_def sample_conn_def conn_init_def)

lemma sample_nack: "\<exists>c'. basic_nack 1 1 False False True sample_conn = (Inr (), c')"
proof -
  obtain mp bs where m: "encode_method (nack_method 1 False) = Inr mp"
    "encode_frame \<lparr>frame_type = METHOD, channel = 1, payload = mp\<rparr> 64 = Inr bs"
    using sample_nack_bytes by (auto simp: method_bytes_def bind_r_Inr_iff)
  have "c_writer sample_conn" "c_frame_max sample_conn = 64"
    by (simp_all add: sample_conn_def conn_init_def sample_config_def)
  with m have "write_method 1 (nack_method 1 False) sample_conn = (Inr (), sample_conn\<lparr>c_out := c_out sample_conn @ bs\<rparr>)"
    by (simp add: write_method_def bind_s_eval op_simps write_frame_def)
  then show ?thesis
    using \<open>c_writer sample_conn\<close> unfolding basic_nack_def nack_method_def[symmetric]
    by (simp add: seq_s_def bind_s_def sample_channel_open when_s_eval drain_def)
qed

theorem delivery_settled_once_witness:
  "\<exists>q c' bs. server_handle sample_jwt None (\<lambda>_ _. Inl (NackDelivery False)) 1 (sample_request q) sample_conn = Some (Inr (), c') \<and>
     method_bytes 64 1 (nack_method 1 False) = Inr bs \<and> writes sample_conn bs c'"
proof -
  let ?h = "\<lambda>_ _. Inl (NackDelivery False) :: pyval res"
  obtain q where q: "encode_request [109] (VTuple [VInt 7, VNone]) [105] = Inr q" using sample_json(1) by blast
  have c: "corr_of (sample_request q) = Some [105]" by (simp add: corr_of_def sample_request_def dict_get_or_def)
  have d: "decode_request (i_body (sample_request q)) = Inr ([109], VList [VInt 7, VNone], [105])"
    using decode_request_encode[OF _ q] by (simp add: sample_request_def)
  have "server_try sample_jwt None ?h (sample_request q) = Inl (NackDelivery False)"
    using server_try_authorised[OF d c, of None] by simp
  then have p: "server_process sample_jwt None ?h (sample_request q) = Inr (Nack False)" by (simp add: server_process_def)
  obtain c' where "basic_nack 1 1 False False True sample_conn = (Inr (), c')" using sample_nack by blast
  then have h: "server_handle sample_jwt None ?h 1 (sample_request q) sample_conn = Some (Inr (), c')"
    unfolding server_handle_def p by (simp add: server_settle_def sample_request_def)
  have "c_frame_max sample_conn = 64" "i_tag (sample_request q) = 1"
    by (simp_all add: sample_conn_def conn_init_def sample_config_def sample_request_def)
  with delivery_settled_once[of sample_jwt None ?h 1 "sample_request q" sample_conn] h p
  obtain bs where "method_bytes 64 1 (nack_method 1 False) = Inr bs" "writes sample_conn bs c'" by auto
  with h show ?thesis by blast
qed

end
