(* ===== verification/Reconnect.thy ===== *)
theory Reconnect
  imports PyValues Complex_Main
begin

text \<open>
  \<^verbatim>\<open>src/src/nuropb_rmq/session/reconnect.py\<close>: the policy and the loop that drives a reconnect. What
  one attempt does to the state of the program, with everything else that runs while it waits, is an
  argument; the seconds slept are collected in a list.
\<close>

record reconnect_policy =
  rp_max_attempts :: int
  rp_initial_backoff :: real
  rp_max_backoff :: real
  rp_fail_outstanding :: bool

definition make_policy :: "reconnect_policy \<Rightarrow> reconnect_policy res" where
  "make_policy p =
     (if rp_max_attempts p < 1 then Inl (ValueError ''max_attempts must be >= 1'')
      else if rp_initial_backoff p < 0 \<or> rp_max_backoff p < 0 then Inl (ValueError ''backoff must be >= 0'')
      else Inr p)"

definition default_policy :: "bool \<Rightarrow> reconnect_policy" where
  "default_policy fail_outstanding =
     \<lparr>rp_max_attempts = 5, rp_initial_backoff = 5 / 100, rp_max_backoff = 2, rp_fail_outstanding = fail_outstanding\<rparr>"

text \<open>\<open>except Exception\<close> lets a cancellation through.\<close>

fun is_exception :: "py_exc \<Rightarrow> bool" where
  "is_exception CancelledError = False"
| "is_exception _ = True"

text \<open>The body of the loop for \<open>attempt\<close> and what follows it, with the delay it would sleep for.\<close>

function attempt_from ::
  "('s \<Rightarrow> unit res \<times> 's) \<Rightarrow> reconnect_policy \<Rightarrow> int \<Rightarrow> real \<Rightarrow> 's \<Rightarrow> unit res \<times> real list \<times> 's" where
  "attempt_from session_reconnect p attempt delay s =
     (case session_reconnect s of
        (Inr _, s1) \<Rightarrow> (Inr (), [], s1)
      | (Inl e, s1) \<Rightarrow>
          if \<not> is_exception e \<or> attempt \<ge> rp_max_attempts p then (Inl e, [], s1)
          else
            (case attempt_from session_reconnect p (attempt + 1) (min (delay * 2) (rp_max_backoff p)) s1 of
               (r, slept, s2) \<Rightarrow> (r, delay # slept, s2)))"
  by pat_completeness auto
termination by (relation "measure (\<lambda>(_, p, attempt, _). nat (rp_max_attempts p - attempt))") auto

declare attempt_from.simps [simp del]

definition coordinator_reconnect ::
  "('s \<Rightarrow> unit res \<times> 's) \<Rightarrow> reconnect_policy \<Rightarrow> 's \<Rightarrow> unit res \<times> real list \<times> 's" where
  "coordinator_reconnect session_reconnect p s = attempt_from session_reconnect p 1 (rp_initial_backoff p) s"

section \<open>The loop\<close>

text \<open>The state before the attempt that follows \<open>n\<close> failed ones.\<close>

definition after_attempts :: "('s \<Rightarrow> unit res \<times> 's) \<Rightarrow> nat \<Rightarrow> 's \<Rightarrow> 's" where
  "after_attempts f n s = ((snd \<circ> f) ^^ n) s"

lemma after_attempts_Suc: "after_attempts f (Suc n) s = after_attempts f n (snd (f s))"
  by (simp add: after_attempts_def funpow_swap1)

text \<open>The delay after \<open>i\<close> doublings.\<close>

definition backoff :: "reconnect_policy \<Rightarrow> real \<Rightarrow> nat \<Rightarrow> real" where
  "backoff p d i = (if i = 0 then d else min (d * 2 ^ i) (rp_max_backoff p))"

lemma backoff_Suc: "0 \<le> rp_max_backoff p \<Longrightarrow> backoff p (min (d * 2) (rp_max_backoff p)) i = backoff p d (Suc i)"
proof (cases "i = 0")
  case False
  assume m: "0 \<le> rp_max_backoff p"
  have "(1 :: real) \<le> 2 ^ i" by simp
  then have "rp_max_backoff p \<le> rp_max_backoff p * 2 ^ i" using m mult_left_mono[of 1 "2 ^ i" "rp_max_backoff p"] by simp
  moreover have "min (d * 2) (rp_max_backoff p) * 2 ^ i = min (d * 2 * 2 ^ i) (rp_max_backoff p * 2 ^ i)"
    by (simp add: min_mult_distrib_right)
  ultimately show ?thesis using False by (simp add: backoff_def mult.assoc)
qed (simp add: backoff_def)

lemma attempt_from_facts:
  assumes "attempt_from f p attempt delay s = (r, slept, s')" "0 \<le> rp_max_backoff p" "attempt \<le> rp_max_attempts p"
  shows "(\<forall>i < length slept. slept ! i = backoff p delay i)"
    "attempt + int (length slept) \<le> rp_max_attempts p"
    "\<forall>i < length slept. \<exists>e. fst (f (after_attempts f i s)) = Inl e \<and> is_exception e"
    "f (after_attempts f (length slept) s) = (r, s')"
    "\<forall>e. r = Inl e \<longrightarrow> \<not> is_exception e \<or> attempt + int (length slept) = rp_max_attempts p"
proof -
  have "(\<forall>i < length slept. slept ! i = backoff p delay i) \<and> attempt + int (length slept) \<le> rp_max_attempts p \<and>
    (\<forall>i < length slept. \<exists>e. fst (f (after_attempts f i s)) = Inl e \<and> is_exception e) \<and>
    f (after_attempts f (length slept) s) = (r, s') \<and>
    (\<forall>e. r = Inl e \<longrightarrow> \<not> is_exception e \<or> attempt + int (length slept) = rp_max_attempts p)"
    using assms
  proof (induction f p attempt delay s arbitrary: r slept s' rule: attempt_from.induct)
    case (1 f p attempt delay s)
    obtain x s1 where x: "f s = (x, s1)" by force
    show ?case
    proof (cases x)
      case (Inr u)
      then show ?thesis using "1.prems" x by (auto simp: attempt_from.simps[of f] after_attempts_def)
    next
      case (Inl e)
      show ?thesis
      proof (cases "\<not> is_exception e \<or> attempt \<ge> rp_max_attempts p")
        case True
        then show ?thesis using "1.prems" x Inl by (auto simp: attempt_from.simps[of f] after_attempts_def)
      next
        case False
        obtain r1 sl s2 where rec: "attempt_from f p (attempt + 1) (min (delay * 2) (rp_max_backoff p)) s1 = (r1, sl, s2)"
          by (metis prod_cases3)
        have eq: "slept = delay # sl" "r = r1" "s' = s2"
          using "1.prems"(1) x Inl False rec by (auto simp: attempt_from.simps[of f])
        note IH = "1.IH"[OF x[symmetric] Inl False rec "1.prems"(2)]
        have s1: "snd (f s) = s1" by (simp add: x)
        have shift: "after_attempts f (Suc i) s = after_attempts f i s1" for i
          by (simp add: after_attempts_Suc s1)
        have "(\<forall>i < length (delay # sl). (delay # sl) ! i = backoff p delay i)"
          using IH False by (auto simp: less_Suc_eq_0_disj backoff_Suc[OF "1.prems"(2)] backoff_def[of p delay 0])
        moreover have "\<forall>i < length (delay # sl). \<exists>e. fst (f (after_attempts f i s)) = Inl e \<and> is_exception e"
          using IH False x Inl by (auto simp: less_Suc_eq_0_disj shift after_attempts_def[of f 0])
        ultimately show ?thesis using IH False by (auto simp: eq shift)
      qed
    qed
  qed
  then show "(\<forall>i < length slept. slept ! i = backoff p delay i)"
    "attempt + int (length slept) \<le> rp_max_attempts p"
    "\<forall>i < length slept. \<exists>e. fst (f (after_attempts f i s)) = Inl e \<and> is_exception e"
    "f (after_attempts f (length slept) s) = (r, s')"
    "\<forall>e. r = Inl e \<longrightarrow> \<not> is_exception e \<or> attempt + int (length slept) = rp_max_attempts p" by blast+
qed

text \<open>
  C21. Reconnecting ends. With a policy that exists, whatever an attempt does, the coordinator makes
  at least one and at most \<open>max_attempts\<close> attempts and stops at the first that succeeds or is
  cancelled, with its outcome; it gives up with the error of the last one only after all of them
  failed. Between them it sleeps for the initial delay and then twice as long each time, never
  longer than the maximal delay except that the first sleep is not capped.\<close>

theorem reconnect_ends:
  assumes "make_policy p = Inr p" "coordinator_reconnect f p s = (r, slept, s')"
  shows "int (length slept) < rp_max_attempts p \<and> f (after_attempts f (length slept) s) = (r, s') \<and>
    (\<forall>i < length slept. \<exists>e. fst (f (after_attempts f i s)) = Inl e \<and> is_exception e) \<and>
    (\<forall>e. r = Inl e \<longrightarrow> \<not> is_exception e \<or> int (length slept) + 1 = rp_max_attempts p) \<and>
    (\<forall>i < length slept. slept ! i =
       (if i = 0 then rp_initial_backoff p else min (rp_initial_backoff p * 2 ^ i) (rp_max_backoff p)))"
proof -
  have p: "0 \<le> rp_max_backoff p" "1 \<le> rp_max_attempts p"
    using assms(1) by (auto simp: make_policy_def split: if_splits)
  note facts = attempt_from_facts[OF assms(2)[unfolded coordinator_reconnect_def] p]
  show ?thesis
  proof (intro conjI)
    show "int (length slept) < rp_max_attempts p" using facts(2) by linarith
    show "\<forall>e. r = Inl e \<longrightarrow> \<not> is_exception e \<or> int (length slept) + 1 = rp_max_attempts p"
      using facts(5) by (simp add: add.commute)
  qed (use facts(1,3,4) in \<open>simp_all add: backoff_def\<close>)
qed

theorem reconnect_ends_witness:
  "coordinator_reconnect (\<lambda>n. (if n < 2 then Inl (OtherError ''refused'') else Inr (), n + 1)) (default_policy False) (0 :: nat) =
     (Inr (), [5 / 100, 1 / 10], 3)"
proof -
  let ?f = "\<lambda>n :: nat. (if n < 2 then Inl (OtherError ''refused'') else Inr () :: unit res, n + 1)"
  obtain r slept s' where c: "coordinator_reconnect ?f (default_policy False) 0 = (r, slept, s')" by (rule prod_cases3)
  have p: "make_policy (default_policy False) = Inr (default_policy False)" by (simp add: make_policy_def default_policy_def)
  note facts = reconnect_ends[OF p c]
  have a: "after_attempts ?f n 0 = n" for n by (induction n) (simp_all add: after_attempts_def)
  have dp: "rp_max_attempts (default_policy False) = 5" "rp_initial_backoff (default_policy False) = 5 / 100"
    "rp_max_backoff (default_policy False) = 2" by (simp_all add: default_policy_def)
  have f: "?f (length slept) = (r, s')" "\<And>i. i < length slept \<Longrightarrow> \<exists>e. fst (?f i) = Inl e"
    "\<And>e. r = Inl e \<Longrightarrow> \<not> is_exception e \<or> int (length slept) + 1 = 5"
    "\<And>i. i < length slept \<Longrightarrow> slept ! i = (if i = 0 then 5 / 100 else min (5 / 100 * 2 ^ i) 2)"
    using facts[unfolded a dp] by blast+
  have "\<not> 2 < length slept" using f(2)[of 2] by fastforce
  moreover have "\<not> length slept < 2"
  proof
    assume s: "length slept < 2"
    then have "r = Inl (OtherError ''refused'')" using f(1) by simp
    with f(3)[of "OtherError ''refused''"] s show False by simp
  qed
  ultimately have l: "length slept = 2" by simp
  then have "slept = [slept ! 0, slept ! 1]" by (cases slept; cases "tl slept") auto
  moreover have el: "slept ! 0 = 5 / 100" "slept ! 1 = 1 / 10" using f(4)[of 0] f(4)[of 1] l by simp_all
  ultimately have "slept = [5 / 100, 1 / 10]" by (simp only: el)
  moreover have "r = Inr ()" "s' = 3" using f(1) by (simp_all add: l)
  ultimately show ?thesis using c by blast
qed

end
