(* ===== verification/Session.thy ===== *)
theory Session
  imports ConnSteps Publishing Correlation Reconnect Errors
begin

text \<open>
  \<^verbatim>\<open>src/src/nuropb_rmq/session/session.py\<close>: a connection with its exclusive reply queue, the
  requests that wait for a reply and the publishes kept for a reconnect. The requests' futures live
  in the heap of the correlation table. An operation that awaits is cut there; \<open>conn_changed\<close> is what
  any operation of the connection does to its session, with the call of \<open>on_loss\<close> at the end of
  the operation in which the connection is lost.
\<close>

record parked =
  pk_exchange :: pystr
  pk_key :: pystr
  pk_body :: bytes
  pk_props :: pydict
  pk_profile :: "queue_profile option"
  pk_mandatory :: bool
  pk_confirm :: "bool option"

record session =
  ss_config :: conn_config
  ss_conn :: conn
  ss_corr :: "incoming corr"
  ss_broker_timeout :: bool
  ss_fallback :: "real option"
  ss_policy :: reconnect_policy
  ss_channel :: int
  ss_connection_id :: pystr
  ss_epoch :: nat
  ss_reply_queue :: "pystr option"
  ss_reply_task :: bool
  ss_started :: bool
  ss_loss_handled :: bool
  ss_parked :: "(pystr \<times> parked) list"
  ss_reconnecting :: bool

definition session_policy :: "bool option \<Rightarrow> reconnect_policy option \<Rightarrow> reconnect_policy res" where
  "session_policy fail_outstanding policy =
     (case policy of
        None \<Rightarrow> make_policy (default_policy (case fail_outstanding of None \<Rightarrow> False | Some b \<Rightarrow> b))
      | Some p \<Rightarrow>
          if fail_outstanding \<noteq> None \<and> fail_outstanding \<noteq> Some (rp_fail_outstanding p)
          then Inl (ValueError ''fail_outstanding does not match reconnect_policy.fail_outstanding'')
          else Inr p)"

definition session_init ::
  "conn_config \<Rightarrow> bool \<Rightarrow> real option \<Rightarrow> bool option \<Rightarrow> reconnect_policy option \<Rightarrow> pystr \<Rightarrow> session res" where
  "session_init cfg broker_timeout fallback fail_outstanding policy uuid =
     (if broker_timeout \<and> fallback \<noteq> None
      then Inl (ValueError ''client_fallback_timeout is mutually exclusive with broker_timeout=True'')
      else if \<not> broker_timeout \<and> fallback = None
      then Inl (ValueError ''client_fallback_timeout required when broker_timeout=False'')
      else
        bind_r (session_policy fail_outstanding policy) (\<lambda>p.
          Inr \<lparr>ss_config = cfg, ss_conn = conn_init cfg, ss_corr = ([], []), ss_broker_timeout = broker_timeout,
            ss_fallback = fallback, ss_policy = p, ss_channel = 1, ss_connection_id = uuid, ss_epoch = 0,
            ss_reply_queue = None, ss_reply_task = False, ss_started = False, ss_loss_handled = False,
            ss_parked = [], ss_reconnecting = False\<rparr>))"

definition reply_queue_open :: "session \<Rightarrow> bool" where
  "reply_queue_open s \<longleftrightarrow> ss_reply_queue s \<noteq> None \<and> ss_started s"

definition remember_publish :: "pystr \<Rightarrow> parked \<Rightarrow> session \<Rightarrow> session" where
  "remember_publish rid env s = s\<lparr>ss_parked := dict_set (ss_parked s) rid env\<rparr>"

definition forget_publish :: "pystr \<Rightarrow> session \<Rightarrow> session" where
  "forget_publish rid s = s\<lparr>ss_parked := dict_del (ss_parked s) rid\<rparr>"

section \<open>Losing the connection\<close>

definition connection_lost_error :: "py_exc option \<Rightarrow> py_exc" where
  "connection_lost_error exc =
     RpcError CONNECTION_LOST (S (case exc of None \<Rightarrow> ''connection lost'' | Some e \<Rightarrow> exc_text e))
       (make_error_data CONNECTION_LOST True None None) None"

definition fail_outstanding :: "py_exc option \<Rightarrow> session \<Rightarrow> session" where
  "fail_outstanding exc s =
     s\<lparr>ss_corr := corr_discard_all (Some (connection_lost_error exc)) (ss_corr s), ss_parked := []\<rparr>"

text \<open>\<open>_on_connection_lost\<close>, in a running event loop; a reconnect task that is not done is kept.\<close>

definition on_connection_lost :: "py_exc \<Rightarrow> session \<Rightarrow> session" where
  "on_connection_lost exc s =
     (if ss_loss_handled s then s
      else
        let s1 = s\<lparr>ss_loss_handled := True, ss_started := False, ss_reply_queue := None\<rparr> in
        if rp_fail_outstanding (ss_policy s) then fail_outstanding (Some exc) s1
        else s1\<lparr>ss_reconnecting := True\<rparr>)"

definition conn_changed :: "session \<Rightarrow> conn \<Rightarrow> session" where
  "conn_changed s c =
     (case (c_lost (ss_conn s), c_lost c) of
        (None, Some e) \<Rightarrow> on_connection_lost e (s\<lparr>ss_conn := c\<rparr>)
      | _ \<Rightarrow> s\<lparr>ss_conn := c\<rparr>)"

definition on_conn :: "'a cop \<Rightarrow> session \<Rightarrow> 'a res \<times> session" where
  "on_conn f s = (case f (ss_conn s) of (r, c) \<Rightarrow> (r, conn_changed s c))"

text \<open>What \<open>_park_reconnect\<close> does with the outcome of the coordinator.\<close>

definition park_reconnected :: "unit res \<Rightarrow> session \<Rightarrow> session" where
  "park_reconnected r s =
     (case r of
        Inr _ \<Rightarrow> s\<lparr>ss_reconnecting := False\<rparr>
      | Inl e \<Rightarrow> if is_exception e then fail_outstanding (Some e) (s\<lparr>ss_reconnecting := False\<rparr>)
                 else s\<lparr>ss_reconnecting := False\<rparr>)"

section \<open>Starting and closing\<close>

definition session_start_begin :: "session \<Rightarrow> session" where
  "session_start_begin s = s\<lparr>ss_loss_handled := False\<rparr>"

definition reply_queue_name :: "session \<Rightarrow> pystr" where
  "reply_queue_name s = S ''nr.reply.'' @ ss_connection_id s"

definition session_queue_begin :: "session \<Rightarrow> nat res \<times> session" where
  "session_queue_begin s = on_conn (queue_declare_begin (ss_channel s) (reply_queue_name s) False True True []) s"

definition session_queue_declared :: "pystr \<Rightarrow> session \<Rightarrow> nat res \<times> session" where
  "session_queue_declared queue s =
     on_conn (basic_consume_begin (ss_channel s) queue []) (s\<lparr>ss_reply_queue := Some queue\<rparr>)"

definition session_started :: "session \<Rightarrow> session" where
  "session_started s = s\<lparr>ss_started := True, ss_reply_task := True\<rparr>"

definition stop_reply_task :: "session \<Rightarrow> session" where
  "stop_reply_task s = s\<lparr>ss_reply_task := False\<rparr>"

text \<open>\<open>close\<close> and \<open>_teardown_for_reconnect\<close> up to the close of the connection.\<close>

definition session_close :: "session \<Rightarrow> session" where
  "session_close s =
     (stop_reply_task (s\<lparr>ss_started := False, ss_corr := corr_discard_all None (ss_corr s), ss_parked := [],
        ss_reconnecting := False\<rparr>))\<lparr>ss_reply_queue := None\<rparr>"

definition teardown_for_reconnect :: "session \<Rightarrow> session" where
  "teardown_for_reconnect s =
     (let s1 = s\<lparr>ss_started := False\<rparr>;
          s2 = (if rp_fail_outstanding (ss_policy s) then fail_outstanding None s1 else s1) in
      (stop_reply_task s2)\<lparr>ss_reply_queue := None\<rparr>)"

text \<open>\<open>reconnect\<close> under its lock: nothing to do, or the teardown; then, once closed, the new epoch.\<close>

definition reconnect_begin :: "session \<Rightarrow> session option" where
  "reconnect_begin s = (if reply_queue_open s then None else Some (teardown_for_reconnect s))"

definition new_epoch :: "pystr \<Rightarrow> session \<Rightarrow> session" where
  "new_epoch uuid s =
     session_start_begin (s\<lparr>ss_conn := conn_init (ss_config s), ss_connection_id := uuid, ss_epoch := ss_epoch s + 1\<rparr>)"

section \<open>Publishing again\<close>

definition republish_props :: "pystr option \<Rightarrow> pystr \<Rightarrow> parked \<Rightarrow> pydict" where
  "republish_props queue rid env =
     dict_set (dict_set (pk_props env) (S ''reply_to'') (case queue of None \<Rightarrow> VNone | Some q \<Rightarrow> VStr q))
       (S ''correlation_id'') (VStr rid)"

text \<open>
  One turn of the loop over the parked publishes, up to the first await; no await when the entry is
  skipped. A loss during an earlier turn has taken the reply queue away.
\<close>

definition republish_begin :: "pystr \<Rightarrow> parked \<Rightarrow> session \<Rightarrow> (publish_await option res \<times> session) option" where
  "republish_begin rid env s =
     (if \<not> corr_contains rid (ss_corr s) then Some (Inr None, forget_publish rid s)
      else
        (case basic_publish_begin (ss_channel s) (pk_body env) (pk_exchange env) (pk_key env)
                (Some (republish_props (ss_reply_queue s) rid env)) True (pk_profile env) (pk_confirm env) (pk_mandatory env) (ss_conn s) of
           None \<Rightarrow> None
         | Some (Inl e, c) \<Rightarrow> Some (Inl e, conn_changed s c)
         | Some (Inr a, c) \<Rightarrow> Some (Inr (Some a), conn_changed s c)))"

text \<open>
  The error of a publish as callers see it, if it is one of the three that are caught. Its data name
  the method when the caller knows it.
\<close>

fun publish_error :: "pystr \<Rightarrow> pystr option \<Rightarrow> py_exc \<Rightarrow> py_exc option" where
  "publish_error rid m (PublishReturned code t ex key body props) =
     Some (RpcError PUBLISH_RETURNED (S (exc_text (PublishReturned code t ex key body props)))
       (make_error_data PUBLISH_RETURNED True (Some rid) m) (Some rid))"
| "publish_error rid m (PublishNack tg mult) =
     Some (RpcError PUBLISH_NACK (S (exc_text (PublishNack tg mult))) (make_error_data PUBLISH_NACK True (Some rid) m) (Some rid))"
| "publish_error rid m (ConnectionBlockedError t) =
     Some (RpcError CONNECTION_BLOCKED (S t) (make_error_data CONNECTION_BLOCKED True (Some rid) m) (Some rid))"
| "publish_error rid m _ = None"

text \<open>An exception of a republish: caught and told to the caller, or raised.\<close>

definition republish_failed :: "pystr \<Rightarrow> py_exc \<Rightarrow> session \<Rightarrow> unit res \<times> session" where
  "republish_failed rid exc s =
     (case publish_error rid None exc of
        None \<Rightarrow> (Inl exc, s)
      | Some mapped \<Rightarrow>
          (Inr (), (forget_publish rid s)\<lparr>ss_corr := snd (corr_fail rid mapped (ss_corr s))\<rparr>))"

section \<open>Replies\<close>

definition on_reply :: "incoming \<Rightarrow> session \<Rightarrow> unit res \<times> session" where
  "on_reply msg s =
     (let s1 = (case dict_get (i_props msg) (S ''correlation_id'') of
                  Some (VStr cid) \<Rightarrow>
                    forget_publish cid (s\<lparr>ss_corr := snd (corr_resolve cid msg (ss_corr s))\<rparr>)
                | _ \<Rightarrow> s) in
      on_conn (basic_ack (ss_channel s) (i_tag msg) True) s1)"

text \<open>How \<open>_reply_loop\<close> ends on an exception.\<close>

definition reply_loop_ends :: "py_exc \<Rightarrow> session \<Rightarrow> session" where
  "reply_loop_ends exc s =
     (if \<not> is_exception exc then s
      else if is_connection_lost exc then on_connection_lost exc s
      else fail_outstanding (Some exc) s)"

text \<open>
  \<open>wait_reply\<close> when the client-side time-out strikes: \<open>wait_for\<close> has cancelled the future.
\<close>

definition wait_timed_out :: "pystr \<Rightarrow> nat \<Rightarrow> session \<Rightarrow> session" where
  "wait_timed_out rid fut s =
     (case ss_corr s of (d, h) \<Rightarrow>
        forget_publish rid (s\<lparr>ss_corr := snd (corr_fail rid TimeoutError (d, settle fut Cancelled h))\<rparr>))"

end
