(* ===== verification/RpcClient.thy ===== *)
theory RpcClient
  imports Session Envelope Context
begin

text \<open>
  \<open>RpcClient\<close> of \<^verbatim>\<open>src/src/nuropb_rmq/patterns/rpc.py\<close>: the stretches of \<open>request\<close> between its
  awaits, and a session with its clients as a transition system. The ids \<open>uuid4\<close> yields are the
  sequence \<open>gen\<close>, of which \<open>n\<close> have been used.
\<close>

section \<open>A request\<close>

definition request_register ::
  "(nat \<Rightarrow> pystr) \<Rightarrow> pyval \<Rightarrow> pystr \<Rightarrow> nat \<times> session \<Rightarrow> ((pystr \<times> nat) res \<times> nat \<times> session) option" where
  "request_register gen request_id method st = (case st of (n, s) \<Rightarrow>
     if \<not> reply_queue_open s then Some (Inl (RuntimeError ''session not started''), n, s)
     else
       (case corr_register gen request_id (n, ss_corr s) of
          None \<Rightarrow> None
        | Some (r, n', k) \<Rightarrow>
            Some ((case r of
                     Inl (InvalidIdError m) \<Rightarrow>
                       Inl (RpcError INVALID_ID (S m) (make_error_data INVALID_ID False None (Some method)) None)
                   | Inl (IdCollisionError m) \<Rightarrow>
                       Inl (RpcError ID_COLLISION (S m)
                         (make_error_data ID_COLLISION False (str_only request_id) (Some method)) None)
                   | _ \<Rightarrow> r),
              n', s\<lparr>ss_corr := k\<rparr>)))"

text \<open>The body and the properties.\<close>

definition request_message :: "pystr \<Rightarrow> pyval \<Rightarrow> pystr \<Rightarrow> pystr \<Rightarrow> pyval option \<Rightarrow> (bytes \<times> pydict) res" where
  "request_message method params rid reply_queue claims =
     bind_r (encode_request method params rid) (\<lambda>body.
       let props = [(S ''content_type'', VStr (S ''application/json'')), (S ''correlation_id'', VStr rid),
                    (S ''reply_to'', VStr reply_queue)] in
       case claims of
         None \<Rightarrow> Inr (body, props)
       | Some t \<Rightarrow> bind_r (attach_claims_headers props t) (\<lambda>p. Inr (body, p)))"

definition client_profile :: "queue_profile option \<Rightarrow> queue_profile res" where
  "client_profile profile =
     (case profile of Some p \<Rightarrow> Inr p | None \<Rightarrow> durable_at_least_once 60000 (S ''nr.dlx'') (S ''timeout'') 10)"

definition request_publish_begin ::
  "queue_profile \<Rightarrow> pystr \<Rightarrow> pystr \<Rightarrow> bytes \<Rightarrow> pydict \<Rightarrow> session \<Rightarrow> (publish_await res \<times> session) option" where
  "request_publish_begin profile exchange target body props s =
     (case basic_publish_begin (ss_channel s) body exchange target (Some props) True (Some profile) None True (ss_conn s) of
        None \<Rightarrow> None
      | Some (r, c) \<Rightarrow> Some (r, conn_changed s c))"

text \<open>The publish is confirmed.\<close>

definition request_published :: "queue_profile \<Rightarrow> pystr \<Rightarrow> pystr \<Rightarrow> pystr \<Rightarrow> bytes \<Rightarrow> pydict \<Rightarrow> session \<Rightarrow> session" where
  "request_published profile rid exchange target body props s =
     remember_publish rid \<lparr>pk_exchange = exchange, pk_key = target, pk_body = body, pk_props = props,
       pk_profile = Some profile, pk_mandatory = True, pk_confirm = None\<rparr> s"

text \<open>The publish raised: what the caller gets.\<close>

definition request_failed :: "pystr \<Rightarrow> pystr \<Rightarrow> py_exc \<Rightarrow> session \<Rightarrow> py_exc \<times> session" where
  "request_failed rid method exc s =
     (case publish_error rid (Some method) exc of
        None \<Rightarrow> (exc, s)
      | Some mapped \<Rightarrow> (mapped, forget_publish rid (s\<lparr>ss_corr := snd (corr_fail rid exc (ss_corr s))\<rparr>)))"

definition request_timeout :: "pystr \<Rightarrow> pystr \<Rightarrow> py_exc" where
  "request_timeout rid method =
     RpcError REQUEST_TIMEOUT (S ''request timed out'') (make_error_data REQUEST_TIMEOUT True (Some rid) (Some method)) (Some rid)"

definition request_timed_out :: "pystr \<Rightarrow> pystr \<Rightarrow> nat \<Rightarrow> session \<Rightarrow> py_exc \<times> session" where
  "request_timed_out rid method fut s = (request_timeout rid method, forget_publish rid (wait_timed_out rid fut s))"

text \<open>The future is done.\<close>

definition request_finish :: "pystr \<Rightarrow> pystr \<Rightarrow> nat \<Rightarrow> session \<Rightarrow> pyval res \<times> session" where
  "request_finish rid method fut s =
     (case snd (ss_corr s) ! fut of
        Result msg \<Rightarrow>
          ((if dict_get (i_props msg) (S ''correlation_id'') \<noteq> Some (VStr rid)
            then Inl (RpcError INVALID_ENVELOPE (S ''reply correlation_id mismatch'')
                   (make_error_data INVALID_ENVELOPE False (Some rid) (Some method)) (Some rid))
            else decode_response (i_body msg)), s)
      | Failed TimeoutError \<Rightarrow> (Inl (request_timeout rid method), forget_publish rid s)
      | Failed e \<Rightarrow> (Inl e, s)
      | Cancelled \<Rightarrow> (Inl CancelledError, s)
      | Pending \<Rightarrow> (Inl (Unmodelled ''still waiting''), s))"

section \<open>Runs of a session\<close>

inductive session_next :: "session \<Rightarrow> session \<Rightarrow> bool" where
  Conn: "conn_next (ss_conn s) c \<Longrightarrow> session_next s (conn_changed s c)"
| Start: "session_next s (session_start_begin s)"
| Declare: "session_queue_begin s = (r, s') \<Longrightarrow> session_next s s'"
| Declared: "session_queue_declared queue s = (r, s') \<Longrightarrow> session_next s s'"
| Started: "session_next s (session_started s)"
| Close: "session_next s (session_close s)"
| Reconnect: "reconnect_begin s = Some s' \<Longrightarrow> session_next s s'"
| Epoch: "session_next s (new_epoch uuid s)"
| Republish: "republish_begin rid env s = Some (a, s') \<Longrightarrow> session_next s s'"
| Republish_Failed: "republish_failed rid exc s = (u, s') \<Longrightarrow> session_next s s'"
| Parked: "session_next s (park_reconnected u s)"
| Reply: "on_reply msg s = (u, s') \<Longrightarrow> session_next s s'"
| Loop_Ends: "session_next s (reply_loop_ends exc s)"
| Register: "request_register gen request_id method (n, s) = Some (x, n', s') \<Longrightarrow> session_next s s'"
| Publish: "request_publish_begin profile exchange target body props s = Some (a, s') \<Longrightarrow> session_next s s'"
| Published: "session_next s (request_published profile rid exchange target body props s)"
| Failed: "request_failed rid method exc s = (e, s') \<Longrightarrow> session_next s s'"
| Timed_Out: "dict_get (fst (ss_corr s)) rid = Some fut \<Longrightarrow> request_timed_out rid method fut s = (e, s') \<Longrightarrow> session_next s s'"
| Finish: "request_finish rid method fut s = (v, s') \<Longrightarrow> session_next s s'"

section \<open>No request is forgotten\<close>

text \<open>The unfinished futures are exactly those an outstanding id leads to.\<close>

definition corr_live :: "'v corr \<Rightarrow> bool" where
  "corr_live k \<longleftrightarrow> corr_ok k \<and> (\<forall>i < length (snd k). snd k ! i = Pending \<longleftrightarrow> (\<exists>rid. dict_get (fst k) rid = Some i))"

lemma corr_live_init: "corr_live ([], [])"
  by (simp add: corr_live_def corr_ok_def)

lemma corr_live_pop:
  assumes "corr_live k" "r \<noteq> Pending"
  shows "corr_live (pop_settle rid r k)" "heap_le (snd k) (snd (pop_settle rid r k))"
proof -
  have ok: "corr_ok k" using assms(1) by (simp add: corr_live_def)
  then have tv: "table_valid (fst k) (snd k)" by (simp add: corr_ok_def)
  show "heap_le (snd k) (snd (pop_settle rid r k))" using pops.heap_le_resolve[OF tv] by blast
  have ok': "corr_ok (pop_settle rid r k)" using pops.valid_resolve[OF tv] by (simp add: corr_ok_def)
  have e: "dict_get (fst (pop_settle rid r k)) = (dict_get (fst k))(rid := None)" using pops.entry_resolve[OF tv] by blast
  have f: "snd (pop_settle rid r k) = (case dict_get (fst k) rid of None \<Rightarrow> snd k | Some i \<Rightarrow> settle i r (snd k))"
    using pops.futures_resolve[OF tv] by blast
  show "corr_live (pop_settle rid r k)"
  proof (cases "dict_get (fst k) rid")
    case None
    then have "(dict_get (fst k))(rid := None) = dict_get (fst k)" by auto
    then show ?thesis using assms(1) ok' by (simp add: corr_live_def e f None)
  next
    case (Some j)
    have other: "dict_get (fst k) q = Some j \<Longrightarrow> q = rid" for q using corr_inj[OF ok _ Some] by blast
    have "snd (pop_settle rid r k) ! i = Pending \<longleftrightarrow> (\<exists>q. ((dict_get (fst k))(rid := None)) q = Some i)"
      if i: "i < length (snd k)" for i
    proof (cases "i = j")
      case True
      have "snd k ! j = Pending" using assms(1) Some i True by (auto simp: corr_live_def)
      then show ?thesis using i True assms(2) other by (auto simp: f Some nth_settle)
    next
      case False
      then have "snd (pop_settle rid r k) ! i = snd k ! i" by (simp add: f Some)
      moreover have "((dict_get (fst k))(rid := None)) q = Some i \<longleftrightarrow> dict_get (fst k) q = Some i" for q
        using Some False by auto
      ultimately show ?thesis using assms(1) i by (simp add: corr_live_def)
    qed
    then show ?thesis using ok' by (simp add: corr_live_def e f Some)
  qed
qed

lemma corr_live_add:
  assumes "corr_live k" "\<not> corr_contains rid k"
  shows "corr_live (snd (corr_add rid k))"
proof -
  obtain d h where k: "k = (d, h)" by force
  have ok: "corr_ok (snd (corr_add rid k))" using corr_add_ok[of k rid] assms by (simp add: corr_live_def)
  have n: "dict_get d rid = None" using assms(2) by (simp add: k corr_contains_def dict_has_def)
  have b: "dict_get d q = Some i \<Longrightarrow> i < length h" for q i
    using assms(1) corr_bound[of k q i] by (auto simp: corr_live_def k)
  have "((h @ [Pending]) ! i = Pending) = (\<exists>q. ((dict_get d)(rid \<mapsto> length h)) q = Some i)" if "i < Suc (length h)" for i
  proof (cases "i = length h")
    case False
    then have i: "i < length h" using that by simp
    have "((dict_get d)(rid \<mapsto> length h)) q = Some i \<longleftrightarrow> dict_get d q = Some i" for q using i n by auto
    then show ?thesis using assms(1) i by (simp add: corr_live_def k nth_append)
  qed auto
  then show ?thesis using ok by (simp add: corr_live_def k corr_add_eq)
qed

lemma corr_live_discard:
  assumes "corr_live k"
  shows "corr_live (corr_discard_all e k)" "\<forall>i < length (snd (corr_discard_all e k)). snd (corr_discard_all e k) ! i \<noteq> Pending"
    "heap_le (snd k) (snd (corr_discard_all e k))"
proof -
  obtain d h where k: "k = (d, h)" by force
  have f: "snd (corr_discard_all e k) ! i \<noteq> Pending" if i: "i < length h" for i
  proof (cases "h ! i = Pending")
    case True
    then obtain rid where "dict_get d rid = Some i" using assms i unfolding corr_live_def k by auto
    then have "i \<in> snd ` set d" using corr_listed[of k rid i] by (simp add: k)
    then show ?thesis using i by (simp add: corr_discard_all_def k Let_def settle_list_nth)
  qed (use i in \<open>simp add: corr_discard_all_def k Let_def settle_list_nth\<close>)
  have l: "length (snd (corr_discard_all e k)) = length h" "fst (corr_discard_all e k) = []"
    by (simp_all add: corr_discard_all_def k Let_def)
  show "\<forall>i < length (snd (corr_discard_all e k)). snd (corr_discard_all e k) ! i \<noteq> Pending" using f l by simp
  show "corr_live (corr_discard_all e k)" using f l by (simp add: corr_live_def corr_ok_def)
  show "heap_le (snd k) (snd (corr_discard_all e k))"
    by (simp add: heap_le_def k corr_discard_all_def Let_def settle_list_nth)
qed

text \<open>What every step keeps.\<close>

definition corr_follows :: "session \<Rightarrow> session \<Rightarrow> bool" where
  "corr_follows s s' \<longleftrightarrow> (corr_live (ss_corr s) \<longrightarrow> corr_live (ss_corr s') \<and> heap_le (snd (ss_corr s)) (snd (ss_corr s')))"

lemma follows_same [simp]: "ss_corr s' = ss_corr s \<Longrightarrow> corr_follows s s'"
  by (simp add: corr_follows_def)

lemma follows_trans: "corr_follows a b \<Longrightarrow> corr_follows b c \<Longrightarrow> corr_follows a c"
  by (auto simp: corr_follows_def intro: heap_le_trans)

lemma follows_discard: "ss_corr s' = corr_discard_all e (ss_corr s) \<Longrightarrow> corr_follows s s'"
  unfolding corr_follows_def using corr_live_discard[of "ss_corr s"] by simp

lemma follows_pop: "ss_corr s' = pop_settle rid r (ss_corr s) \<Longrightarrow> r \<noteq> Pending \<Longrightarrow> corr_follows s s'"
  unfolding corr_follows_def using corr_live_pop[of "ss_corr s"] by simp

lemma corr_of_parts [simp]:
  "ss_corr (forget_publish rid s) = ss_corr s" "ss_corr (remember_publish rid env s) = ss_corr s"
  "ss_corr (fail_outstanding e s) = corr_discard_all (Some (connection_lost_error e)) (ss_corr s)"
  "ss_corr (stop_reply_task s) = ss_corr s"
  by (simp_all add: forget_publish_def remember_publish_def fail_outstanding_def stop_reply_task_def)

lemma on_connection_lost_follows: "corr_follows s (on_connection_lost e s)"
proof (cases "\<not> ss_loss_handled s \<and> rp_fail_outstanding (ss_policy s)")
  case True
  then show ?thesis by (intro follows_discard) (simp add: on_connection_lost_def Let_def)
next
  case False
  then show ?thesis by (intro follows_same) (auto simp: on_connection_lost_def Let_def)
qed

lemma conn_changed_follows: "corr_follows s (conn_changed s c)"
proof (cases "c_lost (ss_conn s)"; cases "c_lost c")
  fix e assume "c_lost (ss_conn s) = None" "c_lost c = Some e"
  then have "conn_changed s c = on_connection_lost e (s\<lparr>ss_conn := c\<rparr>)" by (simp add: conn_changed_def)
  then show ?thesis
    using on_connection_lost_follows[of "s\<lparr>ss_conn := c\<rparr>" e] follows_trans[of s "s\<lparr>ss_conn := c\<rparr>"] by simp
qed (auto simp: conn_changed_def)

lemma on_conn_follows: "on_conn f s = (r, s') \<Longrightarrow> corr_follows s s'"
  by (auto simp: on_conn_def conn_changed_follows split: prod.splits)

lemma register_follows:
  assumes "request_register gen request_id method (n, s) = Some (x, n', s')"
  shows "corr_follows s s'"
proof (cases "reply_queue_open s")
  case True
  then obtain r k where k: "corr_register gen request_id (n, ss_corr s) = Some (r, n', k)" "ss_corr s' = k"
    using assms by (auto simp: request_register_def split: option.splits)
  have "k = ss_corr s \<or> (\<exists>rid. \<not> corr_contains rid (ss_corr s) \<and> k = snd (corr_add rid (ss_corr s)))"
  proof (cases "request_id = VNone")
    case True
    then obtain rid m where f: "fresh_id gen (ss_corr s) n = Some (rid, m)" "k = snd (corr_add rid (ss_corr s))"
      using k(1) by (auto simp: corr_register_def split: option.splits prod.splits)
    from fresh_id_new[OF f(1)] f(2) show ?thesis by blast
  next
    case False
    then show ?thesis using k(1)
      by (cases "validate_id request_id") (auto simp: corr_register_def split: if_splits prod.splits)
  qed
  then consider "k = ss_corr s" | rid where "\<not> corr_contains rid (ss_corr s)" "k = snd (corr_add rid (ss_corr s))" by blast
  then show ?thesis
  proof cases
    case 2
    obtain d h where dh: "ss_corr s = (d, h)" by force
    show ?thesis
      using corr_live_add[OF _ 2(1)] by (auto simp: corr_follows_def k(2) 2(2) dh corr_add_eq)
  qed (simp add: k(2))
qed (use assms in \<open>simp add: request_register_def\<close>)

lemma failed_follows: "request_failed rid method exc s = (e, s') \<Longrightarrow> corr_follows s s'"
  by (cases "publish_error rid (Some method) exc")
    (auto simp: request_failed_def corr_fail_pops intro!: follows_pop[where rid = rid and r = "Failed exc"])

lemma republish_failed_follows: "republish_failed rid exc s = (u, s') \<Longrightarrow> corr_follows s s'"
  by (cases "publish_error rid None exc")
    (auto simp: republish_failed_def corr_fail_pops intro!: follows_pop)

lemma timed_out_follows:
  assumes "dict_get (fst (ss_corr s)) rid = Some fut" "request_timed_out rid method fut s = (e, s')"
  shows "corr_follows s s'"
proof -
  obtain d h where dh: "ss_corr s = (d, h)" by force
  have "ss_corr s' = pop_settle rid Cancelled (ss_corr s)"
    using assms by (auto simp: request_timed_out_def wait_timed_out_def dh corr_fail_pops pop_settle_def settle_twice)
  then show ?thesis by (rule follows_pop) simp
qed

lemma on_reply_follows: "on_reply msg s = (u, s') \<Longrightarrow> corr_follows s s'"
proof -
  assume r: "on_reply msg s = (u, s')"
  define s1 where "s1 = (case dict_get (i_props msg) (S ''correlation_id'') of
      Some (VStr cid) \<Rightarrow> forget_publish cid (s\<lparr>ss_corr := snd (corr_resolve cid msg (ss_corr s))\<rparr>) | _ \<Rightarrow> s)"
  have "corr_follows s s1"
    by (auto simp: s1_def corr_resolve_pops intro!: follows_pop split: option.split pyval.split)
  moreover have "corr_follows s1 s'" using r by (intro on_conn_follows) (simp add: on_reply_def s1_def Let_def)
  ultimately show ?thesis by (rule follows_trans)
qed

lemma republish_follows: "republish_begin rid env s = Some (a, s') \<Longrightarrow> corr_follows s s'"
  by (auto simp: republish_begin_def conn_changed_follows split: if_splits option.splits prod.splits sum.splits)

lemma session_next_follows: "session_next s s' \<Longrightarrow> corr_follows s s'"
proof (induction rule: session_next.induct)
  case (Parked s u)
  then show ?case
    by (cases u) (auto simp: park_reconnected_def intro!: follows_discard)
next
  case (Loop_Ends s exc)
  then show ?case
    by (auto simp: reply_loop_ends_def on_connection_lost_follows intro!: follows_discard)
next
  case (Close s)
  then show ?case by (intro follows_discard) (simp add: session_close_def)
next
  case (Reconnect s s')
  then show ?case
    by (cases "rp_fail_outstanding (ss_policy s)")
      (auto simp: reconnect_begin_def teardown_for_reconnect_def Let_def intro: follows_discard split: if_splits)
next
  case (Declared queue s r s')
  have "corr_follows (s\<lparr>ss_reply_queue := Some queue\<rparr>) s'"
    using Declared by (intro on_conn_follows) (simp add: session_queue_declared_def)
  moreover have "corr_follows s (s\<lparr>ss_reply_queue := Some queue\<rparr>)" by simp
  ultimately show ?case using follows_trans by blast
next
  case (Finish rid m fut s v s')
  then show ?case by (auto simp: request_finish_def split: fut.splits py_exc.splits)
qed (auto simp: conn_changed_follows session_start_begin_def session_queue_begin_def session_started_def new_epoch_def
    request_published_def request_publish_begin_def split: option.splits
    intro: on_conn_follows register_follows failed_follows republish_failed_follows timed_out_follows on_reply_follows
      republish_follows)

lemma session_run_follows: "session_next\<^sup>*\<^sup>* s s' \<Longrightarrow> corr_follows s s'"
  by (induction rule: rtranclp_induct) (auto intro: session_next_follows follows_trans)

lemma session_init_corr: "session_init cfg bt fb fo pol uuid = Inr s \<Longrightarrow> ss_corr s = ([], [])"
  by (auto simp: session_init_def bind_r_Inr_iff split: if_splits)

lemma session_live:
  assumes "session_init cfg bt fb fo pol uuid = Inr s0" "session_next\<^sup>*\<^sup>* s0 s"
  shows "corr_live (ss_corr s)"
proof -
  have "corr_live (ss_corr s0)" by (simp add: session_init_corr[OF assms(1)] corr_live_init)
  then show ?thesis using session_run_follows[OF assms(2)] by (simp add: corr_follows_def)
qed

text \<open>
  C6. No request is forgotten. In every state a session reaches, whatever its connection, its clients
  and its broker do and in whatever order, the unfinished futures are exactly those that exactly one
  outstanding id leads to; closing the session or failing what is outstanding finishes all of them,
  and a finished future keeps its result for good.\<close>

theorem no_request_is_forgotten:
  assumes "session_init cfg bt fb fo pol uuid = Inr s0" "session_next\<^sup>*\<^sup>* s0 s"
  shows "(\<forall>i < length (snd (ss_corr s)). snd (ss_corr s) ! i = Pending \<longleftrightarrow> (\<exists>!rid. dict_get (fst (ss_corr s)) rid = Some i)) \<and>
    (\<forall>i < length (snd (ss_corr s)). fut_done (snd (ss_corr (session_close s))) i \<and>
       (\<forall>exc. fut_done (snd (ss_corr (fail_outstanding exc s))) i)) \<and>
    (\<forall>s' i. session_next\<^sup>*\<^sup>* s s' \<and> fut_done (snd (ss_corr s)) i \<longrightarrow> snd (ss_corr s') ! i = snd (ss_corr s) ! i)"
proof -
  have l: "corr_live (ss_corr s)" by (rule session_live[OF assms])
  then have ok: "corr_ok (ss_corr s)" by (simp add: corr_live_def)
  have unique: "snd (ss_corr s) ! i = Pending \<longleftrightarrow> (\<exists>!rid. dict_get (fst (ss_corr s)) rid = Some i)"
    if "i < length (snd (ss_corr s))" for i
    using l that corr_inj[OF ok] unfolding corr_live_def by blast
  have finished: "fut_done (snd (corr_discard_all e (ss_corr s))) i" if "i < length (snd (ss_corr s))" for i e
  proof -
    have "length (snd (ss_corr s)) \<le> length (snd (corr_discard_all e (ss_corr s)))"
      using corr_live_discard(3)[OF l, of e] by (simp add: heap_le_def)
    then show ?thesis using corr_live_discard(2)[OF l, of e] that by (simp add: fut_done_def)
  qed
  have closed: "ss_corr (session_close s) = corr_discard_all None (ss_corr s)" by (simp add: session_close_def)
  have kept: "snd (ss_corr s') ! i = snd (ss_corr s) ! i"
    if "session_next\<^sup>*\<^sup>* s s'" "fut_done (snd (ss_corr s)) i" for s' i
    using session_run_follows[OF that(1)] l that(2) by (simp add: corr_follows_def heap_le_def fut_done_def)
  show ?thesis
    unfolding closed corr_of_parts using unique finished kept by blast
qed

section \<open>Losing the connection\<close>

text \<open>
  C9. A loss is answered by the policy, once. When the connection is lost the reply queue counts as
  gone at once. With fail-fast every outstanding request fails with a retryable CONNECTION_LOST that
  has the text of the loss, and nothing stays parked; with parking no request and no parked publish is
  touched and a reconnect is under way. A second report of the loss changes nothing. A parked
  publish whose request is still outstanding is then published again as it was, body, exchange,
  routing key and every property, except that it names the new reply queue and its own id; one whose
  request is over is dropped and nothing is published.\<close>

theorem loss_parks_or_fails:
  assumes "corr_live (ss_corr s)" "\<not> ss_loss_handled s" "c_lost (ss_conn s) = None" "c_lost c = Some e"
  shows "let s' = conn_changed s c in
    \<not> reply_queue_open s' \<and> (\<forall>e'. on_connection_lost e' s' = s') \<and>
    (if rp_fail_outstanding (ss_policy s)
     then ss_parked s' = [] \<and> fst (ss_corr s') = [] \<and> ss_reconnecting s' = ss_reconnecting s \<and>
       (\<forall>i < length (snd (ss_corr s)). snd (ss_corr s) ! i = Pending \<longrightarrow>
          snd (ss_corr s') ! i = Failed (RpcError CONNECTION_LOST (S (exc_text e))
            (Some [(S ''code_name'', VStr (S ''CONNECTION_LOST'')), (S ''retryable'', VBool True)]) None))
     else ss_corr s' = ss_corr s \<and> ss_parked s' = ss_parked s \<and> ss_reconnecting s' \<and>
       (\<forall>s2 rid env. ss_corr s2 = ss_corr s \<longrightarrow>
          republish_begin rid env s2 =
            (if dict_has (fst (ss_corr s)) rid
             then map_option (\<lambda>(r, d). (bind_r r (\<lambda>a. Inr (Some a)), conn_changed s2 d))
               (basic_publish_begin (ss_channel s2) (pk_body env) (pk_exchange env) (pk_key env)
                 (Some (republish_props (ss_reply_queue s2) rid env)) True (pk_profile env) (pk_confirm env) (pk_mandatory env) (ss_conn s2))
             else Some (Inr None, forget_publish rid s2)) \<and>
          (\<forall>queue k. dict_get (republish_props (Some queue) rid env) k =
             (if k = S ''correlation_id'' then Some (VStr rid) else if k = S ''reply_to'' then Some (VStr queue)
              else dict_get (pk_props env) k))))"
proof -
  let ?s1 = "s\<lparr>ss_conn := c, ss_loss_handled := True, ss_started := False, ss_reply_queue := None\<rparr>"
  have eq: "conn_changed s c =
      (if rp_fail_outstanding (ss_policy s) then fail_outstanding (Some e) ?s1 else ?s1\<lparr>ss_reconnecting := True\<rparr>)"
    using assms(2-4) by (simp add: conn_changed_def on_connection_lost_def Let_def)
  show ?thesis
  proof (cases "rp_fail_outstanding (ss_policy s)")
    case True
    obtain d h where dh: "ss_corr s = (d, h)" by force
    have p: "h ! i = Pending \<Longrightarrow> i < length h \<Longrightarrow> i \<in> snd ` set d" for i
      using assms(1) corr_listed[of "(d, h)"] by (auto simp: corr_live_def dh)
    have "snd (ss_corr (conn_changed s c)) ! i = Failed (RpcError CONNECTION_LOST (S (exc_text e))
        (Some [(S ''code_name'', VStr (S ''CONNECTION_LOST'')), (S ''retryable'', VBool True)]) None)"
      if "i < length h" "h ! i = Pending" for i
      using True that p[OF that(2,1)]
      by (simp add: eq fail_outstanding_def dh corr_discard_all_def Let_def settle_list_nth connection_lost_error_def
          make_error_data_eq dict_get_or_def code_names_def)
    moreover have "fst (ss_corr (conn_changed s c)) = []"
      using True by (simp add: eq fail_outstanding_def dh corr_discard_all_def Let_def)
    ultimately show ?thesis using True
      by (auto simp: Let_def eq fail_outstanding_def reply_queue_open_def on_connection_lost_def dh)
  next
    case False
    have r: "republish_begin rid env s2 =
            (if dict_has (fst (ss_corr s)) rid
             then map_option (\<lambda>(r, d). (bind_r r (\<lambda>a. Inr (Some a)), conn_changed s2 d))
               (basic_publish_begin (ss_channel s2) (pk_body env) (pk_exchange env) (pk_key env)
                 (Some (republish_props (ss_reply_queue s2) rid env)) True (pk_profile env) (pk_confirm env) (pk_mandatory env) (ss_conn s2))
             else Some (Inr None, forget_publish rid s2))" if "ss_corr s2 = ss_corr s" for s2 rid env
      using that by (auto simp: republish_begin_def corr_contains_def split: option.split sum.split prod.split)
    show ?thesis using False
      by (simp add: Let_def eq reply_queue_open_def on_connection_lost_def r republish_props_def)
  qed
qed

text \<open>
  What the table and the parked publishes are left with when a request goes wrong: an exception that
  is not one of the three that are caught leaves the id outstanding, and so does one of the encoder; a
  reply that comes before the confirm leaves a parked publish of an id nobody waits for.
\<close>

lemma lost_publish_keeps_id:
  assumes "corr_contains rid (ss_corr s)"
  shows "corr_contains rid (ss_corr (snd (request_failed rid m (ConnectionLost t) s)))"
  using assms by (simp add: request_failed_def)

lemma reply_before_confirm_parks:
  assumes "dict_get (i_props msg) (S ''correlation_id'') = Some (VStr rid)"
  shows "\<exists>env. dict_get (ss_parked (request_published p rid ex key body props s)) rid = Some env"
    "\<not> corr_contains rid (ss_corr (forget_publish rid (s\<lparr>ss_corr := snd (corr_resolve rid msg (ss_corr s))\<rparr>)))"
  by (auto simp: request_published_def remember_publish_def forget_publish_def corr_resolve_pops pop_settle_def
      corr_contains_def dict_has_def split: option.split prod.split)

section \<open>A session in use\<close>

definition sample_session_config :: conn_config where
  "sample_session_config = \<lparr>cfg_host = S ''localhost'', cfg_virtual_host = S ''/'', cfg_username = S ''guest'',
     cfg_password = S ''guest'', cfg_heartbeat = 60, cfg_frame_max = 64, cfg_tls = False,
     cfg_tls_profile = S ''tls-verify-full'', cfg_server_hostname = None, cfg_custom_sans = []\<rparr>"

definition fresh_session :: "bool \<Rightarrow> session" where
  "fresh_session fo = \<lparr>ss_config = sample_session_config, ss_conn = conn_init sample_session_config, ss_corr = ([], []),
     ss_broker_timeout = True, ss_fallback = None, ss_policy = default_policy fo, ss_channel = 1,
     ss_connection_id = [99], ss_epoch = 0, ss_reply_queue = None, ss_reply_task = False, ss_started = False,
     ss_loss_handled = False, ss_parked = [], ss_reconnecting = False\<rparr>"

definition waiting_session :: "bool \<Rightarrow> session" where
  "waiting_session fo = (fresh_session fo)\<lparr>ss_reply_queue := Some [114], ss_started := True, ss_reply_task := True,
     ss_corr := ([([105], 0)], [Pending])\<rparr>"

lemma fresh_session_init: "session_init sample_session_config True None (Some fo) None [99] = Inr (fresh_session fo)"
  by (simp add: session_init_def session_policy_def make_policy_def default_policy_def fresh_session_def)

lemma waiting_session_run: "session_next\<^sup>*\<^sup>* (fresh_session fo) (waiting_session fo)"
proof -
  let ?s1 = "(fresh_session fo)\<lparr>ss_reply_queue := Some [114]\<rparr>"
  have "\<exists>r. session_queue_declared [114] (fresh_session fo) = (r, ?s1)"
    by (simp add: session_queue_declared_def on_conn_def basic_consume_begin_def request_def channel_open_for_ops_def
        with_channel_def seq_s_def bind_s_def conn_init_def fresh_session_def conn_changed_def)
  then have 1: "session_next (fresh_session fo) ?s1" by (blast intro: session_next.Declared)
  have 2: "session_next ?s1 (session_started ?s1)" by (rule session_next.Started)
  have "utf8_encode [105] = Inr [105]" by (simp add: utf8_ascii)
  then have "\<exists>x n'. request_register (\<lambda>_. []) (VStr [105]) [109] (0, session_started ?s1) = Some (x, n', waiting_session fo)"
    by (simp add: request_register_def reply_queue_open_def session_started_def fresh_session_def waiting_session_def
        corr_register_def validate_id_def safe_id_match_def safe_char_def at_dollar_def corr_contains_def dict_has_def
        corr_add_eq)
  then have 3: "session_next (session_started ?s1) (waiting_session fo)" by (blast intro: session_next.Register)
  from 1 2 3 show ?thesis by (meson converse_rtranclp_into_rtranclp rtranclp.rtrancl_refl)
qed

theorem no_request_is_forgotten_witness:
  "fut_done (snd (ss_corr (session_close (waiting_session False)))) 0"
proof -
  have "0 < length (snd (ss_corr (waiting_session False)))" by (simp add: waiting_session_def)
  then show ?thesis
    using no_request_is_forgotten[OF fresh_session_init waiting_session_run] by blast
qed

theorem loss_parks_or_fails_witness:
  "snd (ss_corr (conn_changed (waiting_session True) (force_drop (conn_init sample_session_config)))) ! 0 =
     Failed (RpcError CONNECTION_LOST (S ''connection dropped'')
       (Some [(S ''code_name'', VStr (S ''CONNECTION_LOST'')), (S ''retryable'', VBool True)]) None)"
proof -
  have l: "corr_live (ss_corr (waiting_session True))" by (rule session_live[OF fresh_session_init waiting_session_run])
  have c: "c_lost (force_drop (conn_init sample_session_config)) = Some (ConnectionLost ''connection dropped'')"
    by (simp add: force_drop_def notify_loss_def conn_init_def as_lost_def fail_waiters_def Let_def)
  have s: "\<not> ss_loss_handled (waiting_session True)" "c_lost (ss_conn (waiting_session True)) = None"
    "rp_fail_outstanding (ss_policy (waiting_session True))" "ss_corr (waiting_session True) = ([([105], 0)], [Pending])"
    by (simp_all add: waiting_session_def fresh_session_def conn_init_def default_policy_def)
  show ?thesis using loss_parks_or_fails[OF l s(1,2) c] s(3,4) by (simp add: Let_def)
qed

end
