(* ===== verification/RpcCall.thy ===== *)
theory RpcCall
  imports RpcServer RpcClient
begin

text \<open>
  A call from end to end: a request as \<open>RpcClient\<close> publishes it, the broker between the two connections,
  the server, its reply and the future of the caller. The broker is not part of the program; what
  is used of it is that it delivers the header and the body of a publish as they were sent, the
  body cut into frames in any way, after a \<open>basic.deliver\<close> of its own.
\<close>

section \<open>The broker\<close>

text \<open>The content in a sequence of frames: the payload of the first header and the body after it.\<close>

definition published_content :: "frame list \<Rightarrow> (bytes \<times> bytes) option" where
  "published_content fs =
     (case dropWhile (\<lambda>f. frame_type f \<noteq> HEADER) fs of
        [] \<Rightarrow> None
      | hf # rest \<Rightarrow> Some (payload hf, concat (map payload (takeWhile (\<lambda>f. frame_type f = BODY) rest))))"

definition broker_relays :: "int \<Rightarrow> bytes \<Rightarrow> int \<Rightarrow> amqp_method \<Rightarrow> frame list \<Rightarrow> bool" where
  "broker_relays fm out ch m fs \<longleftrightarrow>
     (\<exists>dp hp ks. published_content (fst (drain_buffer fm out)) = Some (hp, concat ks) \<and> ks \<noteq> [] \<and> [] \<notin> set ks \<and>
        decode_method dp = Inr m \<and> m_class m = BASIC \<and> m_method m = BASIC_DELIVER \<and>
        fs = \<lparr>frame_type = METHOD, channel = ch, payload = dp\<rparr> # \<lparr>frame_type = HEADER, channel = ch, payload = hp\<rparr>
          # body_frames ch ks)"

text \<open>
  What one side wrote arrives as the message \<open>msg\<close> at the other: the reader handles the frames and
  \<open>receive\<close> returns the message.
\<close>

definition arrives :: "int \<Rightarrow> bytes \<Rightarrow> int \<Rightarrow> conn \<Rightarrow> incoming \<Rightarrow> conn \<Rightarrow> bool" where
  "arrives fm out ch c msg c' \<longleftrightarrow> c_deliveries c = [] \<and>
     (\<exists>m fs c1. broker_relays fm out ch m fs \<and> handle_frames fs c = (Inr (), c1) \<and> receive c1 = Some (Inr msg, c'))"

lemma published_content_publish:
  assumes "\<forall>f \<in> set gs. frame_type f \<noteq> BODY" "frame_type mf = METHOD" "frame_type hf = HEADER"
  shows "published_content (mf # hf # body_frames ch ks @ gs) = Some (payload hf, concat ks)"
proof -
  have "takeWhile (\<lambda>f. frame_type f = BODY) gs = []" using assms(1) by (cases gs) auto
  then show ?thesis using assms(2,3) by (simp add: published_content_def takeWhile_append o_def)
qed

lemma published_content_none:
  assumes "\<forall>f \<in> set fs. frame_type f = METHOD"
  shows "published_content fs = None"
proof -
  have "dropWhile (\<lambda>f. frame_type f \<noteq> HEADER) fs = []" using assms by (auto simp: dropWhile_eq_Nil_conv)
  then show ?thesis by (simp only: published_content_def list.case)
qed

text \<open>What was written with a body and properties arrives with that body and those properties.\<close>

lemma arrives_content:
  assumes "arrives fm (out @ rest) ch2 d msg d'"
    and "drain_buffer fm out = (\<lparr>frame_type = METHOD, channel = ch, payload = mp\<rparr>
          # \<lparr>frame_type = HEADER, channel = ch, payload = hp\<rparr> # body_frames ch ks, [], None)"
    and "drain_buffer fm rest = (gs, r, e)" "\<forall>f \<in> set gs. frame_type f \<noteq> BODY"
    and "encode_content_header BASIC (int (length (concat ks))) props = Inr hp" "props_ok basic_props props"
  shows "i_body msg = concat ks \<and> i_props msg = read_props basic_props props \<and> c_lost d' = None \<and>
    c_frame_max d' = c_frame_max d"
proof -
  obtain dp hp' ks' m d1 where c: "published_content (fst (drain_buffer fm (out @ rest))) = Some (hp', concat ks')"
    and k: "ks' \<noteq> []" "[] \<notin> set ks'"
    and m: "decode_method dp = Inr m" "m_class m = BASIC" "m_method m = BASIC_DELIVER"
    and h: "handle_frames (\<lparr>frame_type = METHOD, channel = ch2, payload = dp\<rparr>
        # \<lparr>frame_type = HEADER, channel = ch2, payload = hp'\<rparr> # body_frames ch2 ks') d = (Inr (), d1)"
    and r: "receive d1 = Some (Inr msg, d')" and n: "c_deliveries d = []"
    using assms(1) unfolding arrives_def broker_relays_def by auto
  have "hp' = hp" "concat ks' = concat ks"
    using c by (simp_all add: drain_more[OF assms(2,3)] published_content_publish[OF assms(4)])
  then have d1: "d1 = d\<lparr>c_deliveries := [Item (delivered m (concat ks) (read_props basic_props props))],
      c_pending := dict_del (c_pending d) ch2\<rparr>"
    using content_received[OF _ assms(6) k m, of hp' ch2 d] assms(5) h n by (metis append_Nil prod.inject)
  have "msg = delivered m (concat ks) (read_props basic_props props)" "c_lost d' = None" "c_frame_max d' = c_frame_max d"
    using r by (auto simp: receive_def receive_get_def d1 split: option.splits)
  then show ?thesis by (simp add: delivered_def)
qed

lemma arrives_content_some:
  assumes "arrives fm out ch d msg d'"
  shows "published_content (fst (drain_buffer fm out)) \<noteq> None"
  using assms by (auto simp: arrives_def broker_relays_def)

section \<open>What was sent\<close>

text \<open>A publish that was sent arrives as it was meant, whatever is written after it.\<close>

lemma sent_arrives:
  assumes "publish_sends ch body ex key props dr profile confirm mand c out c'" "body \<noteq> []"
    and "props_ok basic_props props"
    and "arrives (c_frame_max c') (out @ rest) ch2 d msg d'"
    and "drain_buffer (c_frame_max c') rest = (gs, r, e)" "\<forall>f \<in> set gs. frame_type f \<noteq> BODY"
  shows "i_body msg = body \<and> (\<exists>p. sent_as profile props p \<and> i_props msg = read_props basic_props p) \<and> c_lost d' = None \<and>
    c_frame_max d' = c_frame_max d"
proof -
  obtain p c1 where w: "publish_write ch body ex key mand (Some p) c1 = Some (Inr (), c')" "c_out c' = c_out c1 @ out"
    "sent_as profile props p"
    using publish_sends_written[OF assms(1)] by blast
  obtain o1 mp hp ks where o1: "c' = c1\<lparr>c_out := c_out c1 @ o1\<rparr>"
    and dr: "drain_buffer (c_frame_max c1) o1 = (\<lparr>frame_type = METHOD, channel = ch, payload = mp\<rparr>
      # \<lparr>frame_type = HEADER, channel = ch, payload = hp\<rparr> # body_frames ch ks, [], None)"
    and h: "encode_content_header BASIC (int (length body)) (case Some p of None \<Rightarrow> [] | Some d \<Rightarrow> d) = Inr hp"
    and ks: "concat ks = body" "[] \<notin> set ks" and "encode_method (publish_method ex key mand) = Inr mp"
    by (rule publish_write_frames[OF w(1) assms(2)])
  have "o1 = out" "c_frame_max c1 = c_frame_max c'" using o1 w(2) by simp_all
  moreover have "props_ok basic_props p"
    using assms(3) w(3) by (auto simp: sent_as_def props_ok_def basic_props_def split: if_splits)
  ultimately show ?thesis
    using arrives_content[OF assms(4) _ assms(5,6), of ch mp hp ks p] dr h ks w(3) by auto
qed

section \<open>The request\<close>

text \<open>The two properties that lead a call there and back.\<close>

lemma read_call_props:
  "dict_get (read_props basic_props props) (S ''correlation_id'') = dict_get props (S ''correlation_id'')"
  "dict_get (read_props basic_props props) (S ''reply_to'') = dict_get props (S ''reply_to'')"
proof -
  note d = basic_props_distinct
  have k: "map_of basic_props (S ''correlation_id'') = Some (10, PShort)" "map_of basic_props (S ''reply_to'') = Some (9, PShort)"
    by (simp_all add: basic_props_def S_def)
  have r: "map_option (prop_read PShort) x = x" for x by (cases x) simp_all
  show "dict_get (read_props basic_props props) (S ''correlation_id'') = dict_get props (S ''correlation_id'')"
    "dict_get (read_props basic_props props) (S ''reply_to'') = dict_get props (S ''reply_to'')"
    by (simp_all add: dict_get_read_props[OF d] k r)
qed

lemma sent_as_get:
  assumes "sent_as profile props p" "k \<noteq> S ''delivery_mode''"
  shows "dict_get p k = dict_get props k"
  using assms by (auto simp: sent_as_def split: if_splits)

lemma attach_sets_headers:
  "attach_claims_headers ps t = Inr props \<Longrightarrow> \<exists>v. props = dict_set ps (S ''headers'') v"
  by (auto simp: attach_claims_headers_def bind_r_Inr_iff split: pyval.splits if_splits)

lemma request_message_parts:
  assumes "request_message method params rid q claims = Inr (body, props)"
  shows "encode_request method params rid = Inr body" "dict_get props (S ''correlation_id'') = Some (VStr rid)"
    "dict_get props (S ''reply_to'') = Some (VStr q)"
proof -
  define ps where "ps = [(S ''content_type'', VStr (S ''application/json'')), (S ''correlation_id'', VStr rid), (S ''reply_to'', VStr q)]"
  have "encode_request method params rid = Inr body \<and> (props = ps \<or> (\<exists>v. props = dict_set ps (S ''headers'') v))"
    using assms unfolding request_message_def ps_def[symmetric]
    by (cases claims) (auto simp: bind_r_Inr_iff Let_def dest: attach_sets_headers)
  then show "encode_request method params rid = Inr body" "dict_get props (S ''correlation_id'') = Some (VStr rid)"
    "dict_get props (S ''reply_to'') = Some (VStr q)"
    by (auto simp: ps_def)
qed

section \<open>The reply\<close>

lemma reply_props_ok: "props_ok basic_props (reply_props msg)"
  by (auto simp: props_ok_def basic_props_def reply_props_def split: option.split)

text \<open>What a server wrote arrives: then it was a reply, with the id of the message.\<close>

lemma reply_arrives:
  assumes "server_handle jwt auth handler ch msg c = Some (Inr (), c')" "c_out c' = c_out c @ w"
    and "arrives (c_frame_max c) w ch2 d reply d'"
  shows "\<exists>b. server_process jwt auth handler msg = Inr (Reply b) \<and> i_body reply = b \<and>
    i_props reply = read_props basic_props (reply_props msg) \<and> c_lost d' = None"
proof -
  obtain oc where oc: "server_process jwt auth handler msg = Inr oc" and s: "server_settle ch msg oc c = Some (Inr (), c')"
    using assms(1) by (auto simp: server_handle_def split: sum.splits)
  obtain sent bs where wr: "writes c (sent @ bs) c'" and st: "settles ch msg oc c sent bs"
    using server_settle_writes[OF s] by blast
  have w: "w = sent @ bs" using wr assms(2) by (simp add: writes_def)
  have bs: "\<exists>m. method_bytes (c_frame_max c) ch m = Inr bs"
    using st unfolding settles_def by (cases oc) (simp, blast)+
  then obtain f where f: "drain_buffer (c_frame_max c) bs = ([f], [], None)" "frame_type f = METHOD"
    using drain_method_bytes by (metis frame.select_convs(1))
  have "sent \<noteq> []"
    using arrives_content_some[OF assms(3)] f published_content_none[of "[f]"] by (auto simp: w)
  then obtain b t where o: "oc = Reply b" and t: "reply_target msg = Some t"
    using st by (auto simp: settles_def split: outcome.splits option.splits)
  obtain x c1 where x: "writes c sent c1"
    "basic_publish_begin ch b [] t (Some (reply_props msg)) False None (Some False) False c = Some (Inr x, c1)"
    using st by (auto simp: settles_def o t)
  have "\<exists>tf. x = AwaitConfirm tf"
    by (rule unconfirmed_awaits_nothing[OF x(2)])
  then have ps: "publish_sends ch b [] t (reply_props msg) False None (Some False) False c sent c1"
    using x by (auto simp: publish_sends_def writes_def)
  have fm: "c_frame_max c1 = c_frame_max c" using x(1) by (simp add: writes_def)
  have "i_body reply = b \<and> (\<exists>p. sent_as None (reply_props msg) p \<and> i_props reply = read_props basic_props p) \<and> c_lost d' = None \<and>
      c_frame_max d' = c_frame_max d"
    using assms(3) f reply_not_empty[OF oc[unfolded o]]
    by (intro sent_arrives[OF ps _ reply_props_ok, where rest = bs and gs = "[f]" and r = "[]" and e = None])
      (simp_all add: fm w)
  then show ?thesis by (auto simp: oc o sent_as_def)
qed

lemma reply_props_corr:
  assumes "corr_of msg = Some rid" "rid \<noteq> []"
  shows "dict_get (reply_props msg) (S ''correlation_id'') = Some (VStr rid)"
  using assms by (simp add: reply_props_def)

section \<open>The future of the caller\<close>

lemma on_reply_settles:
  assumes "corr_live (ss_corr s)" "dict_get (fst (ss_corr s)) rid = Some fut"
    and "dict_get (i_props reply) (S ''correlation_id'') = Some (VStr rid)" "on_reply reply s = (r, s')"
  shows "snd (ss_corr s') ! fut = Result reply \<and> corr_live (ss_corr s') \<and> fut < length (snd (ss_corr s'))"
proof -
  let ?s = "forget_publish rid (s\<lparr>ss_corr := snd (corr_resolve rid reply (ss_corr s))\<rparr>)"
  have ok: "corr_ok (ss_corr s)" using assms(1) by (simp add: corr_live_def)
  have b: "fut < length (snd (ss_corr s))" by (rule corr_bound[OF ok assms(2)])
  have p: "snd (ss_corr s) ! fut = Pending" using assms(1,2) b by (auto simp: corr_live_def)
  have c: "ss_corr ?s = pop_settle rid (Result reply) (ss_corr s)" by (simp add: corr_resolve_pops)
  have live: "corr_live (ss_corr ?s)" unfolding c by (rule corr_live_pop(1)[OF assms(1)]) simp
  have res: "snd (ss_corr ?s) ! fut = Result reply" "length (snd (ss_corr ?s)) = length (snd (ss_corr s))"
    unfolding c by (simp_all add: corr_resolved_by[OF ok] assms(2) nth_settle b p)
  have "on_conn (basic_ack (ss_channel s) (i_tag reply) True) ?s = (r, s')"
    using assms(4) by (simp add: on_reply_def assms(3))
  then have "corr_live (ss_corr s') \<and> heap_le (snd (ss_corr ?s)) (snd (ss_corr s'))"
    using on_conn_follows[of _ ?s r s'] live unfolding corr_follows_def by blast
  then show ?thesis using res b by (auto simp: heap_le_def)
qed

text \<open>However long the caller is not scheduled, it then finishes with what the body says.\<close>

lemma request_finishes:
  assumes "corr_live (ss_corr s)" "dict_get (fst (ss_corr s)) rid = Some fut"
    and "dict_get (i_props reply) (S ''correlation_id'') = Some (VStr rid)" "on_reply reply s = (r, s1)"
    and "session_next\<^sup>*\<^sup>* s1 s2"
  shows "request_finish rid m fut s2 = (decode_response (i_body reply), s2)"
proof -
  note s1 = on_reply_settles[OF assms(1-4)]
  have "snd (ss_corr s2) ! fut = Result reply"
    using session_run_follows[OF assms(5)] s1 by (auto simp: corr_follows_def heap_le_def)
  then show ?thesis by (simp add: request_finish_def assms(3))
qed

section \<open>The call\<close>

lemma sent_call_answered:
  assumes "encode_request m params rid = Inr body" "dict_get props (S ''correlation_id'') = Some (VStr rid)"
    and "well_keyed params" "rid \<noteq> []" "props_ok basic_props props"
    and "publish_sends ch body exchange target props dr profile confirm mand c sent c'"
    and "arrives (c_frame_max c') sent sch d msg d'"
    and "\<forall>a. auth = Some a \<longrightarrow> (\<exists>v. verify_request jwt a m (json_norm params) rid (i_props msg) = Inr v)"
    and "keyed_outcome (handler m (json_norm params))"
    and "server_handle jwt auth handler sch msg d' = Some (Inr (), d'')" "c_out d'' = c_out d' @ answered"
    and "arrives (c_frame_max d') answered rch (ss_conn s) reply c''"
    and "corr_live (ss_corr s)" "dict_get (fst (ss_corr s)) rid = Some fut"
    and "on_reply reply (conn_changed s c'') = (r, s1)" "session_next\<^sup>*\<^sup>* s1 s2"
  shows "request_finish rid m fut s2 = (client_sees rid (handled handler m (json_norm params) rid), s2)"
proof -
  have e: "drain_buffer (c_frame_max c') [] = ([], [], None)"
    by (simp add: drain_buffer.simps[of _ "[]"] decode_frame_def)
  have "arrives (c_frame_max c') (sent @ []) sch d msg d'" using assms(7) by simp
  from sent_arrives[OF assms(6) request_body_not_empty[OF assms(1)] assms(5) this e]
  obtain p where p: "i_body msg = body" "sent_as profile props p" "i_props msg = read_props basic_props p" by auto
  have corr: "corr_of msg = Some rid"
    using assms(2) p by (simp add: corr_of_def dict_get_or_def read_call_props sent_as_get)
  obtain b where b: "server_process jwt auth handler msg = Inr (Reply b)" "i_body reply = b"
    "i_props reply = read_props basic_props (reply_props msg)" "c_lost c'' = None"
    using reply_arrives[OF assms(10-12)] by blast
  have out: "decode_response b = client_sees rid (handled handler m (json_norm params) rid)"
    by (rule outcome_read[OF _ assms(3) corr assms(8,9) b(1)]) (simp add: assms(1) p)
  have s: "ss_corr (conn_changed s c'') = ss_corr s" using b(4) by (simp add: conn_changed_def split: option.split)
  have id: "dict_get (i_props reply) (S ''correlation_id'') = Some (VStr rid)"
    by (simp add: b read_call_props reply_props_corr[OF corr assms(4)])
  show ?thesis
    using request_finishes[of "conn_changed s c''" rid fut reply r s1 s2 m] assms(13-16) id out s b(2) by simp
qed

text \<open>
  C1. A call is answered. A request is published, the broker delivers it to the server, the server
  handles it and what it writes is delivered back. Whatever else the client's session, its other callers
  and its broker do before and after the reply is taken, a request that is still outstanding
  then finishes with the outcome of the handler: its result, its \<open>RpcError\<close> with code, message and
  allowlisted data, or an internal error for anything else.\<close>

theorem call_is_answered:
  assumes "request_message m params rid q claims = Inr (body, props)" "well_keyed params" "rid \<noteq> []" "props_ok basic_props props"
    and "publish_sends ch body exchange target props True (Some profile) None True c sent c'"
    and "arrives (c_frame_max c') sent sch d msg d'"
    and "\<forall>a. auth = Some a \<longrightarrow> (\<exists>v. verify_request jwt a m (json_norm params) rid (i_props msg) = Inr v)"
    and "keyed_outcome (handler m (json_norm params))"
    and "server_handle jwt auth handler sch msg d' = Some (Inr (), d'')" "c_out d'' = c_out d' @ answered"
    and "arrives (c_frame_max d') answered rch (ss_conn s) reply c''"
    and "session_init cfg bt fb fo pol uuid = Inr s0" "session_next\<^sup>*\<^sup>* s0 s" "dict_get (fst (ss_corr s)) rid = Some fut"
    and "on_reply reply (conn_changed s c'') = (r, s1)" "session_next\<^sup>*\<^sup>* s1 s2"
  shows "request_finish rid m fut s2 = (client_sees rid (handled handler m (json_norm params) rid), s2)"
  by (rule sent_call_answered[OF request_message_parts(1,2)[OF assms(1)] assms(2-11) session_live[OF assms(12,13)] assms(14-16)])

section \<open>A call that is made\<close>

text \<open>On an open channel in confirm mode a message that fits is sent, and what was sent can arrive.\<close>

lemma publish_awaits_ok:
  assumes "channel_open_for_ops ch c = (Inr (), c)" "\<not> c_blocked c" "c_writer c" "0 \<le> ch" "ch \<le> 0xFFFF" "c_frame_max c < 2 ^ 32"
    and "dict_get (c_confirm c) ch = Some t" "enabled t"
    and "encode_method (publish_method ex key mand) = Inr mp"
    and "encode_content_header BASIC (int (length body)) (dict_set props (S ''delivery_mode'') (VInt (qp_delivery_mode p))) = Inr hp"
    and "dict_get props (S ''delivery_mode'') = None"
    and "FRAME_OVERHEAD + int (length mp) \<le> c_frame_max c" "FRAME_OVERHEAD + int (length hp) \<le> c_frame_max c"
  shows "\<exists>out c'. basic_publish_begin ch body ex key (Some props) True (Some p) None mand c =
      Some (Inr (AwaitConfirm (Some (next_tag t, length (c_cfuts c)))), c') \<and> c_out c' = c_out c @ out \<and>
    c_frame_max c' = c_frame_max c \<and> c_cfuts c' = c_cfuts c @ [Pending] \<and> c_lost c' = c_lost c \<and>
    c_return_by_tag c' = c_return_by_tag c"
proof -
  let ?d = "dict_set props (S ''delivery_mode'') (VInt (qp_delivery_mode p))"
  have a: "apply_publish_properties p (Some props) VNone = Inr ?d"
    by (simp add: apply_publish_properties_def dict_get_or_def assms(11) assert_delivery_mode_def)
  have chk: "publish_check ch (Some p) (Some props) c = (Inr (Some ?d), c)"
    by (simp add: publish_check_def seq_s_def bind_s_def op_simps assms(1,2) a)
  let ?tf = "Some (next_tag t, length (c_cfuts c))"
  obtain c1 where reg: "publish_register ch True mand c = (Inr ?tf, c1)" "c_writer c1" "c_frame_max c1 = c_frame_max c"
    "c_out c1 = c_out c" "c_cfuts c1 = c_cfuts c @ [Pending]" "c_lost c1 = c_lost c" "c_return_by_tag c1 = c_return_by_tag c"
    using assms(3,7,8) by (cases mand) (simp_all add: publish_register_def tracker_register_eq Let_def)
  obtain c2 where w: "publish_write ch body ex key mand (Some ?d) c1 = Some (Inr (), c2)"
    using publish_write_ok[of c1 ch ex key mand mp body "Some ?d" hp] assms reg by auto
  obtain out where out: "c2 = c1\<lparr>c_out := c_out c1 @ out\<rparr>" using publish_write_out[OF w] by blast
  have b: "publish_begin ch body ex key mand (Some ?d) True True c = Some (Inr ?tf, c2)"
    using reg(1,2) w out by (simp add: publish_begin_def seq_s_def bind_s_def when_s_eval op_simps drain_def)
  have want: "publish_wants (Some p) None (Some t)" by (simp add: publish_wants_def assms(8))
  have "basic_publish_begin ch body ex key (Some props) True (Some p) None mand c = Some (Inr (AwaitConfirm ?tf), c2)"
    by (simp add: basic_publish_begin_def chk assms(7) want publish_needs_select_def assms(8) b await_confirm_Inr)
  then show ?thesis using out reg by (intro exI[of _ out] exI[of _ c2]) simp
qed

lemma sent_can_arrive:
  assumes "publish_sends ch body ex key props dr profile confirm mand c out c'" "body \<noteq> []" "props_ok basic_props props"
    and "drain_buffer (c_frame_max c') rest = (gs, r, e)" "\<forall>f \<in> set gs. frame_type f \<noteq> BODY"
    and "c_deliveries d = []" "c_lost d = None"
  shows "\<exists>p. sent_as profile props p \<and> arrives (c_frame_max c') (out @ rest) peer d
    (delivered sample_deliver body (read_props basic_props p)) (d\<lparr>c_pending := dict_del (c_pending d) peer\<rparr>)"
proof -
  obtain p c1 where w: "publish_write ch body ex key mand (Some p) c1 = Some (Inr (), c')" "c_out c' = c_out c1 @ out"
    "sent_as profile props p"
    using publish_sends_written[OF assms(1)] by blast
  obtain o1 mp hp ks where o1: "c' = c1\<lparr>c_out := c_out c1 @ o1\<rparr>"
    and dr: "drain_buffer (c_frame_max c1) o1 = (\<lparr>frame_type = METHOD, channel = ch, payload = mp\<rparr>
      # \<lparr>frame_type = HEADER, channel = ch, payload = hp\<rparr> # body_frames ch ks, [], None)"
    and h: "encode_content_header BASIC (int (length body)) (case Some p of None \<Rightarrow> [] | Some d \<Rightarrow> d) = Inr hp"
    and ks: "concat ks = body" "[] \<notin> set ks"
    and "encode_method (publish_method ex key mand) = Inr mp"
    by (rule publish_write_frames[OF w(1) assms(2)])
  have o: "o1 = out" "c_frame_max c1 = c_frame_max c'" using o1 w(2) by simp_all
  have ok: "props_ok basic_props p"
    using assms(3) w(3) by (auto simp: sent_as_def props_ok_def basic_props_def split: if_splits)
  have m: "m_class sample_deliver = BASIC" "m_method sample_deliver = BASIC_DELIVER" by (simp_all add: sample_deliver_def)
  have ne: "ks \<noteq> []" using ks(1) assms(2) by auto
  let ?fs = "\<lparr>frame_type = METHOD, channel = peer, payload = deliver_payload\<rparr>
    # \<lparr>frame_type = HEADER, channel = peer, payload = hp\<rparr> # body_frames peer ks"
  let ?msg = "delivered sample_deliver body (read_props basic_props p)"
  have "published_content (fst (drain_buffer (c_frame_max c') (out @ rest))) = Some (hp, concat ks)"
    using drain_more[OF dr[unfolded o] assms(4)] published_content_publish[OF assms(5)] by simp
  then have "broker_relays (c_frame_max c') (out @ rest) peer sample_deliver ?fs"
    unfolding broker_relays_def using ne ks(2) sample_deliver_decoded m by blast
  moreover have "handle_frames ?fs d = (Inr (), d\<lparr>c_deliveries := [Item ?msg], c_pending := dict_del (c_pending d) peer\<rparr>)"
    using content_received[OF _ ok ne ks(2) sample_deliver_decoded m, of hp peer d] h ks(1) assms(6) by (metis append_Nil option.case(2))
  moreover have "receive (d\<lparr>c_deliveries := [Item ?msg], c_pending := dict_del (c_pending d) peer\<rparr>) =
      Some (Inr ?msg, d\<lparr>c_pending := dict_del (c_pending d) peer\<rparr>)"
    using assms(6,7) by (simp add: receive_def receive_get_def)
  ultimately have "arrives (c_frame_max c') (out @ rest) peer d ?msg (d\<lparr>c_pending := dict_del (c_pending d) peer\<rparr>)"
    using assms(6) unfolding arrives_def by blast
  then show ?thesis using w(3) by blast
qed

lemma sample_call_encodes:
  "\<exists>b. encode_request [109] (VTuple [VInt 7, VNone]) [105] = Inr b \<and> length b < 100"
  "\<exists>b. encode_result (VInt 7) [105] = Inr b \<and> length b < 100"
  "k < 0x80 \<Longrightarrow> \<exists>mp. encode_method (publish_method [] [k] mand) = Inr mp \<and> length mp < 20"
  "\<exists>mp. encode_method (ack_method 9) = Inr mp \<and> length mp < 20"
proof -
  show "\<exists>b. encode_request [109] (VTuple [VInt 7, VNone]) [105] = Inr b \<and> length b < 100"
    "\<exists>b. encode_result (VInt 7) [105] = Inr b \<and> length b < 100"
    by (simp_all add: encode_request_def encode_result_def dumps_utf8_def json_string_def escape_char_def int_text_def Let_def
      dec_digits.simps MAX_STR_DIGITS_def S_def utf8_ascii)
  show "k < 0x80 \<Longrightarrow> \<exists>mp. encode_method (publish_method [] [k] mand) = Inr mp \<and> length mp < 20"
    by (cases mand) (simp_all add: encode_method_def publish_method_def encode_args_def int_arg_def int_req_def short_arg_def
      dict_get_or_def encode_shortstr_def utf8_empty utf8_ascii bits_arg_def is_set_def byte_of_int_def to_bytes_def)
  show "\<exists>mp. encode_method (ack_method 9) = Inr mp \<and> length mp < 20"
    by (simp add: encode_method_def ack_method_def encode_args_def int_arg_def int_req_def dict_get_or_def
      dict_item_def bits_arg_def is_set_def byte_of_int_def to_bytes_def)
qed

definition call_props :: pydict where
  "call_props = [(S ''content_type'', VStr (S ''application/json'')), (S ''correlation_id'', VStr [105]), (S ''reply_to'', VStr [114])]"

lemma sample_headers_encode:
  "n < 100 \<Longrightarrow> \<exists>hp. encode_content_header BASIC (int n) (dict_set call_props (S ''delivery_mode'') (VInt 2)) = Inr hp \<and> length hp < 50"
  "n < 100 \<Longrightarrow> \<exists>hp. encode_content_header BASIC (int n)
     [(S ''content_type'', VStr (S ''application/json'')), (S ''correlation_id'', VStr [105])] = Inr hp \<and> length hp < 50"
  by (simp_all add: encode_content_header_def basic_props_def call_props_def encode_shortstr_def utf8_ascii byte_of_int_def
      to_bytes_def S_def)

lemma sample_conn_parts:
  "c_writer sample_conn" "c_frame_max sample_conn = 64" "\<not> c_blocked sample_conn" "c_deliveries sample_conn = []"
  "c_lost sample_conn = None" "c_pending sample_conn = []" "c_cfuts sample_conn = []" "c_return_by_tag sample_conn = []"
  "dict_get (c_confirm sample_conn) 1 = Some \<lparr>next_tag = 1, outstanding = [], enabled = True\<rparr>"
  by (simp_all add: sample_conn_def conn_init_def sample_config_def)

lemma sample_request_awaits:
  assumes "length body < 100" "qp_delivery_mode p = 2"
  shows "\<exists>out c'. basic_publish_begin 1 body [] [116] (Some call_props) True (Some p) None True sample_conn =
      Some (Inr (AwaitConfirm (Some (1, 0))), c') \<and> c_out c' = c_out sample_conn @ out \<and> c_frame_max c' = 64 \<and>
    c_cfuts c' = [Pending] \<and> c_lost c' = None \<and> c_return_by_tag c' = []"
proof -
  obtain mp where mp: "encode_method (publish_method [] [116] True) = Inr mp" "length mp < 20"
    using sample_call_encodes(3)[of 116 True] by auto
  obtain hp where hp: "encode_content_header BASIC (int (length body)) (dict_set call_props (S ''delivery_mode'') (VInt 2)) = Inr hp"
    "length hp < 50"
    using sample_headers_encode(1)[OF assms(1)] by blast
  have "dict_get call_props (S ''delivery_mode'') = None" by (simp add: call_props_def)
  from publish_awaits_ok[OF sample_channel_open sample_conn_parts(3,1) _ _ _ sample_conn_parts(9) _ mp(1) _ this, of body p hp]
  show ?thesis using mp(2) hp assms(2) by (simp add: sample_conn_parts FRAME_OVERHEAD_def)
qed

text \<open>The reply and its acknowledgement.\<close>

lemma sample_reply_written:
  assumes "length b < 100" "corr_of msg = Some [105]"
  shows "\<exists>out c1 c2. basic_publish_begin 1 b [] [114] (Some (reply_props msg)) False None (Some False) False sample_conn =
      Some (Inr (AwaitConfirm None), c1) \<and> c1 = sample_conn\<lparr>c_out := c_out sample_conn @ out\<rparr> \<and> basic_ack 1 9 True c1 = (Inr (), c2)"
proof -
  let ?ps = "reply_props msg"
  have ps: "?ps = [(S ''content_type'', VStr (S ''application/json'')), (S ''correlation_id'', VStr [105])]"
    by (simp add: reply_props_def assms(2))
  obtain mp where mp: "encode_method (publish_method [] [114] False) = Inr mp" "length mp < 20"
    using sample_call_encodes(3)[of 114 False] by auto
  obtain hp where hp: "encode_content_header BASIC (int (length b)) ?ps = Inr hp" "length hp < 50"
    using sample_headers_encode(2)[OF assms(1)] ps by auto
  obtain c1 where w: "publish_write 1 b [] [114] False (Some ?ps) sample_conn = Some (Inr (), c1)"
    using publish_write_ok[of sample_conn 1 "[]" "[114]" False mp b "Some ?ps" hp] mp hp
    by (auto simp: sample_conn_parts FRAME_OVERHEAD_def)
  obtain out where out: "c1 = sample_conn\<lparr>c_out := c_out sample_conn @ out\<rparr>" using publish_write_out[OF w] by blast
  have chk: "publish_check 1 None (Some ?ps) sample_conn = (Inr (Some ?ps), sample_conn)"
    by (simp add: publish_check_def seq_s_def bind_s_def op_simps sample_channel_open sample_conn_parts(3))
  have p: "basic_publish_begin 1 b [] [114] (Some ?ps) False None (Some False) False sample_conn = Some (Inr (AwaitConfirm None), c1)"
    by (simp add: basic_publish_begin_def chk publish_wants_def publish_needs_select_def publish_begin_def publish_register_def w
        seq_s_def bind_s_def when_s_eval op_simps await_confirm_Inr)
  obtain ap where ap: "encode_method (ack_method 9) = Inr ap" "length ap < 20" using sample_call_encodes(4) by blast
  then obtain ab where ab: "encode_frame \<lparr>frame_type = METHOD, channel = 1, payload = ap\<rparr> 64 = Inr ab"
    by (auto simp: encode_frame_Inr FRAME_OVERHEAD_def)
  have o: "channel_open_for_ops 1 c1 = (Inr (), c1)"
    by (simp add: out channel_open_for_ops_def with_channel_def ch_assert_open_for_ops_def ch_is_open_def sample_conn_def conn_init_def)
  have "\<exists>c2. basic_ack 1 9 True c1 = (Inr (), c2)"
    unfolding basic_ack_def ack_method_def[symmetric]
    by (simp add: seq_s_def bind_s_def o[unfolded out] write_method_def op_simps ap(1) write_frame_def ab out sample_conn_parts when_s_eval drain_def)
  then show ?thesis using p out by blast
qed

lemma sample_call_processed:
  assumes "encode_request [109] (VTuple [VInt 7, VNone]) [105] = Inr (i_body msg)" "corr_of msg = Some [105]"
  shows "\<exists>b. server_process sample_jwt None (\<lambda>_ _. Inr (VInt 7)) msg = Inr (Reply b) \<and> length b < 100"
proof -
  obtain b where b: "encode_result (VInt 7) [105] = Inr b" "length b < 100" using sample_call_encodes(2) by blast
  have "decode_request (i_body msg) = Inr ([109], VList [VInt 7, VNone], [105])"
    using decode_request_encode[OF _ assms(1)] by simp
  from server_try_authorised[OF this assms(2), of None] b show ?thesis by (simp add: server_process_def)
qed

text \<open>The server handles the message and its reply can arrive at a reader that waits.\<close>

lemma sample_call_handled:
  assumes "encode_request [109] (VTuple [VInt 7, VNone]) [105] = Inr (i_body msg)" "corr_of msg = Some [105]"
    and "reply_target msg = Some [114]" "i_tag msg = 9" "c_deliveries d = []" "c_lost d = None"
  shows "\<exists>c' w reply d'. server_handle sample_jwt None (\<lambda>_ _. Inr (VInt 7)) 1 msg sample_conn = Some (Inr (), c') \<and>
    c_out c' = c_out sample_conn @ w \<and> arrives 64 w 1 d reply d'"
proof -
  let ?h = "\<lambda>_ _. Inr (VInt 7) :: pyval res"
  obtain b where b: "server_process sample_jwt None ?h msg = Inr (Reply b)" "length b < 100"
    using sample_call_processed[OF assms(1,2)] by blast
  obtain out c1 c2 where p: "basic_publish_begin 1 b [] [114] (Some (reply_props msg)) False None (Some False) False sample_conn =
      Some (Inr (AwaitConfirm None), c1)" and c1: "c1 = sample_conn\<lparr>c_out := c_out sample_conn @ out\<rparr>"
    and a: "basic_ack 1 9 True c1 = (Inr (), c2)"
    using sample_reply_written[OF b(2) assms(2)] by blast
  have h: "server_handle sample_jwt None ?h 1 msg sample_conn = Some (Inr (), c2)"
    by (simp add: server_handle_def b(1) server_settle_def assms(3,4) p a)
  obtain bs where bs: "method_bytes (c_frame_max c1) 1 (ack_method 9) = Inr bs" "writes c1 bs c2"
    using settled_writes(1)[OF a] by blast
  have fm: "c_frame_max c1 = 64" by (simp add: c1 sample_conn_parts)
  obtain f where f: "drain_buffer 64 bs = ([f], [], None)" "frame_type f = METHOD"
    using drain_method_bytes[OF bs(1)] fm by (metis frame.select_convs(1))
  have s: "publish_sends 1 b [] [114] (reply_props msg) False None (Some False) False sample_conn out c1"
    using p c1 by (auto simp: publish_sends_def)
  obtain reply d' where "arrives 64 (out @ bs) 1 d reply d'"
    using sent_can_arrive[OF s reply_not_empty[OF b(1)] reply_props_ok, of bs "[f]" "[]" None d 1] f assms(5,6) fm by auto
  moreover have "c_out c2 = c_out sample_conn @ out @ bs" using bs(2) c1 by (simp add: writes_def)
  ultimately show ?thesis using h by blast
qed

lemma client_profile_exists: "\<exists>p. client_profile None = Inr p \<and> qp_delivery_mode p = 2"
  by (auto simp: client_profile_def durable_at_least_once_def make_profile_Inr post_init_def requires_dlx_def delivery_modes)

lemma sample_call_made:
  assumes "encode_request [109] (VTuple [VInt 7, VNone]) [105] = Inr body" "length body < 100" "qp_delivery_mode p = 2"
    and "c_deliveries d = []" "c_lost d = None"
  shows "\<exists>sent c' tf msg c2 w reply d'. basic_publish_begin 1 body [] [116] (Some call_props) True (Some p) None True sample_conn =
      Some (Inr (AwaitConfirm tf), c') \<and> c_out c' = c_out sample_conn @ sent \<and> c_lost c' = None \<and>
    arrives (c_frame_max c') sent 1 sample_conn msg sample_conn \<and>
    server_handle sample_jwt None (\<lambda>_ _. Inr (VInt 7)) 1 msg sample_conn = Some (Inr (), c2) \<and>
    c_out c2 = c_out sample_conn @ w \<and> arrives (c_frame_max sample_conn) w 1 d reply d'"
proof -
  have ok: "props_ok basic_props call_props" by (simp add: props_ok_def basic_props_def call_props_def)
  obtain sent c' tf where made: "basic_publish_begin 1 body [] [116] (Some call_props) True (Some p) None True sample_conn =
      Some (Inr (AwaitConfirm tf), c')" "c_out c' = c_out sample_conn @ sent" "c_lost c' = None"
    using sample_request_awaits[OF assms(2,3)] by auto
  then have sent: "publish_sends 1 body [] [116] call_props True (Some p) None True sample_conn sent c'"
    by (auto simp: publish_sends_def)
  have e: "drain_buffer (c_frame_max c') [] = ([], [], None)"
    by (simp add: drain_buffer.simps[of _ "[]"] decode_frame_def)
  obtain q where q: "sent_as (Some p) call_props q"
    and arr: "arrives (c_frame_max c') (sent @ []) 1 sample_conn (delivered sample_deliver body (read_props basic_props q))
      (sample_conn\<lparr>c_pending := dict_del (c_pending sample_conn) 1\<rparr>)"
    using sent_can_arrive[OF sent request_body_not_empty[OF assms(1)] ok e, of sample_conn 1] sample_conn_parts by auto
  let ?msg = "delivered sample_deliver body (read_props basic_props q)"
  have "sample_conn\<lparr>c_pending := dict_del (c_pending sample_conn) 1\<rparr> = sample_conn"
    by (simp add: sample_conn_parts dict_del_def)
  with arr have arr: "arrives (c_frame_max c') sent 1 sample_conn ?msg sample_conn" by simp
  have m: "i_body ?msg = body" "corr_of ?msg = Some [105]" "reply_target ?msg = Some [114]" "i_tag ?msg = 9"
    by (simp_all add: delivered_def corr_of_def reply_target_def dict_get_or_def read_call_props sent_as_get[OF q] call_props_def
        arg_int_def sample_deliver_def)
  show ?thesis
    using sample_call_handled[OF _ m(2-4) assms(4,5)] assms(1) m(1) made arr by (simp add: sample_conn_parts(2)) blast
qed

lemma sample_waiting: "dict_get (fst (ss_corr (waiting_session True))) [105] = Some 0"
  by (simp add: waiting_session_def)

lemma sample_outcome: "client_sees [105] (handled (\<lambda>_ _. Inr (VInt 7)) [109] v [105]) = Inr (VInt 7)"
  using sample_call_encodes(2) by (auto simp: handled_def)

theorem call_is_answered_witness:
  "\<exists>c'' r reply s1. on_reply reply (conn_changed (waiting_session True) c'') = (r, s1) \<and>
     request_finish [105] [109] 0 s1 = (Inr (VInt 7), s1)"
proof -
  let ?h = "\<lambda>_ _. Inr (VInt 7) :: pyval res" and ?params = "VTuple [VInt 7, VNone]"
  obtain p :: queue_profile where p: "qp_delivery_mode p = 2" using client_profile_exists by blast
  obtain body where body: "encode_request [109] ?params [105] = Inr body" "length body < 100" using sample_call_encodes(1) by blast
  have req: "request_message [109] ?params [105] [114] None = Inr (body, call_props)"
    by (simp add: request_message_def body(1) call_props_def)
  have ok: "props_ok basic_props call_props" by (simp add: props_ok_def basic_props_def call_props_def)
  have s: "c_deliveries (ss_conn (waiting_session True)) = []" "c_lost (ss_conn (waiting_session True)) = None"
    by (simp_all add: waiting_session_def fresh_session_def conn_init_def)
  obtain sent c' tf msg c2 w reply d' where made: "basic_publish_begin 1 body [] [116] (Some call_props) True (Some p) None True sample_conn =
      Some (Inr (AwaitConfirm tf), c')" "c_out c' = c_out sample_conn @ sent"
    and call:
    "arrives (c_frame_max c') sent 1 sample_conn msg sample_conn" "server_handle sample_jwt None ?h 1 msg sample_conn = Some (Inr (), c2)"
    "c_out c2 = c_out sample_conn @ w" "arrives (c_frame_max sample_conn) w 1 (ss_conn (waiting_session True)) reply d'"
    using sample_call_made[OF body p s] by blast
  then have sent: "publish_sends 1 body [] [116] call_props True (Some p) None True sample_conn sent c'"
    by (auto simp: publish_sends_def)
  obtain r s1 where r: "on_reply reply (conn_changed (waiting_session True) d') = (r, s1)" by force
  have "request_finish [105] [109] 0 s1 = (client_sees [105] (handled ?h [109] (json_norm ?params) [105]), s1)"
    by (rule call_is_answered[OF req _ _ ok sent call(1) _ _ call(2-4) fresh_session_init waiting_session_run sample_waiting r])
      (simp_all add: keyed_outcome_def)
  then show ?thesis using r by (auto simp: sample_outcome)
qed

end
