(* ===== verification/Republish.thy ===== *)
theory Republish
  imports RpcCall "HOL-Library.Sublist"
begin

text \<open>
  \<open>Session.reconnect\<close> and \<open>_republish_parked\<close> of \<^verbatim>\<open>src/src/nuropb_rmq/session/session.py\<close> from call to
  return, and the task that runs them after a loss. The relation \<open>others\<close> is what the
  other tasks and the broker do to the session while the operation is at an await: any relation
  will do, and what is needed of it is a hypothesis of the theorem that needs it. The list in
  \<open>republishes\<close> is the publishes that were made, with their outcomes.
\<close>

section \<open>Publishing one parked request\<close>

text \<open>\<open>basic_publish\<close> resumes when the future it awaits is done; without a confirm it does not wait.\<close>

definition confirm_done :: "(int \<times> nat) option \<Rightarrow> session \<Rightarrow> bool" where
  "confirm_done tf s = (case tf of None \<Rightarrow> True | Some (_, fut) \<Rightarrow> fut_done (c_cfuts (ss_conn s)) fut)"

definition republish_selected :: "parked \<Rightarrow> nat \<Rightarrow> pydict option \<Rightarrow> session \<Rightarrow> (publish_await res \<times> session) option" where
  "republish_selected env fut props s =
     (case basic_publish_selected (ss_channel s) fut (pk_body env) (pk_exchange env) (pk_key env) props True
             (pk_mandatory env) (ss_conn s) of
        None \<Rightarrow> None
      | Some (r, c) \<Rightarrow> Some (r, conn_changed s c))"

definition republish_end :: "parked \<Rightarrow> (int \<times> nat) option \<Rightarrow> session \<Rightarrow> unit res \<times> session" where
  "republish_end env tf s = on_conn (basic_publish_end (ss_channel s) tf (pk_mandatory env)) s"

text \<open>One turn of the loop up to the \<open>except\<close>; no outcome when the entry is skipped.\<close>

inductive publishes_again ::
  "(session \<Rightarrow> session \<Rightarrow> bool) \<Rightarrow> pystr \<Rightarrow> parked \<Rightarrow> session \<Rightarrow> unit res option \<Rightarrow> session \<Rightarrow> bool"
  for others where
  Skipped: "republish_begin rid env s = Some (Inr None, s') \<Longrightarrow> publishes_again others rid env s None s'"
| Raised: "republish_begin rid env s = Some (Inl e, s') \<Longrightarrow> publishes_again others rid env s (Some (Inl e)) s'"
| Confirmed: "republish_begin rid env s = Some (Inr (Some (AwaitConfirm tf)), s1) \<Longrightarrow> others s1 s2 \<Longrightarrow>
    confirm_done tf s2 \<Longrightarrow> republish_end env tf s2 = (v, s') \<Longrightarrow> publishes_again others rid env s (Some v) s'"
| Not_Selected: "republish_begin rid env s = Some (Inr (Some (AwaitSelect fut props)), s1) \<Longrightarrow> others s1 s2 \<Longrightarrow>
    fut_done (c_wfuts (ss_conn s2)) fut \<Longrightarrow> republish_selected env fut props s2 = Some (Inl e, s') \<Longrightarrow>
    publishes_again others rid env s (Some (Inl e)) s'"
| Selected: "republish_begin rid env s = Some (Inr (Some (AwaitSelect fut props)), s1) \<Longrightarrow> others s1 s2 \<Longrightarrow>
    fut_done (c_wfuts (ss_conn s2)) fut \<Longrightarrow> republish_selected env fut props s2 = Some (Inr (AwaitConfirm tf), s3) \<Longrightarrow>
    others s3 s4 \<Longrightarrow> confirm_done tf s4 \<Longrightarrow> republish_end env tf s4 = (v, s') \<Longrightarrow>
    publishes_again others rid env s (Some v) s'"

section \<open>The loop\<close>

inductive republishes ::
  "(session \<Rightarrow> session \<Rightarrow> bool) \<Rightarrow> (pystr \<times> parked) list \<Rightarrow> session \<Rightarrow> (pystr \<times> unit res) list \<Rightarrow> unit res \<Rightarrow> session \<Rightarrow> bool"
  for others where
  Done: "republishes others [] s [] (Inr ()) s"
| Skip: "publishes_again others rid env s None s1 \<Longrightarrow> republishes others items s1 made r s' \<Longrightarrow>
    republishes others ((rid, env) # items) s made r s'"
| Published: "publishes_again others rid env s (Some (Inr ())) s1 \<Longrightarrow> republishes others items s1 made r s' \<Longrightarrow>
    republishes others ((rid, env) # items) s ((rid, Inr ()) # made) r s'"
| Caught: "publishes_again others rid env s (Some (Inl e)) s1 \<Longrightarrow> republish_failed rid e s1 = (Inr (), s2) \<Longrightarrow>
    republishes others items s2 made r s' \<Longrightarrow> republishes others ((rid, env) # items) s ((rid, Inl e) # made) r s'"
| Raised: "publishes_again others rid env s (Some (Inl e)) s1 \<Longrightarrow> republish_failed rid e s1 = (Inl e', s') \<Longrightarrow>
    republishes others ((rid, env) # items) s [(rid, Inl e)] (Inl e') s'"

text \<open>\<open>_republish_parked\<close> loops over a copy of what is parked.\<close>

inductive republishes_parked ::
  "(session \<Rightarrow> session \<Rightarrow> bool) \<Rightarrow> session \<Rightarrow> (pystr \<times> unit res) list \<Rightarrow> unit res \<Rightarrow> session \<Rightarrow> bool"
  for others where
  No_Queue: "ss_reply_queue s = None \<Longrightarrow> republishes_parked others s [] (Inr ()) s"
| Loop: "ss_reply_queue s \<noteq> None \<Longrightarrow> republishes others (ss_parked s) s made r s' \<Longrightarrow> republishes_parked others s made r s'"

section \<open>A reconnect\<close>

text \<open>\<open>start\<close> after its first lines; connecting and opening the channel are the first await.\<close>

inductive session_starts :: "(session \<Rightarrow> session \<Rightarrow> bool) \<Rightarrow> session \<Rightarrow> unit res \<Rightarrow> session \<Rightarrow> bool"
  for others where
  Not_Connected: "others s s1 \<Longrightarrow> session_starts others s (Inl e) s1"
| Not_Sent: "others s s1 \<Longrightarrow> session_queue_begin s1 = (Inl e, s2) \<Longrightarrow> session_starts others s (Inl e) s2"
| Not_Declared: "others s s1 \<Longrightarrow> session_queue_begin s1 = (Inr fut, s2) \<Longrightarrow> others s2 s3 \<Longrightarrow> session_starts others s (Inl e) s3"
| Not_Asked: "others s s1 \<Longrightarrow> session_queue_begin s1 = (Inr fut, s2) \<Longrightarrow> others s2 s3 \<Longrightarrow>
    session_queue_declared queue s3 = (Inl e, s4) \<Longrightarrow> session_starts others s (Inl e) s4"
| Not_Consuming: "others s s1 \<Longrightarrow> session_queue_begin s1 = (Inr fut, s2) \<Longrightarrow> others s2 s3 \<Longrightarrow>
    session_queue_declared queue s3 = (Inr fut', s4) \<Longrightarrow> others s4 s5 \<Longrightarrow> session_starts others s (Inl e) s5"
| Started: "others s s1 \<Longrightarrow> session_queue_begin s1 = (Inr fut, s2) \<Longrightarrow> others s2 s3 \<Longrightarrow>
    session_queue_declared queue s3 = (Inr fut', s4) \<Longrightarrow> others s4 s5 \<Longrightarrow> session_starts others s (Inr ()) (session_started s5)"

text \<open>\<open>reconnect\<close> waits for its lock, and for the old connection to close; then \<open>start\<close> in the new epoch.\<close>

inductive epoch_starts :: "(session \<Rightarrow> session \<Rightarrow> bool) \<Rightarrow> session \<Rightarrow> unit res \<Rightarrow> session \<Rightarrow> bool"
  for others where
  Epoch: "others s s1 \<Longrightarrow> reconnect_begin s1 = Some s2 \<Longrightarrow> others s2 s3 \<Longrightarrow>
    session_starts others (new_epoch uuid s3) r s4 \<Longrightarrow> epoch_starts others s r s4"

inductive reconnects :: "(session \<Rightarrow> session \<Rightarrow> bool) \<Rightarrow> session \<Rightarrow> unit res \<Rightarrow> session \<Rightarrow> bool"
  for others where
  Open: "others s s1 \<Longrightarrow> reconnect_begin s1 = None \<Longrightarrow> reconnects others s (Inr ()) s1"
| Failed: "epoch_starts others s (Inl e) s1 \<Longrightarrow> reconnects others s (Inl e) s1"
| Fail_Fast: "epoch_starts others s (Inr ()) s1 \<Longrightarrow> rp_fail_outstanding (ss_policy s1) \<Longrightarrow> reconnects others s (Inr ()) s1"
| Parked: "epoch_starts others s (Inr ()) s1 \<Longrightarrow> \<not> rp_fail_outstanding (ss_policy s1) \<Longrightarrow>
    republishes_parked others s1 made r s2 \<Longrightarrow> reconnects others s r s2"

text \<open>\<open>_park_reconnect\<close>: what it leaves and the sleeps of the coordinator.\<close>

definition park_reconnect :: "(session \<Rightarrow> unit res \<times> session) \<Rightarrow> session \<Rightarrow> real list \<times> session" where
  "park_reconnect session_reconnect s =
     (case coordinator_reconnect session_reconnect (ss_policy s) s of (r, slept, s') \<Rightarrow> (slept, park_reconnected r s'))"

inductive_cases reconnects_elim: "reconnects others s r s'"

section \<open>What a republish keeps\<close>

text \<open>A request of \<open>ids\<close> that is still waiting has the future and the envelope it had.\<close>

definition spares :: "pystr set \<Rightarrow> session \<Rightarrow> session \<Rightarrow> bool" where
  "spares ids s s' \<longleftrightarrow> (\<forall>rid \<in> ids. dict_get (fst (ss_corr s')) rid \<noteq> None \<longrightarrow>
     dict_get (fst (ss_corr s')) rid = dict_get (fst (ss_corr s)) rid \<and> dict_get (ss_parked s') rid = dict_get (ss_parked s) rid)"

lemma spares_refl [simp, intro]: "spares ids s s"
  by (simp add: spares_def)

lemma spares_trans [trans]: "spares ids a b \<Longrightarrow> spares ids b c \<Longrightarrow> spares ids a c"
  by (auto simp: spares_def)

lemma spares_none: "fst (ss_corr s') = [] \<Longrightarrow> spares ids s s'"
  by (simp add: spares_def)

lemma spares_same: "ss_corr s' = ss_corr s \<Longrightarrow> ss_parked s' = ss_parked s \<Longrightarrow> spares ids s s'"
  by (simp add: spares_def)

lemma discard_empties [simp]: "fst (corr_discard_all e k) = []"
  by (cases k) (simp add: corr_discard_all_def Let_def)

lemma fail_outstanding_spares: "spares ids s (fail_outstanding e s1)"
  by (rule spares_none) (simp add: fail_outstanding_def)

lemma on_connection_lost_spares: "ss_corr s1 = ss_corr s \<Longrightarrow> ss_parked s1 = ss_parked s \<Longrightarrow> spares ids s (on_connection_lost e s1)"
  by (auto simp: on_connection_lost_def Let_def fail_outstanding_spares intro: spares_same)

lemma conn_changed_spares: "spares ids s (conn_changed s c)"
  by (auto simp: conn_changed_def intro: spares_same on_connection_lost_spares split: option.split)

lemma on_conn_spares: "on_conn f s = (r, s') \<Longrightarrow> spares ids s s'"
  by (auto simp: on_conn_def conn_changed_spares split: prod.splits)

text \<open>A request that is over does not count.\<close>

lemma pop_spares:
  assumes "ss_corr s' = pop_settle rid r (ss_corr s)" "ss_parked s' = dict_del (ss_parked s) rid"
  shows "spares ids s s'" "dict_get (fst (ss_corr s')) rid = None"
proof -
  obtain d h where k: "ss_corr s = (d, h)" by force
  have g: "dict_get (fst (ss_corr s')) = (dict_get d)(rid := None)"
    by (auto simp: assms(1) k pop_settle_def fun_eq_iff split: option.split)
  show "spares ids s s'" by (auto simp: spares_def g k assms(2))
  show "dict_get (fst (ss_corr s')) rid = None" by (simp add: g)
qed

lemma republish_failed_spares:
  assumes "republish_failed rid e s = (Inr (), s')"
  shows "spares ids s s'" "dict_get (fst (ss_corr s')) rid = None"
proof -
  obtain m where "ss_corr s' = pop_settle rid (Failed m) (ss_corr s)" "ss_parked s' = dict_del (ss_parked s) rid"
    using assms by (auto simp: republish_failed_def forget_publish_def corr_fail_pops split: option.splits)
  then show "spares ids s s'" "dict_get (fst (ss_corr s')) rid = None" by (rule pop_spares)+
qed

lemma republish_failed_raises:
  "republish_failed rid e s = (Inl e', s') \<Longrightarrow> e' = e \<and> s' = s \<and> publish_error rid None e = None"
  "republish_failed rid e s = (Inr (), s') \<Longrightarrow> publish_error rid None e \<noteq> None"
  by (auto simp: republish_failed_def split: option.splits)

lemma republish_begin_spares:
  "republish_begin rid env s = Some (a, s') \<Longrightarrow> spares ids s s'"
  "republish_begin rid env s = Some (Inr None, s') \<Longrightarrow> dict_get (fst (ss_corr s')) rid = None"
proof -
  have f: "\<not> corr_contains rid (ss_corr s) \<Longrightarrow> spares ids s (forget_publish rid s)"
    by (auto simp: spares_def forget_publish_def corr_contains_def dict_has_def)
  then show "republish_begin rid env s = Some (a, s') \<Longrightarrow> spares ids s s'"
    by (auto simp: republish_begin_def conn_changed_spares split: if_splits option.splits prod.splits sum.splits)
  show "republish_begin rid env s = Some (Inr None, s') \<Longrightarrow> dict_get (fst (ss_corr s')) rid = None"
    by (auto simp: republish_begin_def corr_contains_def dict_has_def split: if_splits option.splits prod.splits sum.splits)
qed

text \<open>The stretches of a publish are steps of the connection.\<close>

lemma basic_publish_evolves:
  "basic_publish_begin ch body ex key props dr p conf mand c = Some (r, c') \<Longrightarrow> evolves c c'"
  "basic_publish_selected ch fut body ex key props dr mand c = Some (r, c') \<Longrightarrow> evolves c c'"
  "basic_publish_end ch tf mand c = (v, c') \<Longrightarrow> evolves c c'"
proof -
  have w: "await_confirm (publish_begin ch body ex key mand ps want dr d) = Some (r, c') \<Longrightarrow> evolves d c'" for ps want d
    using publish_begin_evolves by (fastforce simp: await_confirm_def split: option.splits prod.splits sum.splits)
  have k: "publish_check ch p props c = (x, d) \<Longrightarrow> evolves c d" "confirm_select_begin ch c = (y, d) \<Longrightarrow> evolves c d"
    "confirm_select_end ch fut c = (z, d) \<Longrightarrow> evolves c d" for c d x y z
    using keepsD[OF publish_check_evolves, of c] keepsD[OF confirm_select_evolves(1), of c] keepsD[OF confirm_select_evolves(2), of c]
    by (metis snd_conv)+
  show "basic_publish_begin ch body ex key props dr p conf mand c = Some (r, c') \<Longrightarrow> evolves c c'"
    by (auto simp: basic_publish_begin_def Let_def split: prod.splits sum.splits if_splits option.splits dest!: k w intro: evolves_trans)
  show "basic_publish_selected ch fut body ex key props dr mand c = Some (r, c') \<Longrightarrow> evolves c c'"
    by (auto simp: basic_publish_selected_def split: prod.splits sum.splits dest!: k w intro: evolves_trans)
  show "basic_publish_end ch tf mand c = (v, c') \<Longrightarrow> evolves c c'"
    using keepsD[OF publish_end_evolves, of c] by (auto simp: basic_publish_end_def op_simps split: option.splits) (metis snd_conv)
qed

text \<open>
  What a republish keeps is a preorder that the stretches of its turns keep: then a whole run keeps it
  when the other tasks do.
\<close>

locale republish_order =
  fixes R :: "session \<Rightarrow> session \<Rightarrow> bool"
  assumes R_refl: "R s s"
    and R_trans: "R a b \<Longrightarrow> R b c \<Longrightarrow> R a c"
    and R_conn: "evolves (ss_conn s) conn \<Longrightarrow> R s (conn_changed s conn)"
    and R_begin: "republish_begin rid env s = Some (x, s') \<Longrightarrow> R s s'"
    and R_failed: "republish_failed rid e s = (u, s') \<Longrightarrow> R s s'"
begin

lemma R_selected: "republish_selected env fut props s = Some (a, s') \<Longrightarrow> R s s'"
  by (auto simp: republish_selected_def split: option.splits prod.splits intro: R_conn basic_publish_evolves(2))

lemma R_end: "republish_end env tf s = (v, s') \<Longrightarrow> R s s'"
  by (auto simp: republish_end_def on_conn_def split: prod.splits intro: R_conn basic_publish_evolves(3))

lemma publish_keeps:
  assumes "publishes_again others rid env s v s'" "\<And>a b. others a b \<Longrightarrow> R a b"
  shows "R s s'"
  using assms(1)
proof cases
  case (Confirmed tf s1 s2 w)
  show ?thesis
    by (rule R_trans[OF R_begin[OF Confirmed(2)] R_trans[OF assms(2)[OF Confirmed(3)] R_end[OF Confirmed(5)]]])
next
  case (Not_Selected fut props s1 s2 e)
  show ?thesis
    by (rule R_trans[OF R_begin[OF Not_Selected(2)] R_trans[OF assms(2)[OF Not_Selected(3)] R_selected[OF Not_Selected(5)]]])
next
  case (Selected fut props s1 s2 tf s3 s4 w)
  have "R s s3"
    by (rule R_trans[OF R_begin[OF Selected(2)] R_trans[OF assms(2)[OF Selected(3)] R_selected[OF Selected(5)]]])
  then show ?thesis by (rule R_trans[OF _ R_trans[OF assms(2)[OF Selected(6)] R_end[OF Selected(8)]]])
qed (blast intro: R_begin)+

lemma loop_keeps:
  assumes "republishes others items s made r s'" "\<And>a b. others a b \<Longrightarrow> R a b"
  shows "R s s'"
  using assms(1)
proof (induction rule: republishes.induct)
  case (Done s)
  show ?case by (rule R_refl)
next
  case (Skip rid env s s1 items made r s')
  show ?case by (rule R_trans[OF publish_keeps[OF Skip.hyps(1) assms(2)] Skip.IH])
next
  case (Published rid env s s1 items made r s')
  show ?case by (rule R_trans[OF publish_keeps[OF Published.hyps(1) assms(2)] Published.IH])
next
  case (Caught rid env s e s1 s2 items made r s')
  show ?case
    by (rule R_trans[OF R_trans[OF publish_keeps[OF Caught.hyps(1) assms(2)] R_failed[OF Caught.hyps(2)]] Caught.IH])
next
  case (Raised rid env s e s1 e' s')
  show ?case by (rule R_trans[OF publish_keeps[OF Raised.hyps(1) assms(2)] R_failed[OF Raised.hyps(2)]])
qed

end

text \<open>If the stretches of \<open>start\<close> and of the new epoch keep it too, so does a reconnect.\<close>

locale reconnect_order = republish_order +
  assumes R_declare: "session_queue_begin s = (x, s') \<Longrightarrow> R s s'"
    and R_declared: "session_queue_declared queue s = (x, s') \<Longrightarrow> R s s'"
    and R_started: "R s (session_started s)"
    and R_teardown: "reconnect_begin s = Some s' \<Longrightarrow> R s s'"
    and R_epoch: "R s (new_epoch uuid s)"
begin

lemma starts_keep:
  assumes "session_starts others s r s'" and o: "\<And>a b. others a b \<Longrightarrow> R a b"
  shows "R s s'"
proof -
  have until: "R a b2" if "others a a1" "session_queue_begin a1 = (x, b1)" "R b1 b2" for a a1 x b1 b2
    by (rule R_trans[OF o[OF that(1)] R_trans[OF R_declare[OF that(2)] that(3)]])
  have then_asks: "R a b2" if "others a a1" "session_queue_declared queue a1 = (x, b1)" "R b1 b2" for queue a a1 x b1 b2
    by (rule R_trans[OF o[OF that(1)] R_trans[OF R_declared[OF that(2)] that(3)]])
  have started: "R a (session_started b1)" if "others a b1" for a b1
    by (rule R_trans[OF o[OF that] R_started])
  from assms(1) show ?thesis
    by cases (use until then_asks started o R_refl in blast)+
qed

lemma epoch_keeps:
  assumes "epoch_starts others s r s'" and o: "\<And>a b. others a b \<Longrightarrow> R a b"
  shows "R s s'"
  using assms(1)
proof cases
  case (Epoch s1 s2 s3 uuid)
  show ?thesis
    by (rule R_trans[OF o[OF Epoch(1)] R_trans[OF R_teardown[OF Epoch(2)] R_trans[OF o[OF Epoch(3)]
          R_trans[OF R_epoch starts_keep[OF Epoch(4) o]]]]])
qed

lemma reconnect_keeps:
  assumes "reconnects others s r s'" and o: "\<And>a b. others a b \<Longrightarrow> R a b"
  shows "R s s'"
  using assms(1)
proof cases
  case (Parked s1 made)
  have "R s1 s'" using Parked(3) by cases (auto intro: R_refl loop_keeps[OF _ o])
  with epoch_keeps[OF Parked(1) o] show ?thesis by (rule R_trans)
qed (use o epoch_keeps in blast)+

end

interpretation spared: reconnect_order "spares ids" for ids
proof
  show "republish_failed rid e s = (u, s') \<Longrightarrow> spares ids s s'" for rid e s u s'
    by (cases u) (auto dest: republish_failed_spares(1) republish_failed_raises(1))
  show "session_queue_declared queue s = (x, s') \<Longrightarrow> spares ids s s'" for queue s x s'
    unfolding session_queue_declared_def by (rule spares_trans[OF spares_same on_conn_spares]) simp_all
  show "reconnect_begin s = Some s' \<Longrightarrow> spares ids s s'" for s s'
    by (auto simp: reconnect_begin_def teardown_for_reconnect_def stop_reply_task_def fail_outstanding_def Let_def
        intro: spares_none spares_same split: if_splits)
qed (auto simp: conn_changed_spares republish_begin_spares session_queue_begin_def session_started_def new_epoch_def
    session_start_begin_def intro: spares_trans on_conn_spares spares_same)

interpretation followed: reconnect_order corr_follows
  by unfold_locales (auto simp: conn_changed_follows intro: follows_trans republish_follows republish_failed_follows
      session_next_follows session_next.intros)

text \<open>
  The session stays open on a connection that lives: what can close it is the loss of that
  connection, so that nothing of this is said of a session whose connection is lost afterwards.
\<close>

definition stays_open :: "session \<Rightarrow> session \<Rightarrow> bool" where
  "stays_open a b \<longleftrightarrow> (c_lost (ss_conn b) = None \<longrightarrow>
     c_lost (ss_conn a) = None \<and> ss_reply_queue b = ss_reply_queue a \<and> ss_started b = ss_started a)"

lemma conn_changed_stays: "evolves (ss_conn s) c \<Longrightarrow> stays_open s (conn_changed s c)"
  by (auto simp: stays_open_def conn_changed_def on_connection_lost_def fail_outstanding_def evolves_def Let_def
      split: option.splits if_splits)

interpretation opened: republish_order stays_open
proof
  show "republish_begin rid env s = Some (x, s') \<Longrightarrow> stays_open s s'" for rid env s x s'
    by (auto simp: republish_begin_def forget_publish_def split: if_splits option.splits prod.splits sum.splits
        intro: conn_changed_stays basic_publish_evolves(1)) (simp_all add: stays_open_def)
  show "republish_failed rid e s = (u, s') \<Longrightarrow> stays_open s s'" for rid e s u s'
    by (auto simp: republish_failed_def forget_publish_def stays_open_def split: option.splits)
  show "stays_open a b \<Longrightarrow> stays_open b c \<Longrightarrow> stays_open a c" for a b c by (auto simp: stays_open_def)
qed (simp_all add: conn_changed_stays, simp add: stays_open_def)

text \<open>A \<open>start\<close> that returns leaves the session open, if its connection lives.\<close>

lemma started_is_open:
  assumes "session_starts others s (Inr ()) s'" and o: "\<And>a b. others a b \<Longrightarrow> stays_open a b"
    and "c_lost (ss_conn s') = None"
  shows "reply_queue_open s'"
  using assms(1)
proof cases
  case (Started s1 fut s2 s3 queue fut' s4 s5)
  obtain c4 where c4: "s4 = conn_changed (s3\<lparr>ss_reply_queue := Some queue\<rparr>) c4" "evolves (ss_conn s3) c4"
    using Started(5) keepsD[OF request_evolves, of "ss_conn s3"]
    by (auto simp: session_queue_declared_def on_conn_def basic_consume_begin_def split: prod.splits) (metis snd_conv)
  have "stays_open (s3\<lparr>ss_reply_queue := Some queue\<rparr>) s4" unfolding c4(1) by (rule conn_changed_stays) (simp add: c4(2))
  then have "stays_open (s3\<lparr>ss_reply_queue := Some queue\<rparr>) s5" using opened.R_trans o[OF Started(6)] by blast
  then show ?thesis using Started(1) assms(3) by (auto simp: stays_open_def reply_queue_open_def session_started_def)
qed

text \<open>What runs beside a republish spares the parked ids: replies, time-outs, losses, closes and requests of other ids.\<close>

lemma replies_spare: "on_reply msg s = (u, s') \<Longrightarrow> spares ids s s'"
proof -
  assume r: "on_reply msg s = (u, s')"
  have pop: "spares ids s (forget_publish cid (s\<lparr>ss_corr := snd (corr_resolve cid msg (ss_corr s))\<rparr>))" for cid
    by (rule pop_spares(1)[where rid = cid and r = "Result msg"]) (simp_all add: forget_publish_def corr_resolve_pops)
  define s1 where "s1 = (case dict_get (i_props msg) (S ''correlation_id'') of
      Some (VStr cid) \<Rightarrow> forget_publish cid (s\<lparr>ss_corr := snd (corr_resolve cid msg (ss_corr s))\<rparr>) | _ \<Rightarrow> s)"
  have "spares ids s s1" using pop by (auto simp: s1_def split: option.split pyval.split)
  moreover have "spares ids s1 s'" using r by (intro on_conn_spares) (simp add: on_reply_def s1_def Let_def)
  ultimately show ?thesis by (rule spares_trans)
qed

lemma timeouts_spare:
  assumes "dict_get (fst (ss_corr s)) rid = Some fut" "request_timed_out rid method fut s = (e, s')"
  shows "spares ids s s'"
proof -
  obtain d h where dh: "ss_corr s = (d, h)" by force
  have "ss_corr s' = pop_settle rid Cancelled (ss_corr s)" "ss_parked s' = dict_del (ss_parked s) rid"
    using assms by (auto simp: request_timed_out_def wait_timed_out_def dh corr_fail_pops pop_settle_def settle_twice
        forget_publish_def dict_del_def)
  then show ?thesis by (rule pop_spares(1))
qed

lemma requests_spare:
  "request_failed rid method exc s = (e, s') \<Longrightarrow> spares ids s s'"
  "rid \<notin> ids \<Longrightarrow> spares ids s (request_published p rid ex key body props s)"
  "request_publish_begin p ex key body props s = Some (a, s') \<Longrightarrow> spares ids s s'"
  "request_finish rid method fut s = (v, s') \<Longrightarrow> rid \<notin> ids \<Longrightarrow> spares ids s s'"
proof -
  have "spares ids s (forget_publish rid (s\<lparr>ss_corr := snd (corr_fail rid exc (ss_corr s))\<rparr>))"
    by (rule pop_spares(1)[where rid = rid and r = "Failed exc"]) (simp_all add: forget_publish_def corr_fail_pops)
  then show "request_failed rid method exc s = (e, s') \<Longrightarrow> spares ids s s'"
    by (auto simp: request_failed_def split: option.splits)
  show "rid \<notin> ids \<Longrightarrow> spares ids s (request_published p rid ex key body props s)"
    by (auto simp: spares_def request_published_def remember_publish_def)
  show "request_publish_begin p ex key body props s = Some (a, s') \<Longrightarrow> spares ids s s'"
    by (auto simp: request_publish_begin_def conn_changed_spares split: option.splits)
  show "request_finish rid method fut s = (v, s') \<Longrightarrow> rid \<notin> ids \<Longrightarrow> spares ids s s'"
    by (auto simp: request_finish_def spares_def forget_publish_def split: fut.splits py_exc.splits)
qed

lemma losses_spare:
  "spares ids s (reply_loop_ends exc s)" "spares ids s (session_close s)"
  by (auto simp: reply_loop_ends_def fail_outstanding_spares on_connection_lost_spares session_close_def stop_reply_task_def
      intro: spares_none)

text \<open>A skipped entry is of a request nobody waits for.\<close>

lemma skipped_over: "publishes_again others rid env s None s' \<Longrightarrow> dict_get (fst (ss_corr s')) rid = None"
  by (auto elim: publishes_again.cases dest: republish_begin_spares(2))

lemma spares_over: "spares ids a b \<Longrightarrow> rid \<in> ids \<Longrightarrow> dict_get (fst (ss_corr a)) rid = None \<Longrightarrow> dict_get (fst (ss_corr b)) rid = None"
  by (auto simp: spares_def)

lemma republishes_order: "republishes others items s made r s' \<Longrightarrow> subseq (map fst made) (map fst items)"
  by (induction rule: republishes.induct) auto

text \<open>Only the last publish can have raised out of the loop.\<close>

lemma republishes_raised:
  "republishes others items s made r s' \<Longrightarrow>
     (\<forall>e. r = Inl e \<longrightarrow> made \<noteq> [] \<and> snd (last made) = Inl e \<and> publish_error (fst (last made)) None e = None) \<and>
     (\<forall>rid e. (rid, Inl e) \<in> set made \<and> publish_error rid None e = None \<longrightarrow> r = Inl e \<and> last made = (rid, Inl e))"
proof (induction rule: republishes.induct)
  case (Caught rid env s e s1 s2 items made r s')
  then show ?case using republish_failed_raises(2)[OF Caught.hyps(2)] by auto
next
  case (Raised rid env s e s1 e' s')
  then show ?case using republish_failed_raises(1)[OF Raised.hyps(2)] by auto
qed auto

text \<open>What the loop went over: published, or no longer waiting.\<close>

lemma republishes_waiting:
  assumes "republishes others items s made r s'" "\<And>a b. others a b \<Longrightarrow> spares ids a b" "fst ` set items \<subseteq> ids"
  shows "(\<forall>rid e. (rid, Inl e) \<in> set made \<and> publish_error rid None e \<noteq> None \<longrightarrow> dict_get (fst (ss_corr s')) rid = None) \<and>
    (r = Inr () \<longrightarrow> (\<forall>rid \<in> fst ` set items. dict_get (fst (ss_corr s')) rid \<noteq> None \<longrightarrow> (rid, Inr ()) \<in> set made))"
  using assms
proof (induction rule: republishes.induct)
  case (Skip rid env s s1 items made r s')
  have "dict_get (fst (ss_corr s1)) rid = None" by (rule skipped_over[OF Skip.hyps(1)])
  moreover have "spares ids s1 s'" using spared.loop_keeps[OF Skip.hyps(2) Skip.prems(1)] .
  ultimately show ?case using Skip spares_over[of ids s1 s' rid] by auto
next
  case (Caught rid env s e s1 s2 items made r s')
  have "dict_get (fst (ss_corr s2)) rid = None" by (rule republish_failed_spares(2)[OF Caught.hyps(2)])
  moreover have "spares ids s2 s'" using spared.loop_keeps[OF Caught.hyps(3) Caught.prems(1)] .
  ultimately have "dict_get (fst (ss_corr s')) rid = None" using Caught.prems(2) spares_over[of ids s2 s' rid] by auto
  moreover have "fst ` set items \<subseteq> ids" using Caught.prems(2) by simp
  note Caught.IH[OF Caught.prems(1) this]
  ultimately show ?case by (simp add: all_conj_distrib) fastforce
next
  case (Raised rid env s e s1 e' s')
  then show ?case using republish_failed_raises(1)[OF Raised.hyps(2)] by auto
qed auto

text \<open>
  C10. A republish loses no request. Whatever the other tasks do while it waits, as long as they do not take
  up an id that is parked, the parked requests are published again in order and each at most once; one
  that is still waiting afterwards has the future it had and is still parked, for the next loss, and if
  the loop came to its end the broker has confirmed it on the new connection. A request whose publish was
  returned, refused or blocked is not waiting any more, and any other exception ends the loop at
  the publish that raised it.\<close>

theorem republish_loses_nothing:
  assumes "republishes_parked others s made r s'" "\<forall>a b. others a b \<longrightarrow> spares (fst ` set (ss_parked s)) a b"
    and "ss_reply_queue s \<noteq> None"
  shows "subseq (map fst made) (map fst (ss_parked s)) \<and>
    (\<forall>rid env. dict_get (ss_parked s) rid = Some env \<and> dict_get (fst (ss_corr s')) rid \<noteq> None \<longrightarrow>
       dict_get (fst (ss_corr s')) rid = dict_get (fst (ss_corr s)) rid \<and> dict_get (ss_parked s') rid = Some env \<and>
       (r = Inr () \<longrightarrow> (rid, Inr ()) \<in> set made)) \<and>
    (\<forall>rid e. (rid, Inl e) \<in> set made \<longrightarrow>
       (if publish_error rid None e = None then r = Inl e \<and> last made = (rid, Inl e)
        else dict_get (fst (ss_corr s')) rid = None)) \<and>
    (\<forall>e. r = Inl e \<longrightarrow> made \<noteq> [] \<and> snd (last made) = Inl e \<and> publish_error (fst (last made)) None e = None)"
proof -
  let ?ids = "fst ` set (ss_parked s)"
  have loop: "republishes others (ss_parked s) s made r s'" using assms(1,3) by (auto elim: republishes_parked.cases)
  have o: "others a b \<Longrightarrow> spares ?ids a b" for a b using assms(2) by blast
  have sp: "spares ?ids s s'" by (rule spared.loop_keeps[OF loop o])
  have w: "(\<forall>rid e. (rid, Inl e) \<in> set made \<and> publish_error rid None e \<noteq> None \<longrightarrow> dict_get (fst (ss_corr s')) rid = None) \<and>
      (r = Inr () \<longrightarrow> (\<forall>rid \<in> ?ids. dict_get (fst (ss_corr s')) rid \<noteq> None \<longrightarrow> (rid, Inr ()) \<in> set made))"
    by (rule republishes_waiting[OF loop o]) auto
  have "rid \<in> ?ids" if "dict_get (ss_parked s) rid = Some env" for rid env using dict_get_in[OF that] by force
  then have kept: "dict_get (fst (ss_corr s')) rid = dict_get (fst (ss_corr s)) rid \<and> dict_get (ss_parked s') rid = Some env \<and>
      (r = Inr () \<longrightarrow> (rid, Inr ()) \<in> set made)"
    if "dict_get (ss_parked s) rid = Some env" "dict_get (fst (ss_corr s')) rid \<noteq> None" for rid env
    using that w sp unfolding spares_def by metis
  note raised = republishes_raised[OF loop]
  have told: "if publish_error rid None e = None then r = Inl e \<and> last made = (rid, Inl e)
      else dict_get (fst (ss_corr s')) rid = None" if "(rid, Inl e) \<in> set made" for rid e
    using that conjunct2[OF raised, rule_format, of rid e] conjunct1[OF w, rule_format, of rid e] by auto
  show ?thesis using republishes_order[OF loop] conjunct1[OF raised] kept told by blast
qed

section \<open>What a reconnect keeps\<close>

text \<open>What the attempts of the coordinator keep.\<close>

lemma attempts_keep:
  assumes "\<And>t. P t \<Longrightarrow> P (snd (f t))" "P s"
  shows "P (after_attempts f n s)"
  using assms(2) by (induction n arbitrary: s) (simp_all add: after_attempts_Suc assms(1), simp add: after_attempts_def)

text \<open>
  C11. A reconnect that is given up fails every request. The coordinator makes a bounded number of
  attempts, whatever they and the tasks beside them do. If the last one raised an exception, no
  request is left to wait: each that was unfinished fails with a retryable CONNECTION_LOST that has the
  text of that exception, the table and the parked publishes are empty, and the next loss can start
  another reconnect. If an attempt succeeded, nothing but the flag of the task changes.\<close>

theorem given_up_reconnect_fails_all:
  assumes "corr_live (ss_corr s)" "make_policy (ss_policy s) = Inr (ss_policy s)"
    and "\<forall>t. reconnects others t (fst (f t)) (snd (f t))" "\<forall>a b. others a b \<longrightarrow> corr_follows a b"
    and "coordinator_reconnect f (ss_policy s) s = (r, slept, s')" "park_reconnect f s = (slept', s'')"
  shows "slept' = slept \<and> int (length slept) < rp_max_attempts (ss_policy s) \<and> \<not> ss_reconnecting s'' \<and>
    (r = Inr () \<longrightarrow> ss_corr s'' = ss_corr s' \<and> ss_parked s'' = ss_parked s') \<and>
    (\<forall>e. r = Inl e \<and> is_exception e \<longrightarrow> int (length slept) + 1 = rp_max_attempts (ss_policy s) \<and>
       fst (ss_corr s'') = [] \<and> ss_parked s'' = [] \<and>
       (\<forall>i < length (snd (ss_corr s')). snd (ss_corr s') ! i = Pending \<longrightarrow>
          snd (ss_corr s'') ! i = Failed (RpcError CONNECTION_LOST (S (exc_text e))
            (Some [(S ''code_name'', VStr (S ''CONNECTION_LOST'')), (S ''retryable'', VBool True)]) None)))"
proof -
  have p: "0 \<le> rp_max_backoff (ss_policy s)" "1 \<le> rp_max_attempts (ss_policy s)"
    using assms(2) by (auto simp: make_policy_def split: if_splits)
  note facts = attempt_from_facts[OF assms(5)[unfolded coordinator_reconnect_def] p]
  have step: "corr_live (ss_corr t) \<Longrightarrow> corr_live (ss_corr (snd (f t)))" for t
    using followed.reconnect_keeps[OF assms(3)[rule_format, of t]] assms(4) by (auto simp: corr_follows_def)
  have "corr_live (ss_corr (snd (f (after_attempts f (length slept) s))))"
    using step attempts_keep[of "\<lambda>t. corr_live (ss_corr t)" f s] step assms(1) by blast
  then have live: "corr_live (ss_corr s')" using facts(4) by simp
  have s'': "slept' = slept" "s'' = park_reconnected r s'" using assms(6) by (simp_all add: park_reconnect_def assms(5))
  have n: "int (length slept) < rp_max_attempts (ss_policy s)" using facts(2) by simp
  show ?thesis
  proof (cases r)
    case (Inr u)
    then show ?thesis using n by (simp add: s'' park_reconnected_def)
  next
    case (Inl e)
    obtain d h where dh: "ss_corr s' = (d, h)" by force
    have "h ! i = Pending \<Longrightarrow> i < length h \<Longrightarrow> i \<in> snd ` set d" for i
      using live corr_listed[of "(d, h)"] by (auto simp: corr_live_def dh)
    then show ?thesis using n facts(5)
      by (auto simp: Inl s'' park_reconnected_def fail_outstanding_def dh corr_discard_all_def Let_def settle_list_nth
          connection_lost_error_def make_error_data_eq dict_get_or_def code_names_def)
  qed
qed

text \<open>
  C15. A republish that failed is not tried again. When \<open>start\<close> has returned in the new epoch and then a publish of the
  loop raises an exception that is not caught, on a connection that lives on and with nobody closing the session, the
  reconnect fails. But \<open>start\<close> has already opened the session, and no part of the loop closes it: the second attempt
  finds it open and returns at once, the coordinator reports success, and every request that the loop
  had not come to is still waiting, still parked and never published.\<close>

theorem failed_republish_is_not_retried:
  assumes "epoch_starts others s (Inr ()) s1" "\<not> rp_fail_outstanding (ss_policy s1)"
    and "republishes_parked others s1 made (Inl e) s2" "is_exception e"
    and "\<forall>a b. others a b \<longrightarrow> spares (fst ` set (ss_parked s1)) a b \<and> stays_open a b"
    and "\<forall>t. others s2 t \<longrightarrow> c_lost (ss_conn t) = None"
    and "f s = (Inl e, s2)" "reconnects others s2 (fst (f s2)) (snd (f s2))"
    and "make_policy p = Inr p" "2 \<le> rp_max_attempts p"
  shows "reconnects others s (Inl e) s2 \<and>
    (\<exists>s'. coordinator_reconnect f p s = (Inr (), [rp_initial_backoff p], s') \<and> others s2 s' \<and> reply_queue_open s' \<and>
      (\<forall>rid env. dict_get (ss_parked s1) rid = Some env \<and> rid \<notin> fst ` set made \<and> dict_get (fst (ss_corr s')) rid \<noteq> None \<longrightarrow>
         dict_get (fst (ss_corr s')) rid = dict_get (fst (ss_corr s1)) rid \<and> dict_get (ss_parked s') rid = Some env))"
proof -
  let ?ids = "fst ` set (ss_parked s1)"
  have o: "others a b \<Longrightarrow> spares ?ids a b" "others a b \<Longrightarrow> stays_open a b" for a b using assms(5) by blast+
  have first: "reconnects others s (Inl e) s2" by (rule reconnects.Parked[OF assms(1-3)])
  have loop: "republishes others (ss_parked s1) s1 made (Inl e) s2" using assms(3) by (auto elim: republishes_parked.cases)
  have open_at: "reply_queue_open t" if "others s2 t" for t
  proof -
    have st: "stays_open s1 t" using opened.R_trans opened.loop_keeps[OF loop o(2)] o(2)[OF that] by blast
    then have "c_lost (ss_conn s1) = None" using assms(6) that by (simp add: stays_open_def)
    moreover obtain s3 where "session_starts others s3 (Inr ()) s1" using assms(1) by cases
    ultimately have "reply_queue_open s1" using started_is_open o(2) by blast
    then show ?thesis using st assms(6) that by (simp add: stays_open_def reply_queue_open_def)
  qed
  have second: "fst (f s2) = Inr () \<and> others s2 (snd (f s2))"
    using assms(8) open_at by (auto elim!: reconnects_elim epoch_starts.cases simp: reconnect_begin_def)
  have sp: "spares ?ids s1 (snd (f s2))"
    using spared.loop_keeps[OF loop o(1)] o(1) second spares_trans by metis
  have "coordinator_reconnect f p s = (Inr (), [rp_initial_backoff p], snd (f s2))"
    using second assms(4,7,10) by (cases "f s2") (auto simp: coordinator_reconnect_def attempt_from.simps[of f])
  moreover have "dict_get (fst (ss_corr (snd (f s2)))) rid = dict_get (fst (ss_corr s1)) rid \<and>
      dict_get (ss_parked (snd (f s2))) rid = Some env"
    if "dict_get (ss_parked s1) rid = Some env" "dict_get (fst (ss_corr (snd (f s2)))) rid \<noteq> None" for rid env
    using that sp dict_get_in[OF that(1)] by (force simp: spares_def)
  ultimately show ?thesis using first second open_at by blast
qed

section \<open>A reconnect that is made\<close>

definition sample_parked :: "queue_profile option \<Rightarrow> parked" where
  "sample_parked profile = \<lparr>pk_exchange = [], pk_key = [116], pk_body = [7], pk_props = call_props, pk_profile = profile,
     pk_mandatory = True, pk_confirm = None\<rparr>"

text \<open>One request waits, another is over. The broker confirms what it gets.\<close>

definition two_parked :: "queue_profile \<Rightarrow> session" where
  "two_parked p = (waiting_session False)\<lparr>ss_conn := sample_conn,
     ss_parked := [([105], sample_parked (Some p)), ([106], sample_parked (Some p))]\<rparr>"

definition confirms :: "session \<Rightarrow> session \<Rightarrow> bool" where
  "confirms a b \<longleftrightarrow> b = a \<or> b = a\<lparr>ss_conn := (ss_conn a)\<lparr>c_cfuts := [Result ()]\<rparr>\<rparr>"

lemma two_parked_published:
  assumes "qp_delivery_mode p = 2"
  shows "\<exists>s1. publishes_again confirms [105] (sample_parked (Some p)) (two_parked p) (Some (Inr ())) s1 \<and>
    ss_corr s1 = ([([105], 0)], [Pending]) \<and> ss_parked s1 = ss_parked (two_parked p)"
proof -
  let ?s = "two_parked p" and ?env = "sample_parked (Some p)"
  have ps: "republish_props (Some [114]) [105] ?env = call_props"
    by (simp add: republish_props_def sample_parked_def call_props_def)
  have s: "ss_channel ?s = 1" "ss_reply_queue ?s = Some [114]" "ss_conn ?s = sample_conn" "corr_contains [105] (ss_corr ?s)"
    "ss_corr ?s = ([([105], 0)], [Pending])"
    by (simp_all add: two_parked_def waiting_session_def fresh_session_def corr_contains_def dict_has_def)
  obtain c' where c': "basic_publish_begin 1 [7] [] [116] (Some call_props) True (Some p) None True sample_conn =
      Some (Inr (AwaitConfirm (Some (1, 0))), c')" "c_cfuts c' = [Pending]" "c_lost c' = None" "c_return_by_tag c' = []"
    using sample_request_awaits[of "[7]" p] assms by auto
  let ?s1 = "?s\<lparr>ss_conn := c'\<rparr>" and ?s2 = "?s\<lparr>ss_conn := c'\<lparr>c_cfuts := [Result ()]\<rparr>\<rparr>"
  have cc: "conn_changed ?s c' = ?s1" by (simp add: conn_changed_def s(3) sample_conn_parts c')
  have "republish_begin [105] ?env ?s = Some (Inr (Some (AwaitConfirm (Some (1, 0)))), ?s1)"
    using s(4) by (simp add: republish_begin_def s(1-3) ps cc) (simp add: sample_parked_def c' cc)
  moreover have "confirms ?s1 ?s2" by (simp add: confirms_def)
  moreover have "confirm_done (Some (1, 0)) ?s2" by (simp add: confirm_done_def fut_done_def)
  moreover have "republish_end ?env (Some (1, 0)) ?s2 = (Inr (), ?s2)"
    by (simp add: republish_end_def on_conn_def basic_publish_end_def publish_end_def dict_get_or_def c' s(1)
        conn_changed_def sample_parked_def split: option.split)
  ultimately have "publishes_again confirms [105] ?env ?s (Some (Inr ())) ?s2" by (rule publishes_again.Confirmed)
  then show ?thesis using s(5) by (intro exI[of _ ?s2]) simp
qed

theorem republish_loses_nothing_witness:
  "\<exists>p s'. republishes_parked confirms (two_parked p) [([105], Inr ())] (Inr ()) s' \<and>
     dict_get (ss_parked s') [105] = Some (sample_parked (Some p)) \<and> dict_get (fst (ss_corr s')) [106] = None"
proof -
  obtain p :: queue_profile where p: "qp_delivery_mode p = 2" using client_profile_exists by blast
  let ?s = "two_parked p" and ?env = "sample_parked (Some p)"
  obtain s1 where s1: "publishes_again confirms [105] ?env ?s (Some (Inr ())) s1" "ss_corr s1 = ([([105], 0)], [Pending])"
    "ss_parked s1 = ss_parked ?s"
    using two_parked_published[OF p] by blast
  let ?s' = "forget_publish [106] s1"
  have "republish_begin [106] ?env s1 = Some (Inr None, ?s')" by (simp add: republish_begin_def corr_contains_def dict_has_def s1(2))
  then have "publishes_again confirms [106] ?env s1 None ?s'" by (rule publishes_again.Skipped)
  then have "republishes confirms (ss_parked ?s) ?s [([105], Inr ())] (Inr ()) ?s'"
    using s1(1) by (auto simp: two_parked_def intro: republishes.intros)
  moreover have q: "ss_reply_queue ?s \<noteq> None" by (simp add: two_parked_def waiting_session_def)
  ultimately have run: "republishes_parked confirms ?s [([105], Inr ())] (Inr ()) ?s'" by (intro republishes_parked.Loop)
  have "\<forall>a b. confirms a b \<longrightarrow> spares (fst ` set (ss_parked ?s)) a b" by (auto simp: confirms_def intro: spares_same)
  from republish_loses_nothing[OF run this q] have "dict_get (ss_parked ?s') [105] = Some ?env"
    by (auto simp: s1(2) two_parked_def)
  then show ?thesis using run s1(2) by (intro exI[of _ p] exI[of _ ?s']) simp
qed

text \<open>
  Two requests are parked; the id of the first is long, and with the smaller frames of the new connection
  its header does not fit. The broker answers everything else.
\<close>

definition long_id :: pystr where
  "long_id = replicate 60 105"

definition lost_session :: session where
  "lost_session = (waiting_session False)\<lparr>ss_reply_queue := None, ss_started := False, ss_reply_task := False,
     ss_corr := ([(long_id, 0), ([105], 1)], [Pending, Pending]),
     ss_parked := [(long_id, sample_parked None), ([105], sample_parked None)]\<rparr>"

definition broker_answers :: "session \<Rightarrow> session \<Rightarrow> bool" where
  "broker_answers a b \<longleftrightarrow> b = a \<or> c_lost (ss_conn a) = None \<and> b = a\<lparr>ss_conn := sample_conn\<rparr>"

lemma sample_request:
  assumes "encode_method m = Inr mp" "length mp < 50"
  shows "\<exists>fut c'. request 1 m cid mid sample_conn = (Inr fut, c') \<and> c_lost c' = None"
proof -
  obtain bs where bs: "encode_frame \<lparr>frame_type = METHOD, channel = 1, payload = mp\<rparr> 64 = Inr bs"
    using assms(2) by (auto simp: encode_frame_Inr FRAME_OVERHEAD_def)
  show ?thesis
    by (simp add: request_def seq_s_def bind_s_def sample_channel_open send_method_def op_simps assms(1) send_frame_def
        write_frame_def bs sample_conn_parts drain_def expect_begin_def create_future_def)
qed

definition reopen :: "session \<Rightarrow> session" where
  "reopen t = t\<lparr>ss_conn := sample_conn, ss_connection_id := [100], ss_epoch := ss_epoch t + 1, ss_reply_queue := Some [114],
     ss_started := True, ss_reply_task := True, ss_loss_handled := False\<rparr>"

definition reopened :: session where
  "reopened = reopen lost_session"

lemma sample_setup_encodes:
  "\<exists>mp. encode_method (meth QUEUE QUEUE_DECLARE [(S ''queue'', VStr (S ''nr.reply.'' @ [100])), (S ''durable'', VBool False),
      (S ''exclusive'', VBool True), (S ''auto_delete'', VBool True), (S ''arguments'', VDict [])]) = Inr mp \<and> length mp < 50"
  "\<exists>mp. encode_method (meth BASIC BASIC_CONSUME [(S ''queue'', VStr [114]), (S ''consumer_tag'', VStr []), (S ''no_ack'', VBool False),
      (S ''exclusive'', VBool False), (S ''arguments'', VDict [])]) = Inr mp \<and> length mp < 50"
proof -
  note args = encode_method_def encode_args_def int_arg_def short_arg_def bits_arg_def table_arg_def dict_get_or_def is_set_def
    byte_of_int_def to_bytes_def encode_shortstr_def utf8_ascii utf8_empty encode_table.simps S_def
  show "\<exists>mp. encode_method (meth QUEUE QUEUE_DECLARE [(S ''queue'', VStr (S ''nr.reply.'' @ [100])), (S ''durable'', VBool False),
      (S ''exclusive'', VBool True), (S ''auto_delete'', VBool True), (S ''arguments'', VDict [])]) = Inr mp \<and> length mp < 50"
    by (simp add: args)
  show "\<exists>mp. encode_method (meth BASIC BASIC_CONSUME [(S ''queue'', VStr [114]), (S ''consumer_tag'', VStr []), (S ''no_ack'', VBool False),
      (S ''exclusive'', VBool False), (S ''arguments'', VDict [])]) = Inr mp \<and> length mp < 50"
    by (simp add: args)
qed

lemma reopens:
  assumes "ss_channel t = 1" "\<not> reply_queue_open t" "\<not> rp_fail_outstanding (ss_policy t)"
  shows "epoch_starts broker_answers t (Inr ()) (reopen t)"
proof -
  let ?a0 = "new_epoch [100] (teardown_for_reconnect t)"
  let ?a1 = "?a0\<lparr>ss_conn := sample_conn\<rparr>" and ?a2 = "?a0\<lparr>ss_conn := sample_conn, ss_reply_queue := Some [114]\<rparr>"
  note defs = new_epoch_def session_start_begin_def teardown_for_reconnect_def Let_def stop_reply_task_def assms(1,3)
  have b: "reconnect_begin t = Some (teardown_for_reconnect t)" by (simp add: reconnect_begin_def assms(2))
  have parts: "ss_channel ?a1 = 1" "ss_channel ?a2 = 1" "reply_queue_name ?a1 = S ''nr.reply.'' @ [100]"
    by (simp_all add: defs reply_queue_name_def)
  have l: "c_lost (ss_conn ?a0) = None" by (simp add: defs conn_init_def)
  obtain fut c1 where q: "queue_declare_begin 1 (S ''nr.reply.'' @ [100]) False True True [] sample_conn = (Inr fut, c1)" "c_lost c1 = None"
    using sample_setup_encodes(1) sample_request unfolding queue_declare_begin_def by blast
  obtain fut' c2 where k: "basic_consume_begin 1 [114] [] sample_conn = (Inr fut', c2)" "c_lost c2 = None"
    using sample_setup_encodes(2) sample_request unfolding basic_consume_begin_def by blast
  have 1: "session_queue_begin ?a1 = (Inr fut, ?a1\<lparr>ss_conn := c1\<rparr>)"
    unfolding session_queue_begin_def parts by (simp add: on_conn_def q conn_changed_def sample_conn_parts)
  have 2: "session_queue_declared [114] ?a1 = (Inr fut', ?a2\<lparr>ss_conn := c2\<rparr>)"
    unfolding session_queue_declared_def parts by (simp add: on_conn_def k conn_changed_def sample_conn_parts)
  have "session_starts broker_answers ?a0 (Inr ()) (session_started ?a2)"
    by (rule session_starts.Started[OF _ 1 _ 2]) (simp_all add: broker_answers_def l q(2) k(2))
  moreover have "session_started ?a2 = reopen t"
    by (simp add: session_started_def reopen_def defs)
  moreover have idle: "broker_answers a a" for a by (simp add: broker_answers_def)
  ultimately show ?thesis using epoch_starts.Epoch[where others = broker_answers, OF idle b idle] by metis
qed

lemma reopened_starts: "epoch_starts broker_answers lost_session (Inr ()) reopened"
  unfolding reopened_def by (rule reopens)
    (simp_all add: lost_session_def waiting_session_def fresh_session_def default_policy_def reply_queue_open_def)

text \<open>The header that does not fit.\<close>

lemma long_header:
  "\<exists>hp. encode_content_header BASIC 1 (republish_props (Some [114]) long_id (sample_parked None)) = Inr hp \<and> 56 < length hp"
  by (simp add: encode_content_header_def basic_props_def republish_props_def sample_parked_def call_props_def encode_shortstr_def
      utf8_ascii byte_of_int_def to_bytes_def S_def long_id_def list_all_iff)

lemma long_publish_fails:
  "\<exists>m c'. basic_publish_begin 1 [7] [] [116] (Some (republish_props (Some [114]) long_id (sample_parked None))) True None None True
     sample_conn = Some (Inl (AmqpCodecError m), c') \<and> c_lost c' = None"
proof -
  let ?ps = "republish_props (Some [114]) long_id (sample_parked None)"
  obtain mp where mp: "encode_method (publish_method [] [116] True) = Inr mp" "length mp < 20"
    using sample_call_encodes(3)[of 116 True] by auto
  then obtain bs where bs: "encode_frame \<lparr>frame_type = METHOD, channel = 1, payload = mp\<rparr> 64 = Inr bs"
    by (auto simp: encode_frame_Inr FRAME_OVERHEAD_def)
  obtain hp where hp: "encode_content_header BASIC 1 ?ps = Inr hp" "56 < length hp" using long_header by blast
  obtain m where m: "encode_frame \<lparr>frame_type = HEADER, channel = 1, payload = hp\<rparr> 64 = Inl (AmqpCodecError m)"
    using hp(2) by (simp add: encode_frame_def max_frame_payload_def FRAME_OVERHEAD_def)
  have chk: "publish_check 1 None (Some ?ps) sample_conn = (Inr (Some ?ps), sample_conn)"
    by (simp add: publish_check_def seq_s_def bind_s_def op_simps sample_channel_open sample_conn_parts)
  obtain tf c1 where reg: "publish_register 1 True True sample_conn = (Inr tf, c1)" "c_writer c1" "c_frame_max c1 = 64" "c_lost c1 = None"
    by (simp add: publish_register_def tracker_register_eq Let_def sample_conn_parts)
  have "publish_head 1 [7] [] [116] True (Some ?ps) c1 = (Inl (AmqpCodecError m), c1\<lparr>c_out := c_out c1 @ bs\<rparr>)"
    by (simp add: publish_head_def seq_s_def bind_s_def write_method_def op_simps mp(1) write_frame_def reg(2,3) bs hp(1) m)
  then have "publish_begin 1 [7] [] [116] True (Some ?ps) True True sample_conn =
      Some (Inl (AmqpCodecError m), c1\<lparr>c_out := c_out c1 @ bs\<rparr>)"
    by (simp add: publish_begin_def reg(1) publish_write_def)
  then show ?thesis
    by (simp add: basic_publish_begin_def chk publish_wants_def publish_needs_select_def sample_conn_parts await_confirm_def reg(4))
qed

lemma reopened_republish:
  "\<exists>m s2. republishes_parked broker_answers reopened [(long_id, Inl (AmqpCodecError m))] (Inl (AmqpCodecError m)) s2 \<and>
     reply_queue_open s2 \<and> ss_corr s2 = ss_corr lost_session \<and> c_lost (ss_conn s2) = None"
proof -
  obtain m c' where c: "basic_publish_begin 1 [7] [] [116] (Some (republish_props (Some [114]) long_id (sample_parked None))) True None
     None True sample_conn = Some (Inl (AmqpCodecError m), c')" "c_lost c' = None"
    using long_publish_fails by blast
  let ?s2 = "reopened\<lparr>ss_conn := c'\<rparr>"
  have parts: "ss_channel reopened = 1" "ss_reply_queue reopened = Some [114]" "ss_conn reopened = sample_conn" "ss_started reopened"
    "ss_corr reopened = ss_corr lost_session" "corr_contains long_id (ss_corr lost_session)"
    "ss_parked reopened = [(long_id, sample_parked None), ([105], sample_parked None)]"
    by (simp_all add: reopened_def reopen_def lost_session_def corr_contains_def dict_has_def waiting_session_def fresh_session_def)
  have cc: "conn_changed reopened c' = ?s2" by (simp add: conn_changed_def parts sample_conn_parts c(2))
  have env: "pk_body (sample_parked None) = [7]" "pk_exchange (sample_parked None) = []" "pk_key (sample_parked None) = [116]"
    "pk_profile (sample_parked None) = None" "pk_confirm (sample_parked None) = None" "pk_mandatory (sample_parked None)"
    by (simp_all add: sample_parked_def)
  have "republish_begin long_id (sample_parked None) reopened = Some (Inl (AmqpCodecError m), ?s2)"
    by (simp add: republish_begin_def parts env c(1) cc)
  then have "publishes_again broker_answers long_id (sample_parked None) reopened (Some (Inl (AmqpCodecError m))) ?s2"
    by (rule publishes_again.Raised)
  then have "republishes broker_answers (ss_parked reopened) reopened [(long_id, Inl (AmqpCodecError m))] (Inl (AmqpCodecError m)) ?s2"
    unfolding parts(7) by (rule republishes.Raised) (simp add: republish_failed_def)
  then have "republishes_parked broker_answers reopened [(long_id, Inl (AmqpCodecError m))] (Inl (AmqpCodecError m)) ?s2"
    by (intro republishes_parked.Loop) (simp_all add: parts)
  then show ?thesis using parts c(2) by (intro exI[of _ m] exI[of _ ?s2]) (simp add: reply_queue_open_def)
qed

theorem failed_republish_is_not_retried_witness:
  "\<exists>f s'. coordinator_reconnect f (default_policy False) lost_session = (Inr (), [5 / 100], s') \<and>
     dict_get (fst (ss_corr s')) [105] = Some 1 \<and> dict_get (ss_parked s') [105] = Some (sample_parked None)"
proof -
  obtain m s2 where r: "republishes_parked broker_answers reopened [(long_id, Inl (AmqpCodecError m))] (Inl (AmqpCodecError m)) s2"
    "reply_queue_open s2" "ss_corr s2 = ss_corr lost_session" "c_lost (ss_conn s2) = None"
    using reopened_republish by blast
  let ?f = "\<lambda>t. if reply_queue_open t then (Inr (), t) else (Inl (AmqpCodecError m), s2)"
  have shut: "\<not> reply_queue_open lost_session" by (simp add: reply_queue_open_def lost_session_def)
  have 1: "\<not> rp_fail_outstanding (ss_policy reopened)"
    by (simp add: reopened_def reopen_def lost_session_def waiting_session_def fresh_session_def default_policy_def)
  have 2: "\<forall>a b. broker_answers a b \<longrightarrow> spares (fst ` set (ss_parked reopened)) a b \<and> stays_open a b"
    by (auto simp: broker_answers_def stays_open_def intro: spares_same)
  have 3: "\<forall>t. broker_answers s2 t \<longrightarrow> c_lost (ss_conn t) = None" using r(4) by (auto simp: broker_answers_def sample_conn_parts)
  have 4: "reconnects broker_answers s2 (fst (?f s2)) (snd (?f s2))"
    using r(2) by (auto intro!: reconnects.Open simp: broker_answers_def reconnect_begin_def)
  have 5: "make_policy (default_policy False) = Inr (default_policy False)" "2 \<le> rp_max_attempts (default_policy False)"
    by (simp_all add: make_policy_def default_policy_def)
  obtain s' where s': "coordinator_reconnect ?f (default_policy False) lost_session = (Inr (), [rp_initial_backoff (default_policy False)], s')"
    "broker_answers s2 s'"
    "\<forall>rid env. dict_get (ss_parked reopened) rid = Some env \<and> rid \<notin> fst ` set [(long_id, Inl (AmqpCodecError m) :: unit res)] \<and>
       dict_get (fst (ss_corr s')) rid \<noteq> None \<longrightarrow>
       dict_get (fst (ss_corr s')) rid = dict_get (fst (ss_corr reopened)) rid \<and> dict_get (ss_parked s') rid = Some env"
    using failed_republish_is_not_retried[where f = ?f, OF reopened_starts 1 r(1) _ 2 3 _ 4 5] shut by auto
  have other: "long_id \<noteq> [105]" by (auto simp: long_id_def dest: arg_cong[where f = length])
  have "dict_get (fst (ss_corr s')) [105] = Some 1"
    using s'(2) r(3) other by (auto simp: broker_answers_def lost_session_def)
  moreover have "dict_get (ss_parked reopened) [105] = Some (sample_parked None)" "[105] \<noteq> long_id"
    using other by (auto simp: reopened_def reopen_def lost_session_def)
  ultimately show ?thesis using s'(1,3) by (intro exI[of _ ?f] exI[of _ s']) (simp add: default_policy_def)
qed

text \<open>No attempt gets a connection.\<close>

definition no_broker :: "session \<Rightarrow> unit res \<times> session" where
  "no_broker t = (case reconnect_begin t of
     None \<Rightarrow> (Inr (), t) | Some t1 \<Rightarrow> (Inl (OtherError ''refused''), new_epoch [100] t1))"

lemma no_broker_reconnects: "reconnects (=) t (fst (no_broker t)) (snd (no_broker t))"
proof (cases "reconnect_begin t")
  case None
  then show ?thesis by (simp add: no_broker_def reconnects.Open[OF refl])
next
  case (Some t1)
  have "session_starts (=) (new_epoch [100] t1) (Inl (OtherError ''refused'')) (new_epoch [100] t1)"
    by (rule session_starts.Not_Connected) (rule refl)
  from epoch_starts.Epoch[where others = "(=)", OF refl Some refl this] show ?thesis
    by (simp add: no_broker_def Some reconnects.Failed)
qed

theorem given_up_reconnect_fails_all_witness:
  "snd (ss_corr (snd (park_reconnect no_broker (on_connection_lost (ConnectionLost ''gone'') (waiting_session False))))) ! 0 =
     Failed (RpcError CONNECTION_LOST (S ''refused'') (Some [(S ''code_name'', VStr (S ''CONNECTION_LOST'')), (S ''retryable'', VBool True)]) None)"
proof -
  let ?s = "on_connection_lost (ConnectionLost ''gone'') (waiting_session False)"
  let ?waits = "\<lambda>t. \<not> reply_queue_open t \<and> \<not> rp_fail_outstanding (ss_policy t) \<and> ss_corr t = ([([105], 0)], [Pending])"
  note defs = waiting_session_def fresh_session_def default_policy_def
  have pol: "ss_policy ?s = default_policy False" "make_policy (ss_policy ?s) = Inr (ss_policy ?s)"
    by (simp_all add: on_connection_lost_def Let_def defs make_policy_def)
  have live: "corr_live (ss_corr ?s)"
    using session_live[OF fresh_session_init waiting_session_run] on_connection_lost_follows by (auto simp: corr_follows_def)
  obtain r slept s' where c: "coordinator_reconnect no_broker (ss_policy ?s) ?s = (r, slept, s')" by (metis prod_cases3)
  have start: "?waits ?s" by (simp add: on_connection_lost_def Let_def reply_queue_open_def defs)
  have step: "?waits (snd (no_broker t)) \<and> fst (no_broker t) = Inl (OtherError ''refused'')" if "?waits t" for t
    using that by (simp add: no_broker_def reconnect_begin_def teardown_for_reconnect_def Let_def new_epoch_def session_start_begin_def
        stop_reply_task_def reply_queue_open_def)
  have "?waits (after_attempts no_broker (length slept) ?s)"
    using step start by (intro attempts_keep[where P = ?waits]) blast+
  from step[OF this] have "?waits s' \<and> r = Inl (OtherError ''refused'')"
    using reconnect_ends[OF pol(2) c] by simp
  then have s': "ss_corr s' = ([([105], 0)], [Pending])" and r: "r = Inl (OtherError ''refused'')" by simp_all
  obtain sl s'' where p: "park_reconnect no_broker ?s = (sl, s'')" by force
  have h: "\<forall>t. reconnects (=) t (fst (no_broker t)) (snd (no_broker t))" "\<forall>a b. a = b \<longrightarrow> corr_follows a b"
    by (simp_all add: no_broker_reconnects)
  from given_up_reconnect_fails_all[where others = "(=)", OF live pol(2) h c p, THEN conjunct2, THEN conjunct2, THEN conjunct2,
      THEN conjunct2, rule_format, OF conjI, OF r] s'
  show ?thesis by (simp add: p)
qed

end
