(* ===== verification/ParkedCall.thy ===== *)
theory ParkedCall
  imports Republish
begin

text \<open>
  A call over a reconnect, from the publish before the loss to the reply on the new connection: \<open>RpcClient.request\<close>
  of \<^verbatim>\<open>src/src/nuropb_rmq/patterns/rpc.py\<close> with \<open>_on_connection_lost\<close>, \<open>reconnect\<close> and \<open>_republish_parked\<close> of
  \<^verbatim>\<open>src/src/nuropb_rmq/session/session.py\<close>, joined through the states of one session.
\<close>

section \<open>The publish of a parked request\<close>

text \<open>The turn of the loop up to its confirm; \<open>sent\<close> is written with the message.\<close>

inductive republish_sends :: "(session \<Rightarrow> session \<Rightarrow> bool) \<Rightarrow> pystr \<Rightarrow> parked \<Rightarrow> session \<Rightarrow> bytes \<Rightarrow> session \<Rightarrow> bool"
  for others where
  At_Once: "republish_begin rid env s = Some (Inr (Some (AwaitConfirm tf)), s') \<Longrightarrow>
    c_out (ss_conn s') = c_out (ss_conn s) @ sent \<Longrightarrow> republish_sends others rid env s sent s'"
| Selected: "republish_begin rid env s = Some (Inr (Some (AwaitSelect fut props)), s1) \<Longrightarrow> others s1 s2 \<Longrightarrow>
    fut_done (c_wfuts (ss_conn s2)) fut \<Longrightarrow> republish_selected env fut props s2 = Some (Inr (AwaitConfirm tf), s') \<Longrightarrow>
    c_out (ss_conn s') = c_out (ss_conn s2) @ sent \<Longrightarrow> republish_sends others rid env s sent s'"

lemma conn_changed_alive: "c_lost (ss_conn s) = None \<Longrightarrow> c_lost c = None \<Longrightarrow> conn_changed s c = s\<lparr>ss_conn := c\<rparr>"
  by (simp add: conn_changed_def)

lemma changed_conn [simp]: "ss_conn (conn_changed s c) = c" "ss_channel (conn_changed s c) = ss_channel s"
  by (simp_all add: conn_changed_def on_connection_lost_def fail_outstanding_def Let_def split: option.split)

text \<open>It publishes the envelope with the id and the present reply queue, if the id is still waited for.\<close>

lemma republish_sends_publishes:
  assumes "republish_sends others rid env s sent s'" "\<And>a b. others a b \<Longrightarrow> ss_channel b = ss_channel a"
  shows "corr_contains rid (ss_corr s) \<and>
    publish_sends (ss_channel s) (pk_body env) (pk_exchange env) (pk_key env) (republish_props (ss_reply_queue s) rid env) True
      (pk_profile env) (pk_confirm env) (pk_mandatory env) (ss_conn s) sent (ss_conn s')"
  using assms(1)
proof cases
  case (At_Once tf)
  then show ?thesis
    by (auto simp: republish_begin_def publish_sends_def split: if_splits option.splits prod.splits sum.splits)
next
  case (Selected fut props s1 s2 tf)
  have "corr_contains rid (ss_corr s)" "ss_channel s1 = ss_channel s"
    "basic_publish_begin (ss_channel s) (pk_body env) (pk_exchange env) (pk_key env) (Some (republish_props (ss_reply_queue s) rid env)) True
       (pk_profile env) (pk_confirm env) (pk_mandatory env) (ss_conn s) = Some (Inr (AwaitSelect fut props), ss_conn s1)"
    using Selected(1) by (auto simp: republish_begin_def split: if_splits option.splits prod.splits sum.splits)
  moreover have "basic_publish_selected (ss_channel s2) fut (pk_body env) (pk_exchange env) (pk_key env) props True (pk_mandatory env)
      (ss_conn s2) = Some (Inr (AwaitConfirm tf), ss_conn s')"
    using Selected(4) by (auto simp: republish_selected_def split: option.splits prod.splits)
  ultimately show ?thesis using Selected(5) assms(2)[OF Selected(2)] unfolding publish_sends_def by metis
qed

section \<open>The run\<close>

context reconnect_order
begin

lemma sends_keeps:
  assumes "republish_sends others rid env s sent s'" "\<And>a b. others a b \<Longrightarrow> R a b"
  shows "R s s'"
  using assms(1)
proof cases
  case (Selected fut props s1 s2 tf)
  show ?thesis
    by (rule R_trans[OF R_begin[OF Selected(1)] R_trans[OF assms(2)[OF Selected(2)] R_selected[OF Selected(4)]]])
qed (rule R_begin)

lemma parked_run_keeps:
  assumes o: "\<And>a b. others a b \<Longrightarrow> R a b"
    and "others a sl" "conn_next (ss_conn sl) lost" "epoch_starts others (conn_changed sl lost) (Inr ()) sn"
    and "republishes others before sn made (Inr ()) sr" "republish_sends others rid env sr sent st" "others st s"
  shows "R a sn" "R sn s"
proof -
  have "R sl (conn_changed sl lost)" by (rule R_conn[OF conn_next_evolves[OF assms(3)]])
  then show "R a sn" using R_trans[OF o[OF assms(2)]] R_trans epoch_keeps[OF assms(4) o] by blast
  show "R sn s"
    by (rule R_trans[OF loop_keeps[OF assms(5) o] R_trans[OF sends_keeps[OF assms(6) o] o[OF assms(7)]]])
qed

end

text \<open>Steps of the session keep the table of requests in order, and its channel is always the same.\<close>

lemma session_channel: "session_next s s' \<Longrightarrow> ss_channel s' = ss_channel s"
proof (induction rule: session_next.induct)
  case (Register gen request_id m n s x n' s')
  then show ?case by (auto simp: request_register_def split: option.splits if_splits)
next
  case (Reply msg s u s')
  then show ?case by (auto simp: on_reply_def on_conn_def forget_publish_def Let_def split: prod.splits option.splits pyval.splits)
next
  case (Republish rid env s a s')
  then show ?case by (auto simp: republish_begin_def forget_publish_def split: if_splits option.splits prod.splits sum.splits)
qed (auto simp: session_start_begin_def session_queue_begin_def session_queue_declared_def on_conn_def session_started_def session_close_def
    stop_reply_task_def reconnect_begin_def teardown_for_reconnect_def fail_outstanding_def new_epoch_def republish_failed_def forget_publish_def
    park_reconnected_def reply_loop_ends_def on_connection_lost_def request_publish_begin_def request_published_def remember_publish_def
    request_failed_def request_timed_out_def wait_timed_out_def request_finish_def Let_def
    split: prod.splits if_splits option.splits sum.splits fut.splits py_exc.splits)

lemma session_run_allowed:
  "session_next\<^sup>*\<^sup>* a b \<Longrightarrow> corr_follows a b \<and> ss_channel b = ss_channel a"
proof (induction rule: rtranclp_induct)
  case (step b c)
  then show ?case using session_channel follows_trans session_next_follows by metis
qed simp

text \<open>What is published again.\<close>

lemma republish_props_parts:
  "dict_get (republish_props (Some queue) rid env) (S ''correlation_id'') = Some (VStr rid)"
  "dict_get (republish_props (Some queue) rid env) (S ''reply_to'') = Some (VStr queue)"
  "props_ok basic_props (pk_props env) \<Longrightarrow> props_ok basic_props (republish_props (Some queue) rid env)"
  by (simp_all add: republish_props_def props_ok_def basic_props_def)

lemma republished_target:
  assumes "publish_sends ch body ex key (republish_props (Some queue) rid env) dr profile confirm mand c sent c'" "body \<noteq> []"
    and "props_ok basic_props (pk_props env)" "arrives (c_frame_max c') sent ch2 d msg d'"
  shows "reply_target msg = (if queue = [] then None else Some queue)"
proof -
  have e: "drain_buffer (c_frame_max c') [] = ([], [], None)"
    by (simp add: drain_buffer.simps[of _ "[]"] decode_frame_def)
  have "arrives (c_frame_max c') (sent @ []) ch2 d msg d'" using assms(4) by simp
  from sent_arrives[OF assms(1,2) republish_props_parts(3)[OF assms(3)] this e]
  obtain x where x: "sent_as profile (republish_props (Some queue) rid env) x" "i_props msg = read_props basic_props x" by auto
  then show ?thesis
    by (simp add: reply_target_def read_call_props sent_as_get[OF x(1)] republish_props_parts(2))
qed

lemma takeWhile_dict_get:
  "dict_get xs k = Some v \<Longrightarrow> \<exists>later. xs = takeWhile (\<lambda>x. fst x \<noteq> k) xs @ (k, v) # later"
  by (induction xs) (auto simp: dict_get_def split: if_splits)

text \<open>
  C2. A parked call is answered. A request is outstanding, published and confirmed, so that its envelope is kept; then the
  connection is lost, a reconnect starts a new epoch of the same session with a new connection and a new reply queue, and the
  loop over the parked requests comes to this one and publishes its envelope with the name of the new reply queue. Other tasks
  run at every await on the way: all that is asked of them is that they keep the table of requests in order, do not take up this
  id and do not open another channel. If the request is then delivered, handled and replied to while its id is outstanding, then
  neither the loss nor the teardown nor the start has dropped or changed its envelope, the request names the new reply queue, the
  future under the id is the one that the caller has been waiting on since before the loss, and the caller's request finishes
  with the outcome of the handler.\<close>

theorem parked_call_is_answered:
  assumes "request_message m params rid q claims = Inr (body, props)" "well_keyed params" "rid \<noteq> []" "props_ok basic_props props"
    and "session_init cfg bt fb fo pol uuid = Inr s0" "session_next\<^sup>*\<^sup>* s0 sp" "dict_get (fst (ss_corr sp)) rid = Some fut"
    and "\<forall>a b. others a b \<longrightarrow> corr_follows a b \<and> spares {rid} a b \<and> ss_channel b = ss_channel a"
    and "others (request_published profile rid exchange target body props sp) sl"
    and "c_lost (ss_conn sl) = None" "conn_next (ss_conn sl) lost" "c_lost lost = Some e"
    and "epoch_starts others (conn_changed sl lost) (Inr ()) sn"
    and "env = \<lparr>pk_exchange = exchange, pk_key = target, pk_body = body, pk_props = props, pk_profile = Some profile,
      pk_mandatory = True, pk_confirm = None\<rparr>"
    and "republishes others (takeWhile (\<lambda>x. fst x \<noteq> rid) (ss_parked sn)) sn made (Inr ()) sr"
    and "ss_reply_queue sr = Some queue"
    and "republish_sends others rid env sr sent st" "arrives (c_frame_max (ss_conn st)) sent sch d msg d'"
    and "\<forall>a. auth = Some a \<longrightarrow> (\<exists>v. verify_request jwt a m (json_norm params) rid (i_props msg) = Inr v)"
    and "keyed_outcome (handler m (json_norm params))"
    and "server_handle jwt auth handler sch msg d' = Some (Inr (), d'')" "c_out d'' = c_out d' @ answered"
    and "others st s" "arrives (c_frame_max d') answered rch (ss_conn s) reply c''"
    and "dict_get (fst (ss_corr s)) rid \<noteq> None"
    and "on_reply reply (conn_changed s c'') = (r, s1)" "session_next\<^sup>*\<^sup>* s1 s2"
  shows "(\<exists>later. ss_parked sn = takeWhile (\<lambda>x. fst x \<noteq> rid) (ss_parked sn) @ (rid, env) # later) \<and>
    reply_target msg = (if queue = [] then None else Some queue) \<and> dict_get (fst (ss_corr s)) rid = Some fut \<and>
    request_finish rid m fut s2 = (client_sees rid (handled handler m (json_norm params) rid), s2)"
proof -
  let ?p = "request_published profile rid exchange target body props sp"
  have o: "others a b \<Longrightarrow> corr_follows a b" "others a b \<Longrightarrow> spares {rid} a b" "others a b \<Longrightarrow> ss_channel b = ss_channel a" for a b
    using assms(8) by blast+
  note run = assms(9,11,13,15,17,23)
  have sp: "spares {rid} ?p sn" "spares {rid} sn s" using spared.parked_run_keeps[OF o(2) run] by blast+
  have "corr_live (ss_corr ?p)" using session_live[OF assms(5,6)] by (simp add: request_published_def remember_publish_def)
  then have live: "corr_live (ss_corr s)"
    using followed.parked_run_keeps[OF o(1) run] by (auto simp: corr_follows_def)
  have n: "dict_get (fst (ss_corr sn)) rid \<noteq> None" using sp(2) assms(25) by (auto simp: spares_def)
  have fut: "dict_get (fst (ss_corr s)) rid = Some fut"
    using sp n assms(7,25) by (auto simp: spares_def request_published_def remember_publish_def)
  have "dict_get (ss_parked sn) rid = Some env"
    using sp(1) n by (auto simp: spares_def request_published_def remember_publish_def assms(14))
  then have kept: "\<exists>later. ss_parked sn = takeWhile (\<lambda>x. fst x \<noteq> rid) (ss_parked sn) @ (rid, env) # later"
    by (rule takeWhile_dict_get)
  note parts = request_message_parts[OF assms(1)]
  have ok: "props_ok basic_props (pk_props env)" using assms(4) by (simp add: assms(14))
  have sent: "publish_sends (ss_channel sr) body exchange target (republish_props (Some queue) rid env) True (Some profile) None True
      (ss_conn sr) sent (ss_conn st)"
    using republish_sends_publishes[OF assms(17) o(3)] by (simp add: assms(14,16))
  have "request_finish rid m fut s2 = (client_sees rid (handled handler m (json_norm params) rid), s2)"
    by (rule sent_call_answered[OF parts(1) republish_props_parts(1) assms(2,3) republish_props_parts(3)[OF ok] sent assms(18-22)
          assms(24) live fut assms(26,27)])
  then show ?thesis
    using kept fut republished_target[OF sent request_body_not_empty[OF parts(1)] ok assms(18)] by blast
qed

text \<open>A request that waits, a connection that drops, and a new epoch.\<close>

lemma sample_lost_at:
  fixes p :: queue_profile and body :: "8 word list" and old :: "(nat list \<times> pyval) list"
  defines "pub \<equiv> request_published p [105] [] [116] body old (waiting_session False)"
    and "lost \<equiv> force_drop (conn_init sample_session_config)"
  shows "ss_conn pub = conn_init sample_session_config" "c_lost (ss_conn pub) = None"
    "c_lost lost = Some (ConnectionLost ''connection dropped'')"
    "ss_channel (conn_changed pub lost) = 1" "\<not> reply_queue_open (conn_changed pub lost)"
    "\<not> rp_fail_outstanding (ss_policy (conn_changed pub lost))" "ss_corr (conn_changed pub lost) = ([([105], 0)], [Pending])"
    "ss_parked (conn_changed pub lost) = [([105], \<lparr>pk_exchange = [], pk_key = [116], pk_body = body, pk_props = old,
       pk_profile = Some p, pk_mandatory = True, pk_confirm = None\<rparr>)]"
proof -
  note defs = request_published_def remember_publish_def waiting_session_def fresh_session_def default_policy_def
  show lost: "c_lost lost = Some (ConnectionLost ''connection dropped'')"
    by (simp add: lost_def force_drop_def notify_loss_def conn_init_def as_lost_def fail_waiters_def Let_def)
  show conn: "ss_conn pub = conn_init sample_session_config" "c_lost (ss_conn pub) = None"
    by (simp_all add: pub_def defs conn_init_def)
  show "ss_channel (conn_changed pub lost) = 1" "\<not> reply_queue_open (conn_changed pub lost)"
    "\<not> rp_fail_outstanding (ss_policy (conn_changed pub lost))" "ss_corr (conn_changed pub lost) = ([([105], 0)], [Pending])"
    "ss_parked (conn_changed pub lost) = [([105], \<lparr>pk_exchange = [], pk_key = [116], pk_body = body, pk_props = old,
       pk_profile = Some p, pk_mandatory = True, pk_confirm = None\<rparr>)]"
    using conn lost by (simp_all add: conn_changed_def on_connection_lost_def reply_queue_open_def Let_def pub_def defs)
qed

lemma sample_reopened:
  fixes p :: queue_profile and body :: "8 word list" and old :: "(nat list \<times> pyval) list"
  defines "sn \<equiv> reopen (conn_changed (request_published p [105] [] [116] body old (waiting_session False))
    (force_drop (conn_init sample_session_config)))"
  shows "ss_channel sn = 1" "ss_reply_queue sn = Some [114]" "ss_conn sn = sample_conn" "ss_corr sn = ([([105], 0)], [Pending])"
    "ss_parked sn = [([105], \<lparr>pk_exchange = [], pk_key = [116], pk_body = body, pk_props = old,
       pk_profile = Some p, pk_mandatory = True, pk_confirm = None\<rparr>)]" "corr_contains [105] (ss_corr sn)"
  using sample_lost_at(1,2,4-8)[of p body old] by (simp_all add: sn_def reopen_def corr_contains_def dict_has_def)

theorem parked_call_is_answered_witness:
  "\<exists>p env old lost sn st s reply c'' r s1.
     old = request_published p [105] [] [116] (pk_body env) (pk_props env) (waiting_session False) \<and>
     conn_next (ss_conn old) lost \<and> c_lost lost \<noteq> None \<and> epoch_starts broker_answers (conn_changed old lost) (Inr ()) sn \<and>
     dict_get (pk_props env) (S ''reply_to'') = Some (VStr [111]) \<and> (\<exists>sent. republish_sends broker_answers [105] env sn sent st) \<and>
     broker_answers st s \<and> on_reply reply (conn_changed s c'') = (r, s1) \<and> request_finish [105] [109] 0 s1 = (Inr (VInt 7), s1)"
proof -
  let ?h = "\<lambda>_ _. Inr (VInt 7) :: pyval res" and ?params = "VTuple [VInt 7, VNone]" and ?sp = "waiting_session False"
  let ?old = "[(S ''content_type'', VStr (S ''application/json'')), (S ''correlation_id'', VStr [105]), (S ''reply_to'', VStr [111])]"
  obtain p :: queue_profile where p: "qp_delivery_mode p = 2" using client_profile_exists by blast
  obtain body where body: "encode_request [109] ?params [105] = Inr body" "length body < 100" using sample_call_encodes(1) by blast
  let ?env = "\<lparr>pk_exchange = [], pk_key = [116], pk_body = body, pk_props = ?old, pk_profile = Some p, pk_mandatory = True, pk_confirm = None\<rparr>"
  let ?pub = "request_published p [105] [] [116] body ?old ?sp" and ?lost = "force_drop (conn_init sample_session_config)"
  let ?sl = "conn_changed ?pub ?lost"
  let ?sn = "reopen ?sl"
  note conn = sample_lost_at(1,2)[of p body ?old] and lost = sample_lost_at(3)
    and sl = sample_lost_at(4-8)[of p body ?old] and sn = sample_reopened[of p body ?old]
  have ps: "republish_props (Some [114]) [105] ?env = call_props" by (simp add: republish_props_def call_props_def)
  obtain sent c' tf msg c2 w reply d' where made: "basic_publish_begin 1 body [] [116] (Some call_props) True (Some p) None True sample_conn =
      Some (Inr (AwaitConfirm tf), c')" "c_out c' = c_out sample_conn @ sent" "c_lost c' = None"
    and call: "arrives (c_frame_max c') sent 1 sample_conn msg sample_conn" "server_handle sample_jwt None ?h 1 msg sample_conn = Some (Inr (), c2)"
    "c_out c2 = c_out sample_conn @ w" "arrives (c_frame_max sample_conn) w 1 sample_conn reply d'"
    using sample_call_made[OF body p sample_conn_parts(4,5)] by blast
  let ?st = "conn_changed ?sn c'" and ?s = "(conn_changed ?sn c')\<lparr>ss_conn := sample_conn\<rparr>"
  have st: "?st = ?sn\<lparr>ss_conn := c'\<rparr>"
    by (rule conn_changed_alive[OF _ made(3)]) (simp only: sn(3) sample_conn_parts(5))
  have "republish_begin [105] ?env ?sn = Some (Inr (Some (AwaitConfirm tf)), ?st)"
    using sn made(1) by (simp add: republish_begin_def ps)
  then have pub: "republish_sends broker_answers [105] ?env ?sn sent ?st"
    by (rule republish_sends.At_Once) (simp add: made(2) sn(3))
  have arr: "arrives (c_frame_max (ss_conn ?st)) sent 1 sample_conn msg sample_conn" "arrives (c_frame_max sample_conn) w 1 (ss_conn ?s) reply d'"
    using call(1,4) by simp_all
  have s: "broker_answers ?st ?s" "dict_get (fst (ss_corr ?s)) [105] \<noteq> None" using made(3) sn(4) by (simp_all add: broker_answers_def st)
  have o: "\<forall>a b. broker_answers a b \<longrightarrow> corr_follows a b \<and> spares {[105]} a b \<and> ss_channel b = ss_channel a"
    by (auto simp: broker_answers_def intro: spares_same)
  obtain r s1 where r: "on_reply reply (conn_changed ?s d') = (r, s1)" by force
  have req: "request_message [109] ?params [105] [111] None = Inr (body, ?old)" by (simp add: request_message_def body(1))
  have ok: "props_ok basic_props ?old" by (simp add: props_ok_def basic_props_def)
  have waits: "dict_get (fst (ss_corr ?sp)) [105] = Some 0" by (simp add: waiting_session_def)
  have own: "broker_answers ?pub ?pub" using conn by (simp add: broker_answers_def)
  have rep: "republishes broker_answers (takeWhile (\<lambda>x. fst x \<noteq> [105]) (ss_parked ?sn)) ?sn [] (Inr ()) ?sn"
    by (simp only: sn(5)) (simp add: republishes.Done)
  have step: "conn_next (ss_conn ?pub) ?lost" unfolding conn(1) by (rule conn_next.Drop)
  have epoch: "epoch_starts broker_answers ?sl (Inr ()) ?sn" by (rule reopens[OF sl(1-3)])
  have fin: "request_finish [105] [109] 0 s1 = (client_sees [105] (handled ?h [109] (json_norm ?params) [105]), s1)"
    by (rule parked_call_is_answered[OF req _ _ ok fresh_session_init waiting_session_run waits o own conn(2) step lost epoch refl rep sn(2) pub arr(1) _ _ call(2,3) s(1) arr(2) s(2) r rtranclp.rtrancl_refl, THEN conjunct2, THEN conjunct2,
          THEN conjunct2]) (simp_all add: keyed_outcome_def)
  have res: "request_finish [105] [109] 0 s1 = (Inr (VInt 7), s1)" using fin by (simp only: sample_outcome)
  have to: "dict_get (pk_props ?env) (S ''reply_to'') = Some (VStr [111])" "c_lost ?lost \<noteq> None" using lost by simp_all
  have old: "?pub = request_published p [105] [] [116] (pk_body ?env) (pk_props ?env) ?sp" by simp
  show ?thesis
    by (rule exI[of _ p], rule exI[of _ ?env], rule exI[of _ ?pub], rule exI[of _ ?lost], rule exI[of _ ?sn], rule exI[of _ ?st],
        rule exI[of _ ?s], rule exI[of _ reply], rule exI[of _ d'], rule exI[of _ r], rule exI[of _ s1])
      (intro conjI old step to epoch exI[of _ sent] pub s(1) r res)
qed

end
