(* ===== verification/Permissions.thy ===== *)
theory Permissions
  imports Mesh Session
begin

text \<open>
  The permission templates of \<^verbatim>\<open>src/src/nuropb_rmq/patterns/acl.py\<close> against the names that sessions and mesh
  services use.
\<close>

lemmas restricted_templates = can_configure_def can_publish_def can_read_def acl_allowed_iff
  REPLY_PUBLISH_RESTRICTED_CLIENT_def REPLY_PUBLISH_RESTRICTED_SERVICE_def

text \<open>The names of a service that is made with the defaults.\<close>

lemma default_service_names:
  assumes "mesh_init identity methods DEFAULT_MESH_EXCHANGE None ch None ann reg ttl inst uuid = Inr m"
  shows "ms_exchange m = S ''nr.mesh''" "ms_queue_name m = S ''nr.svc.'' @ identity"
    "qp_dlx (ms_profile m) = Some (S ''nr.dlx.'' @ identity)"
  using assms by (auto simp: mesh_init_def DEFAULT_MESH_EXCHANGE_def durable_at_least_once_def make_profile_Inr
      bind_r_Inr_iff split: if_splits)

text \<open>
  C36. The restricted roles meet at the mesh exchange and nowhere else. With the restricted client
  template a session may declare and consume its reply queue and publish requests to the mesh exchange; what it may publish to is exactly the
  names that start with \<open>nr.mesh\<close>, none of which it may declare or read, so that it can neither forge a reply nor put a
  message into a service's queue, which it cannot read or declare either. With the service template a mesh
  service that is made with the defaults may declare and consume its queue, read from the mesh exchange, dead-letter and publish to
  every reply queue, none of which it can read. What the service template does not grant, although \<open>start\<close> asks the
  broker for it, is to declare the mesh exchange and the dead-letter exchange, and to write to the queue that it binds; nor
  does it grant \<^verbatim>\<open>amq.default\<close>, the name that RabbitMQ checks for a publish to the nameless exchange, which is where
  the server publishes its replies.\<close>

theorem restricted_roles_meet_at_the_mesh:
  assumes "mesh_init identity methods DEFAULT_MESH_EXCHANGE None ch None ann reg ttl inst uuid = Inr m"
  shows "can_configure REPLY_PUBLISH_RESTRICTED_CLIENT (reply_queue_name s) \<and> can_read REPLY_PUBLISH_RESTRICTED_CLIENT (reply_queue_name s) \<and>
      can_publish REPLY_PUBLISH_RESTRICTED_CLIENT (ms_exchange m) \<and>
      (can_publish REPLY_PUBLISH_RESTRICTED_CLIENT n \<longleftrightarrow> prefix (S ''nr.mesh'') n) \<and>
      (can_publish REPLY_PUBLISH_RESTRICTED_CLIENT n \<longrightarrow>
         \<not> can_configure REPLY_PUBLISH_RESTRICTED_CLIENT n \<and> \<not> can_read REPLY_PUBLISH_RESTRICTED_CLIENT n) \<and>
      \<not> can_publish REPLY_PUBLISH_RESTRICTED_CLIENT (reply_queue_name s) \<and>
      \<not> can_publish REPLY_PUBLISH_RESTRICTED_CLIENT (ms_queue_name m) \<and>
      \<not> can_configure REPLY_PUBLISH_RESTRICTED_CLIENT (ms_queue_name m) \<and> \<not> can_read REPLY_PUBLISH_RESTRICTED_CLIENT (ms_queue_name m) \<and>
    can_configure REPLY_PUBLISH_RESTRICTED_SERVICE (ms_queue_name m) \<and> can_read REPLY_PUBLISH_RESTRICTED_SERVICE (ms_queue_name m) \<and>
      can_read REPLY_PUBLISH_RESTRICTED_SERVICE (ms_exchange m) \<and>
      can_publish REPLY_PUBLISH_RESTRICTED_SERVICE (reply_queue_name s) \<and> \<not> can_read REPLY_PUBLISH_RESTRICTED_SERVICE (reply_queue_name s) \<and>
      (\<exists>x. qp_dlx (ms_profile m) = Some x \<and> can_publish REPLY_PUBLISH_RESTRICTED_SERVICE x \<and>
        \<not> can_configure REPLY_PUBLISH_RESTRICTED_SERVICE x) \<and>
      \<not> can_configure REPLY_PUBLISH_RESTRICTED_SERVICE (ms_exchange m) \<and> \<not> can_publish REPLY_PUBLISH_RESTRICTED_SERVICE (ms_queue_name m) \<and>
      \<not> can_publish REPLY_PUBLISH_RESTRICTED_SERVICE (S ''amq.default'')"
  by (simp add: default_service_names[OF assms] restricted_templates reply_queue_name_def S_def) (auto simp: prefix_def)

theorem restricted_roles_meet_at_the_mesh_witness:
  "\<exists>m. mesh_init (S ''pay'') [S ''charge''] DEFAULT_MESH_EXCHANGE None 1 None False [] DEFAULT_ADVERTISE_TTL_S None [1] = Inr m \<and>
     can_publish REPLY_PUBLISH_RESTRICTED_CLIENT (ms_exchange m) \<and> \<not> can_publish REPLY_PUBLISH_RESTRICTED_CLIENT (ms_queue_name m) \<and>
     \<not> can_configure REPLY_PUBLISH_RESTRICTED_SERVICE (ms_exchange m)"
proof -
  have "\<exists>m. mesh_init (S ''pay'') [S ''charge''] DEFAULT_MESH_EXCHANGE None 1 None False [] DEFAULT_ADVERTISE_TTL_S None [1] = Inr m"
    by (simp add: mesh_init_def durable_at_least_once_def make_profile_def post_init_def requires_dlx_def delivery_modes
        mesh_routing_key_def S_def name_start_def name_char_def at_dollar_def assert_in_namespace_def namespace_prefix_def)
  then show ?thesis using restricted_roles_meet_at_the_mesh by blast
qed

end
