(* ===== verification/Credentials.thy ===== *)
theory Credentials
  imports ConnLife TlsMaterial Json
begin

text \<open>
  \<^verbatim>\<open>src/src/nuropb_rmq/transport/connection.py\<close>: what the connection does with the user's secrets
  besides sending them. The printed form of a configuration, and the temporary files that hold the
  client certificate and its key while \<open>ssl\<close> loads them. \<open>repr\<close> of a \<open>str\<close> and what the operating
  system and \<open>ssl\<close> answer are arguments.
\<close>

section \<open>The printed configuration\<close>

definition optional_repr :: "(pystr \<Rightarrow> pystr) \<Rightarrow> pystr option \<Rightarrow> pystr" where
  "optional_repr str_repr v = (case v of None \<Rightarrow> S ''None'' | Some s \<Rightarrow> str_repr s)"

definition bool_repr :: "bool \<Rightarrow> pystr" where
  "bool_repr b = (if b then S ''True'' else S ''False'')"

fun joined :: "pystr list \<Rightarrow> pystr" where
  "joined [] = []"
| "joined [s] = s"
| "joined (s # ss) = s @ S '', '' @ joined ss"

definition pem_repr :: "string \<Rightarrow> pem_data option \<Rightarrow> pystr res" where
  "pem_repr label data =
     (case data of None \<Rightarrow> Inr (redact_pem label None) | Some p \<Rightarrow> bind_r (as_pem_bytes p) (\<lambda>b. Inr (redact_pem label (Some b))))"

text \<open>\<open>ConnectionConfig.__repr__\<close>; a PEM text that is not UTF-8 makes it raise.\<close>

definition config_repr :: "(pystr \<Rightarrow> pystr) \<Rightarrow> int \<Rightarrow> conn_config \<Rightarrow> tls_config \<Rightarrow> pystr res" where
  "config_repr str_repr port c t =
     cat_r [Inr (S ''ConnectionConfig(host='' @ str_repr (cfg_host c) @ S '', port=''), int_text port,
       Inr (S '', virtual_host='' @ str_repr (cfg_virtual_host c) @ S '', username='' @ str_repr (cfg_username c)
         @ S '', password=<redacted>, heartbeat=''), int_text (cfg_heartbeat c),
       Inr (S '', frame_max=''), int_text (cfg_frame_max c),
       Inr (S '', tls='' @ bool_repr (cfg_tls c) @ S '', tls_profile='' @ str_repr (cfg_tls_profile c)
         @ S '', ca_file='' @ optional_repr str_repr (t_ca_file t) @ S '', cert_file='' @ optional_repr str_repr (t_cert_file t)
         @ S '', key_file='' @ optional_repr str_repr (t_key_file t) @ S '', ''),
       pem_repr ''ca_data'' (t_ca_data t), Inr (S '', ''), pem_repr ''cert_data'' (t_cert_data t), Inr (S '', ''),
       pem_repr ''key_data'' (t_key_data t),
       Inr (S '', tls_secrets='' @ (if t_secrets t \<noteq> None then S ''set'' else S ''None'')
         @ S '', pkcs12_file='' @ optional_repr str_repr (t_pkcs12_file t) @ S '', ''),
       pem_repr ''pkcs12_data'' (map_option PemBytes (t_pkcs12_data t)),
       Inr (S '', pkcs12_password=<redacted>, server_hostname='' @ optional_repr str_repr (cfg_server_hostname c)
         @ S '', custom_sans=['' @ joined (map str_repr (cfg_custom_sans c)) @ S ''])'')]"

text \<open>
  Two configurations that differ in their passwords, in what their secrets hook returns and in the
  octets of their keys and certificates print the same.
\<close>

definition same_shape :: "pem_data option \<Rightarrow> pem_data option \<Rightarrow> bool" where
  "same_shape a b \<longleftrightarrow> map_option (\<lambda>p. map_sum id length (as_pem_bytes p)) a = map_option (\<lambda>p. map_sum id length (as_pem_bytes p)) b"

lemma pem_repr_shape: "same_shape a b \<Longrightarrow> pem_repr label a = pem_repr label b"
  by (cases a; cases b) (auto simp: same_shape_def pem_repr_def redact_pem_def map_sum_def split: sum.splits)

lemma config_repr_hides_secrets:
  assumes "same_shape (t_ca_data t) ca" "same_shape (t_cert_data t) cert" "same_shape (t_key_data t) key"
    and "same_shape (map_option PemBytes (t_pkcs12_data t)) (map_option PemBytes bag)" "secrets = None \<longleftrightarrow> t_secrets t = None"
  shows "config_repr str_repr port (c\<lparr>cfg_password := pw\<rparr>)
      (t\<lparr>t_ca_data := ca, t_cert_data := cert, t_key_data := key, t_secrets := secrets, t_pkcs12_data := bag, t_pkcs12_password := bpw\<rparr>) =
    config_repr str_repr port c t"
  using assms by (simp add: config_repr_def pem_repr_shape[of _ ca] pem_repr_shape[of _ cert] pem_repr_shape[of _ key]
      pem_repr_shape[of _ "map_option PemBytes bag"])

section \<open>The client certificate on disk\<close>

type_synonym disk = "(pystr \<times> bytes) list"

text \<open>
  What becomes of a temporary file that is created, written and closed: it is not created; a write
  raises when \<open>n\<close> octets are in it, before the code has its name; closing it raises, after; or it is
  written.
\<close>

datatype temp_outcome = Not_Created py_exc | Write_Raises pystr nat py_exc | Close_Raises pystr nat py_exc | Written pystr

fun write_temp :: "temp_outcome \<Rightarrow> bytes \<Rightarrow> disk \<Rightarrow> pystr option \<times> unit res \<times> disk" where
  "write_temp (Not_Created e) data d = (None, Inl e, d)"
| "write_temp (Write_Raises p n e) data d = (None, Inl e, dict_set d p (take n data))"
| "write_temp (Close_Raises p n e) data d = (Some p, Inl e, dict_set d p (take n data))"
| "write_temp (Written p) data d = (Some p, Inr (), dict_set d p data)"

datatype load_outcome = Chain_Loaded | Ssl_Error | Load_Raises py_exc

record os_answers =
  oa_cert :: temp_outcome
  oa_cert_chmod :: "unit res"
  oa_key :: temp_outcome
  oa_key_chmod :: "unit res"
  oa_load :: load_outcome
  oa_unlink :: "pystr \<Rightarrow> bool"

fun load_result :: "load_outcome \<Rightarrow> unit res" where
  "load_result Chain_Loaded = Inr ()"
| "load_result Ssl_Error = Inl (ValueError ''invalid client certificate/key PEM (load_cert_chain failed)'')"
| "load_result (Load_Raises e) = Inl e"

text \<open>The \<open>try\<close> block: the two names as far as they were assigned, and its outcome.\<close>

definition load_try :: "os_answers \<Rightarrow> tls_material \<Rightarrow> bytes \<Rightarrow> disk \<Rightarrow> pystr option \<times> pystr option \<times> unit res \<times> disk" where
  "load_try a m cert d =
     (case write_temp (oa_cert a) cert d of
        (cp, Inl e, d1) \<Rightarrow> (cp, None, Inl e, d1)
      | (cp, Inr _, d1) \<Rightarrow>
          (case (oa_cert_chmod a, key_pem m) of
             (Inl e, _) \<Rightarrow> (cp, None, Inl e, d1)
           | (Inr _, None) \<Rightarrow> (cp, None, load_result (oa_load a), d1)
           | (Inr _, Some key) \<Rightarrow>
               (case write_temp (oa_key a) key d1 of
                  (kp, Inl e, d2) \<Rightarrow> (cp, kp, Inl e, d2)
                | (kp, Inr _, d2) \<Rightarrow>
                    (case oa_key_chmod a of
                       Inl e \<Rightarrow> (cp, kp, Inl e, d2)
                     | Inr _ \<Rightarrow> (cp, kp, load_result (oa_load a), d2)))))"

definition unlink_temp :: "os_answers \<Rightarrow> pystr option \<Rightarrow> disk \<Rightarrow> disk" where
  "unlink_temp a path d = (case path of None \<Rightarrow> d | Some p \<Rightarrow> if oa_unlink a p then dict_del d p else d)"

definition load_cert_chain :: "os_answers \<Rightarrow> tls_material \<Rightarrow> disk \<Rightarrow> unit res \<times> disk" where
  "load_cert_chain a m d =
     (case cert_pem m of
        None \<Rightarrow> (Inl (OtherError ''AssertionError''), d)
      | Some cert \<Rightarrow> (case load_try a m cert d of (cp, kp, r, d') \<Rightarrow> (r, unlink_temp a kp (unlink_temp a cp d'))))"

text \<open>The operating system does not reuse a name for a temporary file.\<close>

fun temp_name :: "temp_outcome \<Rightarrow> pystr option" where
  "temp_name (Not_Created e) = None"
| "temp_name (Write_Raises p n e) = Some p"
| "temp_name (Close_Raises p n e) = Some p"
| "temp_name (Written p) = Some p"

definition fresh_names :: "os_answers \<Rightarrow> disk \<Rightarrow> bool" where
  "fresh_names a d \<longleftrightarrow>
     (\<forall>p. temp_name (oa_cert a) = Some p \<or> temp_name (oa_key a) = Some p \<longrightarrow> p \<notin> fst ` set d) \<and>
     (\<forall>p. temp_name (oa_cert a) = Some p \<longrightarrow> temp_name (oa_key a) \<noteq> Some p)"

text \<open>
  What is left behind of a file: what was written of it, if its write raised, or if the operating system
  does not remove it (the \<open>OSError\<close> of \<open>unlink\<close> is ignored).
\<close>

fun left_behind :: "(pystr \<Rightarrow> bool) \<Rightarrow> temp_outcome \<Rightarrow> bytes \<Rightarrow> disk" where
  "left_behind removes (Not_Created e) data = []"
| "left_behind removes (Write_Raises p n e) data = [(p, take n data)]"
| "left_behind removes (Close_Raises p n e) data = (if removes p then [] else [(p, take n data)])"
| "left_behind removes (Written p) data = (if removes p then [] else [(p, data)])"

definition key_is_written :: "os_answers \<Rightarrow> bool" where
  "key_is_written a \<longleftrightarrow> (\<exists>p. oa_cert a = Written p) \<and> oa_cert_chmod a = Inr ()"

definition left_on_disk :: "os_answers \<Rightarrow> tls_material \<Rightarrow> disk" where
  "left_on_disk a m =
     (case cert_pem m of
        None \<Rightarrow> []
      | Some cert \<Rightarrow> left_behind (oa_unlink a) (oa_cert a) cert @
          (case key_pem m of
             None \<Rightarrow> []
           | Some key \<Rightarrow> if key_is_written a then left_behind (oa_unlink a) (oa_key a) key else []))"

lemma dict_del_fresh: "k \<notin> fst ` set d \<Longrightarrow> dict_del d k = d"
  by (force simp: dict_del_def filter_id_conv)

lemma dict_del_append: "dict_del (a @ b) k = dict_del a k @ dict_del b k"
  by (simp add: dict_del_def)

lemma dict_del_list: "dict_del [] k = []" "dict_del ((k', v) # d) k = (if k' = k then dict_del d k else (k', v) # dict_del d k)"
  by (simp_all add: dict_del_def)

lemmas disk_simps = dict_set_new dict_del_fresh dict_del_append dict_del_list

text \<open>
  C16. The client's key stays on disk in two cases only. However loading it ends, with success or with any
  exception of the operating system or of \<open>ssl\<close>, the disk is as before but for a file of which either the
  write itself raised, because its name is noted only after the write, or which the operating system does
  not remove, because that error is ignored: such a file stays with what was written of it. If no write raises
  and both files are removed when asked, nothing is left.\<close>

theorem key_leaves_no_file:
  assumes "fresh_names a d"
  shows "snd (load_cert_chain a m d) = d @ left_on_disk a m \<and>
    (\<forall>p data. (p, data) \<in> set (left_on_disk a m) \<longrightarrow>
       (\<exists>n e. oa_cert a = Write_Raises p n e \<or> oa_key a = Write_Raises p n e) \<or> \<not> oa_unlink a p)"
proof -
  have "snd (load_cert_chain a m d) = d @ left_on_disk a m"
  proof (cases "cert_pem m")
    case (Some cert)
    have p: "q \<notin> fst ` set d" if "temp_name (oa_cert a) = Some q" for q using assms that by (simp add: fresh_names_def)
    show ?thesis
    proof (cases "key_is_written a \<and> key_pem m \<noteq> None")
      case True
      then obtain q key where c: "oa_cert a = Written q" "oa_cert_chmod a = Inr ()" "key_pem m = Some key"
        by (auto simp: key_is_written_def)
      have q: "q \<notin> fst ` set d" by (rule p) (simp add: c(1))
      have k: "x \<notin> fst ` set d" "x \<noteq> q" "q \<noteq> x" if "temp_name (oa_key a) = Some x" for x
        using assms c(1) that by (auto simp: fresh_names_def)
      show ?thesis
        using q k by (cases "oa_key a"; cases "oa_key_chmod a")
          (auto simp: load_cert_chain_def Some load_try_def c unlink_temp_def left_on_disk_def key_is_written_def disk_simps)
    next
      case False
      then show ?thesis
        using p by (cases "oa_cert a"; cases "oa_cert_chmod a"; cases "key_pem m")
          (auto simp: load_cert_chain_def Some load_try_def unlink_temp_def left_on_disk_def key_is_written_def disk_simps)
    qed
  qed (simp add: load_cert_chain_def left_on_disk_def)
  moreover have "(\<exists>n e. t = Write_Raises p n e) \<or> \<not> r p" if "(p, data) \<in> set (left_behind r t b)" for r t b p data
    using that by (cases t) (auto split: if_splits)
  ultimately show ?thesis by (fastforce simp: left_on_disk_def split: option.splits if_splits)
qed

theorem key_leaves_no_file_witness:
  "snd (load_cert_chain \<lparr>oa_cert = Written [97], oa_cert_chmod = Inr (), oa_key = Close_Raises [98] 1 TimeoutError,
      oa_key_chmod = Inr (), oa_load = Chain_Loaded, oa_unlink = (\<lambda>_. True)\<rparr>
     \<lparr>ca_pem = None, cert_pem = Some [1], key_pem = Some [2, 3]\<rparr> [([99], [7])]) = [([99], [7])]"
  by (subst key_leaves_no_file[THEN conjunct1]) (auto simp: fresh_names_def left_on_disk_def key_is_written_def)

end
