(* ===== verification/Heartbeat.thy ===== *)
theory Heartbeat
  imports ConnEdges
begin

text \<open>
  \<^verbatim>\<open>src/src/nuropb_rmq/transport/connection.py\<close>: the heartbeat task of a connection in time. The
  read loop notes when a frame of the peer is complete, the task wakes twice an interval, compares
  and sends a heartbeat. Times are seconds of the monotonic clock.
\<close>

section \<open>The task\<close>

text \<open>Where the task is: in its sleep or in the drain of its heartbeat since a time, cutting the connection at one, or over.\<close>

datatype watching = Asleep real | Sending real | Cut real | Over

record watchdog =
  wd_conn :: conn
  wd_interval :: int
  wd_seen :: real
  wd_task :: watching

definition sleep_for :: "int \<Rightarrow> real" where
  "sleep_for interval = max (real_of_int interval / 2) (1 / 20)"

text \<open>\<open>_start_heartbeat\<close>, as the last step of connecting.\<close>

definition watch_start :: "int \<Rightarrow> real \<Rightarrow> conn \<Rightarrow> watchdog" where
  "watch_start heartbeat now c =
     (case start_heartbeat heartbeat c of (_, c') \<Rightarrow>
        \<lparr>wd_conn = c', wd_interval = c_heartbeat c', wd_seen = now, wd_task = (if 0 < c_heartbeat c' then Asleep now else Over)\<rparr>)"

text \<open>\<open>while not self._closed and self._lost_exc is None\<close>, before a sleep.\<close>

definition watch_loop :: "real \<Rightarrow> watchdog \<Rightarrow> watchdog" where
  "watch_loop now w =
     w\<lparr>wd_task := (if c_closed (wd_conn w) \<or> c_lost (wd_conn w) \<noteq> None then Over else Asleep now)\<rparr>"

text \<open>From the end of the sleep to the drain.\<close>

definition watch_wake :: "real \<Rightarrow> watchdog \<Rightarrow> watchdog" where
  "watch_wake now w =
     (case heartbeat_tick (wd_interval w) (now - wd_seen w) (wd_conn w) of (goes, c) \<Rightarrow>
        w\<lparr>wd_conn := c,
          wd_task := (if goes then Sending now
                      else if c_closed (wd_conn w) \<or> c_lost (wd_conn w) \<noteq> None then Over
                      else if now - wd_seen w > 2 * real_of_int (wd_interval w) then Cut now else Over)\<rparr>)"

text \<open>A read of the peer's octets: a complete frame is noted, whatever then becomes of it.\<close>

definition frame_complete :: "bytes \<Rightarrow> conn \<Rightarrow> bool" where
  "frame_complete chunk c \<longleftrightarrow>
     chunk \<noteq> [] \<and> (case decode_frame (c_buffer c @ chunk) (c_frame_max c) 0 of Inr _ \<Rightarrow> True | Inl _ \<Rightarrow> False)"

definition watch_read :: "real \<Rightarrow> bytes \<Rightarrow> watchdog \<Rightarrow> watchdog" where
  "watch_read now chunk w =
     w\<lparr>wd_conn := snd (on_chunk chunk (wd_conn w)),
       wd_seen := (if frame_complete chunk (wd_conn w) then now else wd_seen w)\<rparr>"

text \<open>
  What can happen at a time: nothing, a read, the end of the sleep, the end of the drain, a drain that
  raises, the cancellation by a \<open>close\<close> or a drop, and any step of another task.
\<close>

inductive watch_next :: "real \<times> watchdog \<Rightarrow> real \<times> watchdog \<Rightarrow> bool" where
  Idle: "t \<le> t' \<Longrightarrow> watch_next (t, w) (t', w)"
| Reads: "t \<le> t' \<Longrightarrow> watch_next (t, w) (t', watch_read t' chunk w)"
| Wakes: "t \<le> t' \<Longrightarrow> wd_task w = Asleep s \<Longrightarrow> s + sleep_for (wd_interval w) \<le> t' \<Longrightarrow>
    watch_next (t, w) (t', watch_wake t' w)"
| Sent: "t \<le> t' \<Longrightarrow> wd_task w = Sending s \<Longrightarrow> watch_next (t, w) (t', watch_loop t' w)"
| Unsent: "t \<le> t' \<Longrightarrow> wd_task w = Sending s \<Longrightarrow>
    watch_next (t, w) (t', w\<lparr>wd_conn := notify_loss e (wd_conn w), wd_task := Over\<rparr>)"
| Cancelled: "t \<le> t' \<Longrightarrow> c_closed (wd_conn w) \<Longrightarrow> watch_next (t, w) (t', w\<lparr>wd_task := Over\<rparr>)"
| Acts: "t \<le> t' \<Longrightarrow> conn_next (wd_conn w) c' \<Longrightarrow> watch_next (t, w) (t', w\<lparr>wd_conn := c'\<rparr>)"

text \<open>
  The event loop is on time: no sleep lasts \<open>lag\<close> longer than it should and no drain longer than
  \<open>lag\<close>.
\<close>

fun due :: "real \<Rightarrow> watchdog \<Rightarrow> real \<Rightarrow> bool" where
  "due lag w t =
     (case wd_task w of
        Asleep s \<Rightarrow> t \<le> s + sleep_for (wd_interval w) + lag
      | Sending s \<Rightarrow> t \<le> s + lag
      | _ \<Rightarrow> True)"

definition on_time :: "real \<Rightarrow> real \<times> watchdog \<Rightarrow> real \<times> watchdog \<Rightarrow> bool" where
  "on_time lag x y \<longleftrightarrow> watch_next x y \<and> due lag (snd x) (fst y)"

text \<open>The peer is heard: nothing happens later than two intervals after its last frame.\<close>

definition heard :: "real \<times> watchdog \<Rightarrow> real \<times> watchdog \<Rightarrow> bool" where
  "heard x y \<longleftrightarrow> watch_next x y \<and> fst y \<le> wd_seen (snd x) + 2 * real_of_int (wd_interval (snd x))"

section \<open>What holds of the task at any time\<close>

definition gone :: "conn \<Rightarrow> bool" where
  "gone c \<longleftrightarrow> c_closed c \<or> c_lost c \<noteq> None"

lemma gone_stays: "evolves c c' \<Longrightarrow> gone c \<Longrightarrow> gone c'"
  by (auto simp: gone_def evolves_def)

lemma lost_is_gone: "gone (notify_loss e c)"
proof (cases "c_lost c")
  case None
  obtain ts h where "fail_trackers (as_lost e) (c_confirm c) (c_cfuts c) = (ts, h)" by force
  from notify_loss_parts(1)[OF None this] show ?thesis by (simp add: gone_def)
qed (simp add: gone_def notify_loss_def)

lemma tick_stops_gone: "heartbeat_tick h silent c = (False, c') \<Longrightarrow> gone c'"
  using lost_is_gone by (auto simp: heartbeat_tick_def gone_def split: if_splits sum.splits prod.splits)

lemma tick_goes_on: "heartbeat_tick h silent c = (True, c') \<Longrightarrow> \<not> gone c \<and> silent \<le> 2 * real_of_int h"
  by (auto simp: heartbeat_tick_def gone_def split: if_splits sum.splits prod.splits)

lemma watch_next_gone: "watch_next x y \<Longrightarrow> gone (wd_conn (snd x)) \<Longrightarrow> gone (wd_conn (snd y))"
proof (induction rule: watch_next.induct)
  case (Reads t t' w chunk)
  then show ?case using gone_stays[OF on_chunk_evolves] by (simp add: watch_read_def)
next
  case (Wakes t t' w s)
  then show ?case using gone_stays[OF heartbeat_tick_evolves] by (simp add: watch_wake_def split: prod.split) (metis snd_conv)
next
  case (Acts t t' w c')
  then show ?case using gone_stays[OF conn_next_evolves] by simp
qed (simp_all add: watch_loop_def lost_is_gone)

text \<open>
  Until the connection is gone the task is in a sleep or in a drain that began soon enough after the
  last frame.
\<close>

definition watches :: "real \<Rightarrow> int \<Rightarrow> real \<times> watchdog \<Rightarrow> bool" where
  "watches lag h x \<longleftrightarrow>
     (case x of (t, w) \<Rightarrow> wd_interval w = h \<and> wd_seen w \<le> t \<and> due lag w t \<and>
        (gone (wd_conn w) \<or>
         (case wd_task w of
            Asleep s \<Rightarrow> s \<le> wd_seen w + 2 * real_of_int h + lag
          | Sending s \<Rightarrow> s \<le> wd_seen w + 2 * real_of_int h
          | _ \<Rightarrow> False)))"

lemma watches_next:
  assumes "watches lag h x" "on_time lag x y" "0 \<le> lag" "0 < h"
  shows "watches lag h y"
proof -
  have n: "watch_next x y" and d: "due lag (snd x) (fst y)" using assms(2) by (simp_all add: on_time_def)
  have g: "gone (wd_conn (snd x)) \<Longrightarrow> gone (wd_conn (snd y))" using watch_next_gone[OF n] .
  show ?thesis
    using n d g assms(1,3,4)
  proof (induction rule: watch_next.induct)
    case (Reads t t' w chunk)
    then show ?case by (auto simp: watches_def watch_read_def split: watching.splits)
  next
    case (Wakes t t' w s)
    obtain b c where b: "heartbeat_tick h (t' - wd_seen w) (wd_conn w) = (b, c)" by force
    show ?case
    proof (cases b)
      case True
      then show ?thesis using Wakes tick_goes_on[of h "t' - wd_seen w" "wd_conn w" c] b by (auto simp: watches_def watch_wake_def)
    next
      case False
      then show ?thesis using Wakes tick_stops_gone[of h _ "wd_conn w" c] b by (auto simp: watches_def watch_wake_def)
    qed
  next
    case (Unsent t t' w s e)
    then show ?case by (simp add: watches_def lost_is_gone)
  next
    case (Sent t t' w s)
    then show ?case by (auto simp: watches_def watch_loop_def sleep_for_def gone_def)
  qed (auto simp: watches_def gone_def split: watching.splits)
qed

lemma watch_start_parts:
  assumes "0 < h"
  shows "wd_interval (watch_start h t c) = h" "wd_seen (watch_start h t c) = t" "wd_task (watch_start h t c) = Asleep t"
    "gone (wd_conn (watch_start h t c)) = gone c"
  using assms by (simp_all add: watch_start_def start_heartbeat_def modify_s_def gone_def)

text \<open>While the peer is heard the task cuts nothing.\<close>

lemma heard_next: "heard x y \<Longrightarrow> wd_task (snd y) = Cut T \<Longrightarrow> wd_task (snd x) = Cut T"
proof -
  assume "heard x y" "wd_task (snd y) = Cut T"
  then have "watch_next x y" "fst y \<le> wd_seen (snd x) + 2 * real_of_int (wd_interval (snd x))" "wd_task (snd y) = Cut T"
    by (simp_all add: heard_def)
  then show ?thesis
    by (induction rule: watch_next.induct) (auto simp: watch_read_def watch_wake_def watch_loop_def split: prod.splits if_splits)
qed

text \<open>
  C23. The watchdog keeps its times. While the event loop is on time (no sleep and no drain takes more
  than \<open>lag\<close> seconds too long), whatever the other tasks do, a connection whose peer has not
  completed a frame for two and a half heartbeat intervals and twice that lag is lost or closed;
  and as long as nothing happens later than two intervals after a frame the watchdog cuts nothing.\<close>

theorem silent_peer_is_noticed:
  assumes "1 \<le> h" "0 \<le> lag"
  shows "((on_time lag)\<^sup>*\<^sup>* (t0, watch_start h t0 c) (t, w) \<longrightarrow>
      wd_seen w + 5 / 2 * real_of_int h + 2 * lag < t \<longrightarrow> c_closed (wd_conn w) \<or> c_lost (wd_conn w) \<noteq> None) \<and>
    (heard\<^sup>*\<^sup>* (t0, watch_start h t0 c) (t, w) \<longrightarrow> wd_task w \<noteq> Cut T)"
proof (intro conjI impI)
  have start: "watches lag h (t0, watch_start h t0 c)"
    using assms by (simp add: watches_def watch_start_parts sleep_for_def)
  assume run: "(on_time lag)\<^sup>*\<^sup>* (t0, watch_start h t0 c) (t, w)" and late: "wd_seen w + 5 / 2 * real_of_int h + 2 * lag < t"
  have "watches lag h (t, w)"
    using run start assms by (induction rule: rtranclp_induct) (auto intro: watches_next)
  moreover have "sleep_for h = real_of_int h / 2" using assms(1) by (simp add: sleep_for_def)
  ultimately show "c_closed (wd_conn w) \<or> c_lost (wd_conn w) \<noteq> None"
    using late assms by (auto simp: watches_def gone_def split: watching.splits)
next
  assume "heard\<^sup>*\<^sup>* (t0, watch_start h t0 c) (t, w)"
  then have "wd_task (snd (t, w)) = Cut T \<longrightarrow> wd_task (watch_start h t0 c) = Cut T"
    by (induction rule: rtranclp_induct) (auto dest: heard_next)
  then show "wd_task w \<noteq> Cut T" using watch_start_parts(3)[of h t0 c] assms(1) by auto
qed

theorem silent_peer_is_noticed_witness:
  "\<exists>w. (on_time 10)\<^sup>*\<^sup>* (0, watch_start 2 0 sample_conn) (100, w) \<and> \<not> gone sample_conn \<and> gone (wd_conn w)"
proof -
  let ?w = "watch_start 2 0 sample_conn"
  have h: "(0 :: int) < 2" by simp
  note parts = watch_start_parts[OF h, of 0 sample_conn]
  have cut: "wd_task (watch_wake 5 ?w) = Cut 5" "wd_seen (watch_wake 5 ?w) = 0"
    by (simp_all add: watch_wake_def heartbeat_tick_def parts) (simp_all add: watch_start_def start_heartbeat_def modify_s_def sample_conn_def conn_init_def)
  have "on_time 10 (0, ?w) (5, watch_wake 5 ?w)"
    using Wakes[of 0 5 ?w 0] parts by (simp add: on_time_def sleep_for_def)
  moreover have "on_time 10 (5, watch_wake 5 ?w) (100, watch_wake 5 ?w)"
    using Idle[of 5 100 "watch_wake 5 ?w"] cut by (simp add: on_time_def)
  ultimately have run: "(on_time 10)\<^sup>*\<^sup>* (0, ?w) (100, watch_wake 5 ?w)" by (meson rtranclp.rtrancl_into_rtrancl rtranclp.rtrancl_refl)
  then have "gone (wd_conn (watch_wake 5 ?w))"
    using silent_peer_is_noticed[of 2 10 0 sample_conn 100 "watch_wake 5 ?w"] cut by (simp add: gone_def)
  moreover have "\<not> gone sample_conn" by (simp add: gone_def sample_conn_def conn_init_def)
  ultimately show ?thesis using run by blast
qed

text \<open>Octets of a frame that is not complete are not noted: while it arrives the peer counts as silent.\<close>

lemma octets_are_not_noted:
  assumes "decode_frame (c_buffer (wd_conn w) @ chunk) (c_frame_max (wd_conn w)) 0 = Inl e"
  shows "wd_seen (watch_read t chunk w) = wd_seen w"
  using assms by (simp add: watch_read_def frame_complete_def)

text \<open>
  A drain that does not end keeps the watchdog from its next look: with a write buffer that is full
  because the peer has gone, any time may pass with the connection up.
\<close>

lemma undrained_watchdog_waits:
  assumes "1 \<le> h" "heartbeat_tick h (sleep_for h) (wd_conn (watch_start h t0 c)) = (True, c')" "t0 + sleep_for h \<le> t"
  shows "\<exists>w. watch_next\<^sup>*\<^sup>* (t0, watch_start h t0 c) (t, w) \<and> wd_seen w = t0 \<and> wd_conn w = c'"
proof -
  let ?w = "watch_start h t0 c" and ?t = "t0 + sleep_for h"
  have parts: "wd_interval ?w = h" "wd_seen ?w = t0" "wd_task ?w = Asleep t0" using assms(1) by (simp_all add: watch_start_parts)
  have "0 \<le> sleep_for h" by (simp add: sleep_for_def)
  then have "watch_next (t0, ?w) (?t, watch_wake ?t ?w)" by (intro Wakes[OF _ parts(3)]) (simp_all add: parts)
  moreover have "watch_next (?t, watch_wake ?t ?w) (t, watch_wake ?t ?w)" by (rule Idle[OF assms(3)])
  ultimately have "watch_next\<^sup>*\<^sup>* (t0, ?w) (t, watch_wake ?t ?w)" by (meson rtranclp.rtrancl_into_rtrancl rtranclp.rtrancl_refl)
  then show ?thesis using assms(2) parts by (intro exI[of _ "watch_wake ?t ?w"]) (simp add: watch_wake_def)
qed

end
