(* ===== verification/Starting.thy ===== *)
theory Starting
  imports RpcServer Events
begin

text \<open>
  The \<open>start\<close> of the mesh service, the RPC server, the publishers and the consumers from call to
  return (\<^verbatim>\<open>mesh.py\<close>, \<^verbatim>\<open>rpc.py\<close>, \<^verbatim>\<open>events.py\<close>, \<^verbatim>\<open>dlq_timeout.py\<close>, \<^verbatim>\<open>registry.py\<close> under
  \<^verbatim>\<open>src/src/nuropb_rmq/patterns\<close>) and \<open>connect\<close> of \<^verbatim>\<open>src/src/nuropb_rmq/transport/connection.py\<close>: their stretches, joined at
  the awaits. The relation \<open>others\<close> is what the read loop and the other tasks do to the connection
  while an operation waits.
\<close>

section \<open>Runs of operations that wait\<close>

type_synonym 'a run = "conn \<Rightarrow> 'a res \<Rightarrow> conn \<Rightarrow> bool"

definition runs :: "'a cop \<Rightarrow> 'a run" where
  "runs m c r c' \<longleftrightarrow> m c = (r, c')"

definition then_run :: "'a run \<Rightarrow> ('a \<Rightarrow> 'b run) \<Rightarrow> 'b run" where
  "then_run p k c r c' \<longleftrightarrow> (\<exists>e. p c (Inl e) c' \<and> r = Inl e) \<or> (\<exists>v c1. p c (Inr v) c1 \<and> k v c1 r c')"

text \<open>\<open>await self._expect(...)\<close>: the future is done, or the time is up.\<close>

definition awaits :: "(conn \<Rightarrow> conn \<Rightarrow> bool) \<Rightarrow> int \<times> int \<times> int \<Rightarrow> nat \<Rightarrow> (nat \<Rightarrow> 'a cop) \<Rightarrow> 'a run" where
  "awaits others key fut f c r c' \<longleftrightarrow>
     (\<exists>c1. others c c1 \<and>
        (if fut_done (c_wfuts c1) fut then f fut c1 = (r, c')
         else r = Inl TimeoutError \<and> c' = snd (expect_timeout key fut c1)))"

definition asks_for :: "(conn \<Rightarrow> conn \<Rightarrow> bool) \<Rightarrow> int \<times> int \<times> int \<Rightarrow> nat cop \<Rightarrow> (nat \<Rightarrow> 'a cop) \<Rightarrow> 'a run" where
  "asks_for others key b f = then_run (runs b) (\<lambda>fut. awaits others key fut f)"

section \<open>Connecting\<close>

text \<open>\<open>await asyncio.open_connection\<close>: it raises or it does not.\<close>

definition dials :: "(conn \<Rightarrow> conn \<Rightarrow> bool) \<Rightarrow> unit run" where
  "dials others c r c' \<longleftrightarrow> others c c'"

definition connects :: "(conn \<Rightarrow> conn \<Rightarrow> bool) \<Rightarrow> tls_material res \<Rightarrow> unit res \<Rightarrow> bool \<Rightarrow> unit run" where
  "connects others material load has_cert =
     then_run (runs (connect_begin material load)) (\<lambda>ssl.
     then_run (dials others) (\<lambda>_.
     then_run (runs (connect_opened ssl)) (\<lambda>fut.
     then_run (awaits others (0, CONNECTION, CONNECTION_START) fut (connect_started has_cert)) (\<lambda>fut.
     then_run (awaits others (0, CONNECTION, CONNECTION_TUNE) fut connect_tuned) (\<lambda>(heartbeat, fut).
       awaits others (0, CONNECTION, CONNECTION_OPEN_OK) fut (connect_done heartbeat))))))"

definition opens_channel :: "(conn \<Rightarrow> conn \<Rightarrow> bool) \<Rightarrow> int \<Rightarrow> int run" where
  "opens_channel others ch = asks_for others (ch, CHANNEL, CHANNEL_OPEN_OK) (open_channel_begin ch) (open_channel_end ch)"

text \<open>The first two lines of every \<open>start\<close>; \<open>connect\<close> is the run of the connection's own \<open>connect\<close>.\<close>

definition opens :: "(conn \<Rightarrow> conn \<Rightarrow> bool) \<Rightarrow> unit run \<Rightarrow> int \<Rightarrow> int run" where
  "opens others connect ch = then_run connect (\<lambda>_. opens_channel others ch)"

section \<open>Requests\<close>

definition exchange_asked :: "(conn \<Rightarrow> conn \<Rightarrow> bool) \<Rightarrow> int \<Rightarrow> nat cop \<Rightarrow> unit run" where
  "exchange_asked others ch b = asks_for others (ch, EXCHANGE, EXCHANGE_DECLARE_OK) b (exchange_declare_end ch)"

definition queue_asked :: "(conn \<Rightarrow> conn \<Rightarrow> bool) \<Rightarrow> int \<Rightarrow> nat cop \<Rightarrow> pystr run" where
  "queue_asked others ch b = asks_for others (ch, QUEUE, QUEUE_DECLARE_OK) b (queue_declare_end ch)"

definition bind_asked :: "(conn \<Rightarrow> conn \<Rightarrow> bool) \<Rightarrow> int \<Rightarrow> nat cop \<Rightarrow> unit run" where
  "bind_asked others ch b = asks_for others (ch, QUEUE, QUEUE_BIND_OK) b (queue_bind_end ch)"

definition consume_asked :: "(conn \<Rightarrow> conn \<Rightarrow> bool) \<Rightarrow> int \<Rightarrow> nat cop \<Rightarrow> pystr run" where
  "consume_asked others ch b = asks_for others (ch, BASIC, BASIC_CONSUME_OK) b (basic_consume_end ch)"

text \<open>\<open>queue_declare_profile\<close>: the dead-letter exchange first, if the profile has one.\<close>

definition profile_asked ::
  "(conn \<Rightarrow> conn \<Rightarrow> bool) \<Rightarrow> int \<Rightarrow> pystr \<Rightarrow> queue_profile \<Rightarrow> (bool \<times> nat option) cop \<Rightarrow> pystr run" where
  "profile_asked others ch queue p b =
     then_run (runs b) (\<lambda>(auto_delete, dlx).
     then_run (case dlx of
                 None \<Rightarrow> runs (ret_s ())
               | Some fut \<Rightarrow> awaits others (ch, EXCHANGE, EXCHANGE_DECLARE_OK) fut (exchange_declare_end ch)) (\<lambda>_.
       queue_asked others ch (queue_declare_profile_declare ch queue p False auto_delete)))"

section \<open>The mesh service\<close>

primrec mesh_binds :: "(conn \<Rightarrow> conn \<Rightarrow> bool) \<Rightarrow> mesh \<Rightarrow> pystr \<Rightarrow> pystr list \<Rightarrow> unit run" where
  "mesh_binds others m queue [] = runs (ret_s ())"
| "mesh_binds others m queue (key # keys) =
     then_run (bind_asked others (ms_channel m) (mesh_bind_begin m queue key)) (\<lambda>_. mesh_binds others m queue keys)"

text \<open>\<open>_announce\<close>: declare the registry, publish and wait for the confirm if there is to be one.\<close>

definition announces :: "(conn \<Rightarrow> conn \<Rightarrow> bool) \<Rightarrow> int \<Rightarrow> pystr \<Rightarrow> advert \<Rightarrow> unit run" where
  "announces others ch exchange a c r c' \<longleftrightarrow>
     (\<exists>e. announce_publish ch exchange a c = Some (Inl e, c') \<and> r = Inl e) \<or>
     (\<exists>tf c1 c2. announce_publish ch exchange a c = Some (Inr tf, c1) \<and> others c1 c2 \<and>
        (case tf of None \<Rightarrow> True | Some (_, fut) \<Rightarrow> fut_done (c_cfuts c2) fut) \<and> basic_publish_end ch tf False c2 = (r, c'))"

definition mesh_announces :: "(conn \<Rightarrow> conn \<Rightarrow> bool) \<Rightarrow> mesh \<Rightarrow> pystr \<Rightarrow> pyfloat \<Rightarrow> unit run" where
  "mesh_announces others m queue now =
     then_run (exchange_asked others (ms_channel m) (mesh_announce_begin m)) (\<lambda>_.
       announces others (ms_channel m) (ms_registry m) (mesh_advert m now queue))"

definition mesh_declares :: "(conn \<Rightarrow> conn \<Rightarrow> bool) \<Rightarrow> unit run \<Rightarrow> mesh \<Rightarrow> pystr run" where
  "mesh_declares others connect m =
     then_run (opens others connect (ms_channel m)) (\<lambda>_.
     then_run (exchange_asked others (ms_channel m) (mesh_exchange_begin m)) (\<lambda>_.
       profile_asked others (ms_channel m) (ms_queue_name m) (ms_profile m) (mesh_queue_begin m)))"

definition mesh_serves :: "(conn \<Rightarrow> conn \<Rightarrow> bool) \<Rightarrow> mesh \<Rightarrow> pystr \<Rightarrow> pyfloat \<Rightarrow> unit run" where
  "mesh_serves others m queue now =
     then_run (mesh_binds others m queue (ms_keys m)) (\<lambda>_.
       if ms_announce m then mesh_announces others m queue now else runs (ret_s ()))"

text \<open>\<open>start\<close>, which sets \<open>queue\<close> once it is declared and \<open>started\<close> at its end.\<close>

inductive mesh_starts ::
  "(conn \<Rightarrow> conn \<Rightarrow> bool) \<Rightarrow> unit run \<Rightarrow> pyfloat \<Rightarrow> mesh \<Rightarrow> conn \<Rightarrow> pystr res \<Rightarrow> mesh \<Rightarrow> conn \<Rightarrow> bool"
  for others connect now where
  Undeclared: "mesh_declares others connect m c (Inl e) c' \<Longrightarrow> mesh_starts others connect now m c (Inl e) m c'"
| Unbound: "mesh_declares others connect m c (Inr q) c1 \<Longrightarrow> mesh_serves others (mesh_declared q m) q now c1 (Inl e) c' \<Longrightarrow>
    mesh_starts others connect now m c (Inl e) (mesh_declared q m) c'"
| Started: "mesh_declares others connect m c (Inr q) c1 \<Longrightarrow> mesh_serves others (mesh_declared q m) q now c1 (Inr ()) c' \<Longrightarrow>
    mesh_starts others connect now m c (Inr q) (snd (mesh_finish (mesh_declared q m))) c'"

section \<open>Servers, publishers and consumers\<close>

type_synonym 's start = "conn \<Rightarrow> unit res \<Rightarrow> 's \<Rightarrow> conn \<Rightarrow> bool"

text \<open>A \<open>start\<close> that sets its flags at its end only.\<close>

definition started_by :: "'a run \<Rightarrow> ('s \<Rightarrow> 's) \<Rightarrow> 's \<Rightarrow> 's start" where
  "started_by p flag s c r s' c' \<longleftrightarrow>
     (\<exists>e. p c (Inl e) c' \<and> r = Inl e \<and> s' = s) \<or> (\<exists>v. p c (Inr v) c' \<and> r = Inr () \<and> s' = flag s)"

definition server_asks :: "(conn \<Rightarrow> conn \<Rightarrow> bool) \<Rightarrow> unit run \<Rightarrow> server \<Rightarrow> pystr run" where
  "server_asks others connect sv =
     then_run (if sv_owns_conn sv then then_run (opens others connect (sv_channel sv)) (\<lambda>_. runs (ret_s ()))
               else runs (server_check_conn sv)) (\<lambda>_.
     then_run (if sv_declare sv
               then profile_asked others (sv_channel sv) (sv_queue sv) (sv_profile sv)
                 (queue_declare_profile_begin (sv_channel sv) (sv_profile sv) False None)
               else runs (ret_s [])) (\<lambda>_.
       consume_asked others (sv_channel sv) (server_consume_begin sv)))"

definition server_starts :: "(conn \<Rightarrow> conn \<Rightarrow> bool) \<Rightarrow> unit run \<Rightarrow> server \<Rightarrow> server start" where
  "server_starts others connect sv = started_by (server_asks others connect sv) server_started sv"

definition publisher_asks :: "(conn \<Rightarrow> conn \<Rightarrow> bool) \<Rightarrow> unit run \<Rightarrow> publisher \<Rightarrow> unit run" where
  "publisher_asks others connect p =
     then_run (opens others connect (pb_channel p)) (\<lambda>_. exchange_asked others (pb_channel p) (publisher_start_begin p))"

definition publisher_starts :: "(conn \<Rightarrow> conn \<Rightarrow> bool) \<Rightarrow> unit run \<Rightarrow> publisher \<Rightarrow> publisher start" where
  "publisher_starts others connect p = started_by (publisher_asks others connect p) publisher_started p"

definition announcer_asks :: "(conn \<Rightarrow> conn \<Rightarrow> bool) \<Rightarrow> unit run \<Rightarrow> announcer \<Rightarrow> unit run" where
  "announcer_asks others connect a =
     then_run (opens others connect (an_channel a)) (\<lambda>_. exchange_asked others (an_channel a) (announcer_start_begin a))"

definition announcer_starts :: "(conn \<Rightarrow> conn \<Rightarrow> bool) \<Rightarrow> unit run \<Rightarrow> announcer \<Rightarrow> announcer start" where
  "announcer_starts others connect a = started_by (announcer_asks others connect a) announcer_started a"

definition dlq_asks :: "(conn \<Rightarrow> conn \<Rightarrow> bool) \<Rightarrow> unit run \<Rightarrow> dlq \<Rightarrow> pystr run" where
  "dlq_asks others connect q =
     then_run (opens others connect (dq_channel q)) (\<lambda>_.
     then_run (profile_asked others (dq_channel q) (dq_name q) (dq_profile q) (dlq_declare_begin q)) (\<lambda>_.
       consume_asked others (dq_channel q) (dlq_consume_begin q)))"

definition dlq_starts :: "(conn \<Rightarrow> conn \<Rightarrow> bool) \<Rightarrow> unit run \<Rightarrow> dlq \<Rightarrow> dlq start" where
  "dlq_starts others connect q = started_by (dlq_asks others connect q) dlq_started q"

text \<open>The subscriber and the viewer keep the name of the declared queue even if the rest fails.\<close>

definition subscriber_declares :: "(conn \<Rightarrow> conn \<Rightarrow> bool) \<Rightarrow> unit run \<Rightarrow> subscriber \<Rightarrow> pystr run" where
  "subscriber_declares others connect s =
     then_run (opens others connect (sb_channel s)) (\<lambda>_.
     then_run (exchange_asked others (sb_channel s) (subscriber_exchange_begin s)) (\<lambda>_.
       queue_asked others (sb_channel s) (subscriber_queue_begin s)))"

definition subscriber_listens :: "(conn \<Rightarrow> conn \<Rightarrow> bool) \<Rightarrow> subscriber \<Rightarrow> pystr \<Rightarrow> pystr run" where
  "subscriber_listens others s queue =
     then_run (bind_asked others (sb_channel s) (subscriber_bind_begin s queue)) (\<lambda>_.
       consume_asked others (sb_channel s) (subscriber_consume_begin s queue))"

definition viewer_declares :: "(conn \<Rightarrow> conn \<Rightarrow> bool) \<Rightarrow> unit run \<Rightarrow> viewer \<Rightarrow> pystr run" where
  "viewer_declares others connect v =
     then_run (opens others connect (vw_channel v)) (\<lambda>_.
     then_run (exchange_asked others (vw_channel v) (declare_registry_begin (vw_channel v) (vw_exchange v))) (\<lambda>_.
       queue_asked others (vw_channel v) (viewer_queue_begin (vw_channel v))))"

definition viewer_listens :: "(conn \<Rightarrow> conn \<Rightarrow> bool) \<Rightarrow> viewer \<Rightarrow> pystr \<Rightarrow> pystr run" where
  "viewer_listens others v queue =
     then_run (bind_asked others (vw_channel v) (viewer_bind_begin (vw_channel v) queue (vw_exchange v))) (\<lambda>_.
       consume_asked others (vw_channel v) (viewer_consume_begin (vw_channel v) queue))"

inductive listens ::
  "pystr run \<Rightarrow> (pystr \<Rightarrow> pystr run) \<Rightarrow> (pystr \<Rightarrow> 's \<Rightarrow> 's) \<Rightarrow> (pystr \<Rightarrow> 's \<Rightarrow> 's) \<Rightarrow> 's \<Rightarrow> conn \<Rightarrow> unit res \<Rightarrow> 's \<Rightarrow> conn \<Rightarrow> bool"
  for declared listen named started where
  Undeclared: "declared c (Inl e) c' \<Longrightarrow> listens declared listen named started s c (Inl e) s c'"
| Unbound: "declared c (Inr q) c1 \<Longrightarrow> listen q c1 (Inl e) c' \<Longrightarrow>
    listens declared listen named started s c (Inl e) (named q s) c'"
| Listening: "declared c (Inr q) c1 \<Longrightarrow> listen q c1 (Inr ctag) c' \<Longrightarrow>
    listens declared listen named started s c (Inr ()) (started q s) c'"

definition subscriber_starts :: "(conn \<Rightarrow> conn \<Rightarrow> bool) \<Rightarrow> unit run \<Rightarrow> subscriber \<Rightarrow> subscriber start" where
  "subscriber_starts others connect s =
     listens (subscriber_declares others connect s) (subscriber_listens others s) (\<lambda>q s. s\<lparr>sb_queue := Some q\<rparr>)
       subscriber_started s"

definition viewer_starts :: "(conn \<Rightarrow> conn \<Rightarrow> bool) \<Rightarrow> unit run \<Rightarrow> viewer \<Rightarrow> viewer start" where
  "viewer_starts others connect v =
     listens (viewer_declares others connect v) (viewer_listens others v) (\<lambda>q v. v\<lparr>vw_queue := Some q\<rparr>) viewer_started v"

section \<open>What they write\<close>

text \<open>Writes that satisfy the predicates, in their order, among whatever else.\<close>

primrec in_order :: "(bytes \<Rightarrow> bool) list \<Rightarrow> bytes \<Rightarrow> bool" where
  "in_order [] out \<longleftrightarrow> True"
| "in_order (P # Ps) out \<longleftrightarrow> (\<exists>a b d. out = a @ b @ d \<and> P b \<and> in_order Ps d)"

definition sends :: "(bytes \<Rightarrow> bool) list \<Rightarrow> conn \<Rightarrow> conn \<Rightarrow> bool" where
  "sends Ps c c' \<longleftrightarrow> (\<exists>out. c_out c' = c_out c @ out \<and> in_order Ps out)"

text \<open>The frame of a method on a channel, with these texts among its arguments.\<close>

definition asked :: "int \<Rightarrow> int \<Rightarrow> int \<Rightarrow> (string \<times> pystr) list \<Rightarrow> bytes \<Rightarrow> bool" where
  "asked ch cid mid args bs \<longleftrightarrow>
     (\<exists>m fm. m_class m = cid \<and> m_method m = mid \<and> (\<forall>(k, v) \<in> set args. dict_get (m_args m) (S k) = Some (VStr v)) \<and>
        method_bytes fm ch m = Inr bs)"

lemma in_order_later: "in_order Ps out \<Longrightarrow> in_order Ps (a @ out)"
  by (cases Ps) (simp, metis append_assoc in_order.simps(2))

lemma in_order_append: "in_order Ps a \<Longrightarrow> in_order Qs b \<Longrightarrow> in_order (Ps @ Qs) (a @ b)"
proof (induction Ps arbitrary: a)
  case (Cons P Ps)
  then obtain x y z where "a = x @ y @ z" "P y" "in_order Ps z" by auto
  then have "a @ b = x @ y @ z @ b \<and> P y \<and> in_order (Ps @ Qs) (z @ b)" using Cons by simp
  then show ?case unfolding append_Cons in_order.simps by blast
qed (simp add: in_order_later)

lemma sends_trans: "sends Ps a b \<Longrightarrow> sends Qs b c \<Longrightarrow> sends (Ps @ Qs) a c"
  by (auto simp: sends_def intro: in_order_append)

lemma evolves_sends: "evolves c c' \<Longrightarrow> sends [] c c'"
  by (auto simp: evolves_def sends_def prefix_def)

lemma then_runD:
  assumes "then_run p k c (Inr v) c'"
  obtains u c1 where "p c (Inr u) c1" "k u c1 (Inr v) c'"
  using assms by (auto simp: then_run_def)

lemma request_sends:
  assumes "request ch m cid mid c = (Inr fut, c')" "m_class m = k" "m_method m = i"
    "\<forall>(a, v) \<in> set args. dict_get (m_args m) (S a) = Some (VStr v)"
  shows "sends [asked ch k i args] c c'"
proof -
  obtain u c1 where c1: "channel_open_for_ops ch c = (Inr u, c1)"
    and r: "seq_s (send_method ch m) (expect_begin (ch, cid, mid)) c1 = (Inr fut, c')"
    using assms(1) unfolding request_def by (cases "channel_open_for_ops ch c"; cases "fst (channel_open_for_ops ch c)")
      (auto simp: op_simps)
  obtain p where p: "encode_method m = Inr p" using r by (cases "encode_method m") (auto simp: send_method_def op_simps seq_s_def bind_s_def)
  obtain bs where bs: "encode_frame \<lparr>frame_type = METHOD, channel = ch, payload = p\<rparr> (c_frame_max c1) = Inr bs"
    "c_out c' = c_out c1 @ bs"
    using r p by (auto simp: send_method_def send_frame_def write_frame_def drain_def expect_begin_def op_simps seq_s_def bind_s_def
        split: if_splits sum.splits prod.splits)
  have "asked ch k i args bs" unfolding asked_def using assms(2-4) p bs(1)
    by (intro exI[of _ m] exI[of _ "c_frame_max c1"]) (simp add: method_bytes_def)
  moreover have "c_out c1 = c_out c" using channel_open_writes[OF c1] by (simp add: writes_def)
  moreover have "in_order [P] bs" if "P bs" for P
    using that unfolding in_order.simps by (intro exI[of _ "[]"] exI[of _ bs]) simp
  ultimately show ?thesis using bs(2) by (auto simp: sends_def simp del: in_order.simps)
qed

text \<open>A run that returns has written what it should.\<close>

definition sending :: "(bytes \<Rightarrow> bool) list \<Rightarrow> 'a run \<Rightarrow> bool" where
  "sending Ps p \<longleftrightarrow> (\<forall>c v c'. p c (Inr v) c' \<longrightarrow> sends Ps c c')"

lemma sendingD: "sending Ps p \<Longrightarrow> p c (Inr v) c' \<Longrightarrow> sends Ps c c'"
  by (auto simp: sending_def)

lemma sending_runs: "keeps evolves m \<Longrightarrow> sending [] (runs m)"
  unfolding sending_def runs_def by (metis evolves_sends keepsD snd_conv)

lemma sending_then: "sending Ps p \<Longrightarrow> (\<And>u. sending Qs (k u)) \<Longrightarrow> sending (Ps @ Qs) (then_run p k)"
  unfolding sending_def by (blast intro: sends_trans elim: then_runD)

lemmas sending_quiet = sending_then[where Ps = "[]", simplified]

lemma returns_nothing: "sending [] (runs (ret_s x))"
  by (rule sending_runs) (intro evo)

text \<open>What waits for an answer writes nothing of its own.\<close>

locale other_tasks =
  fixes others :: "conn \<Rightarrow> conn \<Rightarrow> bool"
  assumes others_reach: "others c c' \<Longrightarrow> conn_reaches c c'"
begin

lemma others_quiet: "others c c' \<Longrightarrow> sends [] c c'"
  by (rule evolves_sends[OF conn_reaches_evolves[OF others_reach]])

lemma sending_awaits:
  assumes "keeps evolves (f fut)"
  shows "sending [] (awaits others key fut f)"
  unfolding sending_def
proof (intro allI impI)
  fix c v c'
  assume "awaits others key fut f c (Inr v) c'"
  then obtain c1 where c1: "others c c1" and f: "f fut c1 = (Inr v, c')"
    by (auto simp: awaits_def split: if_splits)
  then have "evolves c1 c'" using assms by (metis keepsD snd_conv)
  then show "sends [] c c'" using sends_trans[OF others_quiet[OF c1] evolves_sends] by simp
qed

lemma sending_asks:
  assumes "\<And>fut. keeps evolves (f fut)" "\<And>c fut c'. b c = (Inr fut, c') \<Longrightarrow> sends Ps c c'"
  shows "sending Ps (asks_for others key b f)"
proof -
  have "sending Ps (runs b)" using assms(2) by (simp add: sending_def runs_def)
  moreover have "sending [] (awaits others key fut f)" for fut by (rule sending_awaits) (rule assms(1))
  ultimately show ?thesis unfolding asks_for_def using sending_then[of Ps "runs b" "[]" "\<lambda>fut. awaits others key fut f"] by simp
qed

lemma sending_dials: "sending [] (dials others)"
  by (simp add: sending_def dials_def others_quiet)

lemma sending_opens: "sending [] connect \<Longrightarrow> sending [] (opens others connect ch)"
  unfolding opens_def opens_channel_def asks_for_def by (intro sending_quiet sending_runs sending_awaits evo)

lemma sending_requests:
  "sending [asked ch EXCHANGE EXCHANGE_DECLARE [(''exchange'', x), (''type'', ty)]]
     (exchange_asked others ch (exchange_declare_begin ch x ty d ad))"
  "sending [asked ch QUEUE QUEUE_DECLARE [(''queue'', q)]] (queue_asked others ch (queue_declare_begin ch q d e ad args))"
  "sending [asked ch QUEUE QUEUE_BIND [(''queue'', q), (''exchange'', x), (''routing_key'', k)]]
     (bind_asked others ch (queue_bind_begin ch q x k))"
  "sending [asked ch BASIC BASIC_CONSUME [(''queue'', q)]] (consume_asked others ch (basic_consume_begin ch q t))"
  unfolding exchange_asked_def queue_asked_def bind_asked_def consume_asked_def
    exchange_declare_begin_def queue_declare_begin_def queue_bind_begin_def basic_consume_begin_def
    exchange_declare_end_def queue_declare_end_def queue_bind_end_def basic_consume_end_def
  by (rule sending_asks, intro evo, erule request_sends; simp)+

lemma sending_profile:
  "sending [asked ch QUEUE QUEUE_DECLARE [(''queue'', q)]] (profile_asked others ch q p (queue_declare_profile_begin ch p e ad))"
proof -
  have dlx: "sending [] (case x of None \<Rightarrow> runs (ret_s ()) | Some fut \<Rightarrow>
      awaits others (ch, EXCHANGE, EXCHANGE_DECLARE_OK) fut (exchange_declare_end ch))" for x
    by (cases x) (auto intro!: returns_nothing sending_awaits evo simp: exchange_declare_end_def)
  have "keeps evolves (queue_declare_profile_begin ch p e ad)"
    unfolding queue_declare_profile_begin_def by (intro evo ensure_profile_dlx_evolves)
  then show ?thesis
    unfolding profile_asked_def split_beta queue_declare_profile_declare_def
    by (intro sending_quiet sending_runs dlx sending_requests)
qed

lemma sending_binds:
  "sending (map (\<lambda>k. asked (ms_channel m) QUEUE QUEUE_BIND [(''queue'', q), (''exchange'', ms_exchange m), (''routing_key'', k)]) keys)
     (mesh_binds others m q keys)"
proof (induction keys)
  case (Cons k keys)
  have "mesh_bind_begin m q k c = (Inr fut, c') \<Longrightarrow> queue_bind_begin (ms_channel m) q (ms_exchange m) k c = (Inr fut, c')" for c fut c'
    by (cases "assert_bind_allowed m k") (simp_all add: mesh_bind_begin_def bind_s_def op_simps)
  then have "sending [asked (ms_channel m) QUEUE QUEUE_BIND [(''queue'', q), (''exchange'', ms_exchange m), (''routing_key'', k)]]
      (bind_asked others (ms_channel m) (mesh_bind_begin m q k))"
    using sending_requests(3)[of "ms_channel m" q "ms_exchange m" k]
    by (fastforce simp: sending_def bind_asked_def asks_for_def then_run_def runs_def)
  from sending_then[OF this Cons] show ?case by simp
qed (simp add: returns_nothing)

lemma sending_announcement: "sending [] (announces others ch ex a)"
  unfolding sending_def
proof (intro allI impI)
  fix c v c'
  assume "announces others ch ex a c (Inr v) c'"
  then obtain tf c1 c2 where c1: "announce_publish ch ex a c = Some (Inr tf, c1)" and c2: "others c1 c2"
    and e: "basic_publish_end ch tf False c2 = (Inr v, c')" by (auto simp: announces_def)
  have "evolves c c1"
    using c1 keepsD[OF publish_check_evolves[of ch None "Some announce_props"], of c]
    by (auto simp: announce_publish_def split: sum.splits prod.splits dest!: publish_begin_evolves intro: evolves_trans)
  moreover have "evolves c2 c'"
    using e keepsD[OF publish_end_evolves, of c2] by (auto simp: basic_publish_end_def op_simps split: option.splits) (metis snd_conv)
  ultimately show "sends [] c c'"
    using sends_trans[OF evolves_sends sends_trans[OF others_quiet[OF c2] evolves_sends]] by simp
qed

text \<open>What each \<open>start\<close> writes.\<close>

lemma sending_mesh_declares:
  assumes "sending [] connect"
  shows "sending [asked (ms_channel m) EXCHANGE EXCHANGE_DECLARE [(''exchange'', ms_exchange m), (''type'', S ''direct'')],
            asked (ms_channel m) QUEUE QUEUE_DECLARE [(''queue'', ms_queue_name m)]]
     (mesh_declares others connect m)"
  unfolding mesh_declares_def mesh_exchange_begin_def mesh_queue_begin_def
  using sending_quiet[OF sending_opens[OF assms] sending_then[OF sending_requests(1) sending_profile]] by simp

lemma sending_mesh_serves:
  "sending (map (\<lambda>k. asked (ms_channel m) QUEUE QUEUE_BIND [(''queue'', q), (''exchange'', ms_exchange m), (''routing_key'', k)])
      (ms_keys m)) (mesh_serves others m q now)"
proof -
  have "sending [] (if ms_announce m then mesh_announces others m q now else runs (ret_s ()))"
    unfolding mesh_announces_def mesh_announce_begin_def declare_registry_begin_def exchange_asked_def asks_for_def
      exchange_declare_begin_def exchange_declare_end_def
    by (auto intro!: sending_quiet sending_announcement sending_runs sending_awaits evo)
  from sending_then[OF sending_binds this] show ?thesis unfolding mesh_serves_def by simp
qed

end

interpretation tasks: other_tasks conn_reaches
  by unfold_locales

section \<open>Connecting is steps of the connection\<close>

definition reaching :: "'a run \<Rightarrow> bool" where
  "reaching p \<longleftrightarrow> (\<forall>c r c'. p c r c' \<longrightarrow> conn_reaches c c')"

lemma conn_reaches_trans: "conn_reaches a b \<Longrightarrow> conn_reaches b c \<Longrightarrow> conn_reaches a c"
  unfolding conn_reaches_def by (rule rtranclp_trans)

lemma conn_step_reaches: "conn_next a b \<Longrightarrow> conn_reaches a b"
  unfolding conn_reaches_def by (rule r_into_rtranclp)

lemma reaching_then: "reaching p \<Longrightarrow> (\<And>u. reaching (k u)) \<Longrightarrow> reaching (then_run p k)"
  unfolding reaching_def then_run_def by (blast intro: conn_reaches_trans)

lemma reaching_runs: "(\<And>c r c'. m c = (r, c') \<Longrightarrow> conn_next c c') \<Longrightarrow> reaching (runs m)"
  unfolding reaching_def runs_def by (blast intro: conn_step_reaches)

lemma reaching_awaits: "(\<And>c r c'. f fut c = (r, c') \<Longrightarrow> conn_next c c') \<Longrightarrow> reaching (awaits conn_reaches key fut f)"
  unfolding reaching_def awaits_def
  by (auto intro: conn_reaches_trans[OF _ conn_step_reaches] conn_next.Timeout split: if_splits) (metis conn_next.Timeout conn_reaches_trans conn_step_reaches prod.collapse)

lemma connects_reaching: "reaching (connects conn_reaches material load has_cert)"
proof -
  have "reaching (case x of (hb, fut) \<Rightarrow> awaits conn_reaches (0, CONNECTION, CONNECTION_OPEN_OK) fut (connect_done hb))" for x
    by (cases x) (auto intro: reaching_awaits conn_next.Done)
  moreover have "reaching (dials conn_reaches)" by (simp add: reaching_def dials_def)
  ultimately show ?thesis
    unfolding connects_def
    by (intro reaching_then) (blast intro: reaching_runs reaching_awaits conn_next.intros)+
qed

lemma reaching_sends: "reaching p \<Longrightarrow> sending [] p"
  by (simp add: reaching_def sending_def tasks.others_quiet)

section \<open>What a started service has asked for\<close>

lemma server_consumes:
  assumes "server_from_mesh m auth = Inr sv" "ms_queue m = Some q"
    and "server_starts conn_reaches connect sv c (Inr ()) sv' c'"
  shows "cn_running (sv_life sv')" "sends [asked (ms_channel m) BASIC BASIC_CONSUME [(''queue'', q)]] c c'"
proof -
  have sv: "sv_owns_conn sv = False" "sv_declare sv = False" "sv_queue sv = q" "sv_channel sv = ms_channel m"
    using assms(1,2) by (auto simp: server_from_mesh_def server_init_def split: if_splits)
  obtain t where t: "server_asks conn_reaches connect sv c (Inr t) c'" and s: "sv' = server_started sv"
    using assms(3) by (auto simp: server_starts_def started_by_def)
  have "sending [asked (ms_channel m) BASIC BASIC_CONSUME [(''queue'', q)]] (server_asks conn_reaches connect sv)"
    unfolding server_asks_def sv server_consume_begin_def if_False
    by (intro sending_quiet returns_nothing tasks.sending_requests sending_runs) (simp add: server_check_conn_def keeps_def)
  from sendingD[OF this t] show "sends [asked (ms_channel m) BASIC BASIC_CONSUME [(''queue'', q)]] c c'" .
  show "cn_running (sv_life sv')" by (simp add: s server_started_def consumer_started_def)
qed

text \<open>Every \<open>start\<close> that raised leaves the flags as they were.\<close>

lemma failed_start_starts_nothing:
  "mesh_starts others connect now m c (Inl e) m' c' \<Longrightarrow> ms_started m' = ms_started m"
  "started_by p flag s c (Inl e) s' c' \<Longrightarrow> s' = s"
  "subscriber_starts others connect sb c (Inl e) sb' c' \<Longrightarrow> sb_life sb' = sb_life sb"
  "viewer_starts others connect vw c (Inl e) vw' c' \<Longrightarrow> vw_life vw' = vw_life vw"
  by (auto simp: started_by_def subscriber_starts_def viewer_starts_def mesh_declared_def elim!: mesh_starts.cases listens.cases)

text \<open>The consumers have bound their queue before they consume it.\<close>

lemma subscriber_is_wired:
  assumes "reaching connect" "subscriber_starts conn_reaches connect s c (Inr ()) s' c'"
  shows "\<exists>q. sb_queue s' = Some q \<and> cn_running (sb_life s') \<and>
    sends [asked (sb_channel s) EXCHANGE EXCHANGE_DECLARE [(''exchange'', sb_exchange s), (''type'', sb_type s)],
           asked (sb_channel s) QUEUE QUEUE_DECLARE [(''queue'', sb_queue_name s)],
           asked (sb_channel s) QUEUE QUEUE_BIND [(''queue'', q), (''exchange'', sb_exchange s), (''routing_key'', sb_key s)],
           asked (sb_channel s) BASIC BASIC_CONSUME [(''queue'', q)]] c c'"
proof -
  obtain q c1 t where q: "subscriber_declares conn_reaches connect s c (Inr q) c1"
    "subscriber_listens conn_reaches s q c1 (Inr t) c'" and s: "s' = subscriber_started q s"
    using assms(2) by (auto simp: subscriber_starts_def elim: listens.cases)
  have "sends [asked (sb_channel s) EXCHANGE EXCHANGE_DECLARE [(''exchange'', sb_exchange s), (''type'', sb_type s)],
      asked (sb_channel s) QUEUE QUEUE_DECLARE [(''queue'', sb_queue_name s)]] c c1"
    using sendingD[OF sending_quiet[OF tasks.sending_opens[OF reaching_sends[OF assms(1)]]
        sending_then[OF tasks.sending_requests(1) tasks.sending_requests(2)]]] q(1)
    by (simp add: subscriber_declares_def subscriber_exchange_begin_def subscriber_queue_begin_def)
  from sends_trans[OF this sendingD[OF sending_then[OF tasks.sending_requests(3) tasks.sending_requests(4)]]] q(2)
  show ?thesis
    by (simp add: s subscriber_started_def consumer_started_def subscriber_listens_def subscriber_bind_begin_def subscriber_consume_begin_def)
qed

lemma viewer_is_wired:
  assumes "reaching connect" "viewer_starts conn_reaches connect v c (Inr ()) v' c'"
  shows "\<exists>q. vw_queue v' = Some q \<and> cn_running (vw_life v') \<and>
    sends [asked (vw_channel v) EXCHANGE EXCHANGE_DECLARE [(''exchange'', vw_exchange v), (''type'', S ''fanout'')],
           asked (vw_channel v) QUEUE QUEUE_DECLARE [(''queue'', [])],
           asked (vw_channel v) QUEUE QUEUE_BIND [(''queue'', q), (''exchange'', vw_exchange v), (''routing_key'', [])],
           asked (vw_channel v) BASIC BASIC_CONSUME [(''queue'', q)]] c c'"
proof -
  obtain q c1 t where q: "viewer_declares conn_reaches connect v c (Inr q) c1"
    "viewer_listens conn_reaches v q c1 (Inr t) c'" and v: "v' = viewer_started q v"
    using assms(2) by (auto simp: viewer_starts_def elim: listens.cases)
  have "sends [asked (vw_channel v) EXCHANGE EXCHANGE_DECLARE [(''exchange'', vw_exchange v), (''type'', S ''fanout'')],
      asked (vw_channel v) QUEUE QUEUE_DECLARE [(''queue'', [])]] c c1"
    using sendingD[OF sending_quiet[OF tasks.sending_opens[OF reaching_sends[OF assms(1)]]
        sending_then[OF tasks.sending_requests(1) tasks.sending_requests(2)]]] q(1)
    by (simp add: viewer_declares_def declare_registry_begin_def viewer_queue_begin_def)
  from sends_trans[OF this sendingD[OF sending_then[OF tasks.sending_requests(3) tasks.sending_requests(4)]]] q(2)
  show ?thesis
    by (simp add: v viewer_started_def consumer_started_def viewer_listens_def viewer_bind_begin_def viewer_consume_begin_def)
qed

text \<open>A publisher has declared its exchange, the dead-letter processor its queue before it consumes it.\<close>

lemma publisher_is_wired:
  assumes "reaching connect" "publisher_starts conn_reaches connect p c (Inr ()) p' c'"
  shows "pb_started p' \<and> sends [asked (pb_channel p) EXCHANGE EXCHANGE_DECLARE [(''exchange'', pb_exchange p), (''type'', pb_type p)]] c c'"
proof -
  have "sending [asked (pb_channel p) EXCHANGE EXCHANGE_DECLARE [(''exchange'', pb_exchange p), (''type'', pb_type p)]]
      (publisher_asks conn_reaches connect p)"
    unfolding publisher_asks_def publisher_start_begin_def
    by (intro sending_quiet tasks.sending_opens[OF reaching_sends[OF assms(1)]] tasks.sending_requests)
  then show ?thesis
    using assms(2) by (auto simp: publisher_starts_def started_by_def publisher_started_def intro: sendingD)
qed

lemma announcer_is_wired:
  assumes "reaching connect" "announcer_starts conn_reaches connect a c (Inr ()) a' c'"
  shows "an_started a' \<and> sends [asked (an_channel a) EXCHANGE EXCHANGE_DECLARE [(''exchange'', an_exchange a), (''type'', S ''fanout'')]] c c'"
proof -
  have "sending [asked (an_channel a) EXCHANGE EXCHANGE_DECLARE [(''exchange'', an_exchange a), (''type'', S ''fanout'')]]
      (announcer_asks conn_reaches connect a)"
    unfolding announcer_asks_def announcer_start_begin_def declare_registry_begin_def
    by (intro sending_quiet tasks.sending_opens[OF reaching_sends[OF assms(1)]] tasks.sending_requests)
  then show ?thesis
    using assms(2) by (auto simp: announcer_starts_def started_by_def announcer_started_def intro: sendingD)
qed

lemma dlq_is_wired:
  assumes "reaching connect" "dlq_starts conn_reaches connect q c (Inr ()) q' c'"
  shows "cn_running (dq_life q') \<and> sends [asked (dq_channel q) QUEUE QUEUE_DECLARE [(''queue'', dq_name q)],
    asked (dq_channel q) BASIC BASIC_CONSUME [(''queue'', dq_name q)]] c c'"
proof -
  have "sending ([asked (dq_channel q) QUEUE QUEUE_DECLARE [(''queue'', dq_name q)]] @
      [asked (dq_channel q) BASIC BASIC_CONSUME [(''queue'', dq_name q)]]) (dlq_asks conn_reaches connect q)"
    unfolding dlq_asks_def dlq_declare_begin_def dlq_consume_begin_def
    by (intro sending_quiet sending_then tasks.sending_opens[OF reaching_sends[OF assms(1)]] tasks.sending_requests tasks.sending_profile)
  then show ?thesis
    using assms(2) by (auto simp: dlq_starts_def started_by_def dlq_started_def consumer_started_def intro: sendingD)
qed

text \<open>
  C13. A served mesh service is wired. When \<open>start\<close> of a mesh service has returned a queue, whatever
  the other tasks did meanwhile, and the RPC server made from it has started on the same
  connection, then the exchange, the queue, a binding for each routing key of the service and the
  consumer have been asked for, in this order, the bindings and the consumer for the queue the broker named, and
  both are marked as started. A \<open>start\<close> that raised leaves the service unstarted, and no server can be made from it. This is
  so for every \<open>connect\<close> made of steps of the connection, as \<open>connects\<close> is (lemma \<open>connects_reaching\<close>).\<close>

theorem served_mesh_is_wired:
  assumes "\<forall>a v b. connect a v b \<longrightarrow> conn_reaches a b" "mesh_starts conn_reaches connect now m c r m' c1"
  shows "case r of
      Inr q \<Rightarrow> mesh_is_started m' \<and>
        (conn_reaches c1 c2 \<and> server_from_mesh m' auth = Inr sv \<and> server_starts conn_reaches connect sv c2 (Inr ()) sv' c' \<longrightarrow>
          cn_running (sv_life sv') \<and>
          sends ([asked (ms_channel m) EXCHANGE EXCHANGE_DECLARE [(''exchange'', ms_exchange m), (''type'', S ''direct'')],
                  asked (ms_channel m) QUEUE QUEUE_DECLARE [(''queue'', ms_queue_name m)]]
            @ map (\<lambda>k. asked (ms_channel m) QUEUE QUEUE_BIND
                    [(''queue'', q), (''exchange'', ms_exchange m), (''routing_key'', k)]) (ms_keys m)
            @ [asked (ms_channel m) BASIC BASIC_CONSUME [(''queue'', q)]]) c c')
    | Inl e \<Rightarrow> ms_started m' = ms_started m \<and> (\<not> ms_started m \<longrightarrow> (\<exists>e. server_from_mesh m' auth = Inl e))"
proof (cases r)
  case (Inl e)
  then have "ms_started m' = ms_started m" using assms(2) by (simp add: failed_start_starts_nothing(1))
  then show ?thesis using Inl by (auto simp: server_from_mesh_def mesh_is_started_def split: option.split)
next
  case (Inr q)
  have quiet: "sending [] connect" using assms(1) by (intro reaching_sends) (simp add: reaching_def)
  obtain a where a: "mesh_declares conn_reaches connect m c (Inr q) a" "mesh_serves conn_reaches (mesh_declared q m) q now a (Inr ()) c1"
    and m': "m' = snd (mesh_finish (mesh_declared q m))"
    using assms(2) Inr by (auto elim: mesh_starts.cases)
  have m: "ms_queue m' = Some q" "ms_started m'" "ms_channel m' = ms_channel m" "ms_keys (mesh_declared q m) = ms_keys m"
    "ms_channel (mesh_declared q m) = ms_channel m" "ms_exchange (mesh_declared q m) = ms_exchange m"
    by (simp_all add: m' mesh_finish_def mesh_declared_def)
  note wired = sends_trans[OF sendingD[OF tasks.sending_mesh_declares[OF quiet] a(1)]
      sendingD[OF tasks.sending_mesh_serves a(2), unfolded m]]
  have "cn_running (sv_life sv') \<and> sends (([asked (ms_channel m) EXCHANGE EXCHANGE_DECLARE [(''exchange'', ms_exchange m), (''type'', S ''direct'')],
                  asked (ms_channel m) QUEUE QUEUE_DECLARE [(''queue'', ms_queue_name m)]]
            @ map (\<lambda>k. asked (ms_channel m) QUEUE QUEUE_BIND
                    [(''queue'', q), (''exchange'', ms_exchange m), (''routing_key'', k)]) (ms_keys m))
            @ [asked (ms_channel m) BASIC BASIC_CONSUME [(''queue'', q)]]) c c'"
    if h: "conn_reaches c1 c2" "server_from_mesh m' auth = Inr sv" "server_starts conn_reaches connect sv c2 (Inr ()) sv' c'"
  proof -
    note sv = server_consumes[OF h(2) m(1) h(3), unfolded m(3)]
    from sends_trans[OF tasks.others_quiet[OF h(1)] sv(2)]
    have "sends [asked (ms_channel m) BASIC BASIC_CONSUME [(''queue'', q)]] c1 c'" by simp
    from sends_trans[OF wired this] sv(1) show ?thesis by blast
  qed
  then show ?thesis using m(1,2) by (simp add: Inr mesh_is_started_def)
qed

end
