(* ===== verification/Served.thy ===== *)
theory Served
  imports Starting
begin

text \<open>
  A broker that answers: a run of \<open>start\<close> of a mesh service and of the server made from it, from an
  open connection to the answer to the consumer.
\<close>

section \<open>A request and its answer\<close>

definition writable :: "conn \<Rightarrow> bool" where
  "writable c \<longleftrightarrow> c_writer c \<and> c_buffer c = [] \<and> \<not> c_closed c \<and> c_frame_max c = 64"

lemma method_frame_ok:
  "length p \<le> 56 \<Longrightarrow> \<exists>bs. encode_frame \<lparr>frame_type = METHOD, channel = 1, payload = p\<rparr> 64 = Inr bs"
  by (simp add: encode_frame_Inr FRAME_OVERHEAD_def)

text \<open>Sending: the future is the next one, and only output, waiters and futures change.\<close>

lemma sent_ok:
  assumes "writable c" "encode_method m = Inr p" "length p \<le> 56"
  shows "\<exists>bs. seq_s (send_method 1 m) (expect_begin key) c =
    (Inr (length (c_wfuts c)), c\<lparr>c_out := c_out c @ bs, c_waiters := dict_set (c_waiters c) key (length (c_wfuts c)),
       c_wfuts := c_wfuts c @ [Pending]\<rparr>)"
proof -
  obtain bs where "encode_frame \<lparr>frame_type = METHOD, channel = 1, payload = p\<rparr> 64 = Inr bs"
    using method_frame_ok[OF assms(3)] by blast
  then show ?thesis
    using assms(1,2) by (intro exI[of _ bs]) (simp add: writable_def send_method_def send_frame_def write_frame_def drain_def expect_begin_def
        create_future_def seq_s_def bind_s_def op_simps)
qed

text \<open>The answer: a read of its frame settles the future of its waiter.\<close>

definition plain_answer :: "amqp_method \<Rightarrow> bool" where
  "plain_answer m \<longleftrightarrow> m_class m \<in> {CHANNEL, EXCHANGE, QUEUE} \<or> m_class m = BASIC \<and> m_method m = BASIC_CONSUME_OK"

lemma answer_read:
  assumes "writable c" "decode_method a = Inr m" "length a \<le> 56" "plain_answer m"
    and "dict_get (c_waiters c) (1, m_class m, m_method m) = Some fut"
  shows "\<exists>chunk. on_chunk chunk c = (Inr True, c\<lparr>c_wfuts := settle fut (Result m) (c_wfuts c)\<rparr>)"
proof -
  obtain bs where bs: "encode_frame \<lparr>frame_type = METHOD, channel = 1, payload = a\<rparr> 64 = Inr bs"
    using method_frame_ok[OF assms(3)] by blast
  have c: "c_buffer c = []" "\<not> c_closed c" "c_frame_max c = 64" using assms(1) by (simp_all add: writable_def)
  have d: "decode_frame bs 64 0 = Inr (\<lparr>frame_type = METHOD, channel = 1, payload = a\<rparr>, length bs)"
    using frames.round[OF TrueI bs, of "[]" "[]"] by simp
  have n: "bs \<noteq> []" using bs encode_frame_length by fastforce
  have "handle_method 1 m x = (Inr (), deliver_to_waiter 1 m x)" for x
    using assms(4) unfolding plain_answer_def handle_method_def Let_def by (elim disjE insertE emptyE conjE) simp_all
  then have h: "handle_frame \<lparr>frame_type = METHOD, channel = 1, payload = a\<rparr> c =
      (Inr (), c\<lparr>c_wfuts := settle fut (Result m) (c_wfuts c)\<rparr>)"
    by (simp add: handle_frame_def assms(2) deliver_to_waiter_def assms(5))
  have b: "set_buffer [] x = x" if "c_buffer x = []" for x using that by (simp add: set_buffer_def)
  have e: "process_frames [] x = (Inr (), x)" if "c_buffer x = []" for x
    using b[OF that] by (simp add: process_frames.simps[of "[]" x] decode_frame_def)
  have "process_frames bs c = (Inr (), c\<lparr>c_wfuts := settle fut (Result m) (c_wfuts c)\<rparr>)"
    using n by (simp add: process_frames.simps[of bs c] c(3) d b[OF c(1)] h e c(1))
  then show ?thesis using c n by (intro exI[of _ bs]) (simp add: on_chunk_def)
qed

text \<open>
  Together: the request is sent, the answer arrives, and the wait ends with it; channels, state
  machine and confirm trackers are as they were.
\<close>

definition untouched :: "conn \<Rightarrow> conn \<Rightarrow> bool" where
  "untouched c c' \<longleftrightarrow> writable c' \<and> c_channels c' = c_channels c \<and> c_sm c' = c_sm c \<and> c_confirm c' = c_confirm c"

lemma answered:
  assumes "writable c" "encode_method m = Inr p" "length p \<le> 56"
    and "decode_method a = Inr ans" "length a \<le> 56" "plain_answer ans"
  shows "\<exists>fut c1 c2 c3. seq_s (send_method 1 m) (expect_begin (1, m_class ans, m_method ans)) c = (Inr fut, c1) \<and>
    conn_reaches c1 c2 \<and> fut_done (c_wfuts c2) fut \<and>
    expect_end (1, m_class ans, m_method ans) fut c2 = (Inr ans, c3) \<and> untouched c c3"
proof -
  let ?key = "(1, m_class ans, m_method ans)" and ?n = "length (c_wfuts c)"
  obtain bs where s: "seq_s (send_method 1 m) (expect_begin ?key) c =
      (Inr ?n, c\<lparr>c_out := c_out c @ bs, c_waiters := dict_set (c_waiters c) ?key ?n, c_wfuts := c_wfuts c @ [Pending]\<rparr>)"
    (is "_ = (_, ?c1)")
    using sent_ok[OF assms(1-3)] by blast
  have w: "writable ?c1" using assms(1) by (simp add: writable_def)
  obtain chunk where r: "on_chunk chunk ?c1 = (Inr True, ?c1\<lparr>c_wfuts := settle ?n (Result ans) (c_wfuts ?c1)\<rparr>)" (is "_ = (_, ?c2)")
    using answer_read[OF w assms(4-6), of ?n] by auto
  have f: "c_wfuts ?c2 ! ?n = Result ans" "fut_done (c_wfuts ?c2) ?n" by (simp_all add: settle_def fut_done_def)
  have "expect_end ?key ?n ?c2 = (Inr ans, ?c2\<lparr>c_waiters := dict_del (c_waiters ?c2) ?key\<rparr>)" (is "_ = (_, ?c3)")
    using f(1) by (simp add: expect_end_def)
  moreover have "untouched c ?c3" using assms(1) by (simp add: untouched_def writable_def)
  moreover have "conn_reaches ?c1 ?c2" using r by (intro conn_step_reaches conn_next.Chunk)
  ultimately show ?thesis using s f(2) by blast
qed

section \<open>Requests on an open channel\<close>

definition in_use :: "conn \<Rightarrow> bool" where
  "in_use c \<longleftrightarrow> writable c \<and> sm_is_open (c_sm c) \<and> dict_get (c_channels c) 1 = Some \<lparr>ch_id = 1, ch_state = Ch_OPEN\<rparr>"

lemma asks_answered:
  assumes "in_use c" "encode_method m = Inr p" "length p \<le> 56"
    and "decode_method a = Inr ans" "length a \<le> 56" "plain_answer ans"
    and "\<And>fut c2 c3. expect_end (1, m_class ans, m_method ans) fut c2 = (Inr ans, c3) \<Longrightarrow> f fut c2 = (Inr v, c3)"
  shows "\<exists>c'. asks_for conn_reaches (1, m_class ans, m_method ans) (request 1 m (m_class ans) (m_method ans)) f c (Inr v) c' \<and> in_use c'"
proof -
  let ?c0 = "c\<lparr>c_channels := dict_set (c_channels c) 1 \<lparr>ch_id = 1, ch_state = Ch_OPEN\<rparr>\<rparr>"
  have o: "channel_open_for_ops 1 c = (Inr (), ?c0)"
    using assms(1) by (simp add: in_use_def channel_open_for_ops_def with_channel_def ch_assert_open_for_ops_def)
  have "writable ?c0" using assms(1) by (simp add: in_use_def writable_def)
  from answered[OF this assms(2-6)] obtain fut c1 c2 c3 where
    "seq_s (send_method 1 m) (expect_begin (1, m_class ans, m_method ans)) ?c0 = (Inr fut, c1)"
    and w: "conn_reaches c1 c2" "fut_done (c_wfuts c2) fut" "expect_end (1, m_class ans, m_method ans) fut c2 = (Inr ans, c3)"
    and u: "untouched ?c0 c3" by blast
  then have "request 1 m (m_class ans) (m_method ans) c = (Inr fut, c1)"
    by (simp add: request_def seq_s_def[of "channel_open_for_ops 1"] bind_s_def[of "channel_open_for_ops 1"] o)
  moreover have "in_use c3" using u assms(1) by (auto simp: in_use_def untouched_def)
  ultimately show ?thesis
    using w assms(7)[OF w(3)] by (auto simp: asks_for_def then_run_def runs_def awaits_def)
qed

section \<open>The run\<close>

definition served_mesh :: mesh where
  "served_mesh = \<lparr>ms_identity = S ''p'', ms_exchange = S ''m'', ms_channel = 1, ms_queue_name = S ''q'',
     ms_profile = \<lparr>qp_name = S ''t'', qp_type = S ''classic'', qp_durable = False, qp_delivery_mode = DELIVERY_NON_PERSISTENT,
       qp_ttl = None, qp_dlx = None, qp_dlk = None, qp_limit = None\<rparr>,
     ms_announce = False, ms_registry = [], ms_ttl = DEFAULT_ADVERTISE_TTL_S, ms_instance = S ''i'', ms_keys = [S ''p.a''],
     ms_methods = [S ''a''], ms_queue = None, ms_started = False\<rparr>"

definition served_conn :: conn where
  "served_conn = (conn_init sample_config)\<lparr>c_sm := \<lparr>sm_state = OPEN_OK, sm_heartbeat = 60\<rparr>, c_writer := True\<rparr>"

lemma empty_table: "table_value (VDict []) = Inr (be 4 0)"
  by (simp add: encode_table.simps to_bytes_def)

lemmas encode_evals = encode_method_def encode_args_def int_arg_def int_req_def short_req_def short_arg_def dict_get_or_def
  dict_item_def encode_shortstr_def utf8_ascii utf8_empty bits_arg_def is_set_def byte_of_int_def to_bytes_def table_arg_def empty_table

lemma served_encodes:
  "\<exists>p. encode_method (meth CHANNEL CHANNEL_OPEN [(S ''out_of_band'', VStr [])]) = Inr p \<and> length p \<le> 56"
  "\<exists>p. encode_method (meth EXCHANGE EXCHANGE_DECLARE [(S ''exchange'', VStr (S ''m'')), (S ''type'', VStr (S ''direct'')),
     (S ''durable'', VBool True), (S ''auto_delete'', VBool False), (S ''arguments'', VDict [])]) = Inr p \<and> length p \<le> 56"
  "\<exists>p. encode_method (meth QUEUE QUEUE_DECLARE [(S ''queue'', VStr (S ''q'')), (S ''durable'', VBool False), (S ''exclusive'', VBool False),
     (S ''auto_delete'', VBool True), (S ''arguments'', VDict [])]) = Inr p \<and> length p \<le> 56"
  "\<exists>p. encode_method (meth QUEUE QUEUE_BIND [(S ''queue'', VStr (S ''q'')), (S ''exchange'', VStr (S ''m'')),
     (S ''routing_key'', VStr (S ''p.a'')), (S ''arguments'', VDict [])]) = Inr p \<and> length p \<le> 56"
  "\<exists>p. encode_method (meth BASIC BASIC_CONSUME [(S ''queue'', VStr (S ''q'')), (S ''consumer_tag'', VStr []), (S ''no_ack'', VBool False),
     (S ''exclusive'', VBool False), (S ''arguments'', VDict [])]) = Inr p \<and> length p \<le> 56"
  by (simp_all add: encode_evals del: table_value.simps) (simp_all add: S_def utf8_ascii)

lemma queue_name_read: "utf8_decode [113] = Inr (S ''q'')"
  by (rule utf8_round) (simp add: S_def utf8_ascii)

lemma served_answers:
  "decode_method [0, 20, 0, 11, 0, 0, 0, 0] = Inr (meth CHANNEL CHANNEL_OPEN_OK [(S ''channel_id'', VBytes [])])"
  "decode_method [0, 40, 0, 11] = Inr (meth EXCHANGE EXCHANGE_DECLARE_OK [])"
  "decode_method [0, 50, 0, 11, 1, 113, 0, 0, 0, 0, 0, 0, 0, 0] = Inr (meth QUEUE QUEUE_DECLARE_OK
     [(S ''queue'', VStr (S ''q'')), (S ''message_count'', VInt 0), (S ''consumer_count'', VInt 0)])"
  "decode_method [0, 50, 0, 21] = Inr (meth QUEUE QUEUE_BIND_OK [])"
  "decode_method [0, 60, 0, 21, 0] = Inr (meth BASIC BASIC_CONSUME_OK [(S ''consumer_tag'', VStr [])])"
  by (simp_all add: decode_method_def decode_args_def one_arg_def long_at_def decode_longstr_def short_at_def decode_shortstr_def
      pyslice_def from_be_def utf8_empty int_at_def index_r_def Let_def queue_name_read DEFAULT_FRAME_MAX_def)

lemma exchange_answered:
  assumes "in_use c"
  shows "\<exists>c'. exchange_asked conn_reaches 1 (mesh_exchange_begin served_mesh) c (Inr ()) c' \<and> in_use c'"
proof -
  obtain p where p: "encode_method (meth EXCHANGE EXCHANGE_DECLARE [(S ''exchange'', VStr (S ''m'')), (S ''type'', VStr (S ''direct'')),
      (S ''durable'', VBool True), (S ''auto_delete'', VBool False), (S ''arguments'', VDict [])]) = Inr p" "length p \<le> 56"
    using served_encodes(2) by blast
  from asks_answered[OF assms p served_answers(2), of "exchange_declare_end 1" "()"] show ?thesis
    by (simp add: exchange_asked_def mesh_exchange_begin_def exchange_declare_begin_def exchange_declare_end_def
        served_mesh_def plain_answer_def bind_s_def op_simps)
qed

lemma queue_answered:
  assumes "in_use c"
  shows "\<exists>c'. profile_asked conn_reaches 1 (S ''q'') (ms_profile served_mesh) (mesh_queue_begin served_mesh) c (Inr (S ''q'')) c' \<and> in_use c'"
proof -
  obtain p where p: "encode_method (meth QUEUE QUEUE_DECLARE [(S ''queue'', VStr (S ''q'')), (S ''durable'', VBool False),
      (S ''exclusive'', VBool False), (S ''auto_delete'', VBool True), (S ''arguments'', VDict [])]) = Inr p" "length p \<le> 56"
    using served_encodes(3) by blast
  have "S ''classic'' \<noteq> S ''quorum''" by (simp add: S_def)
  then have b: "mesh_queue_begin served_mesh c = (Inr (True, None), c)"
    by (simp add: mesh_queue_begin_def queue_declare_profile_begin_def check_profile_declare_def ensure_profile_dlx_begin_def
        served_mesh_def bind_s_def op_simps)
  have a: "declare_arguments (ms_profile served_mesh) = []" "qp_durable (ms_profile served_mesh) = False"
    using \<open>S ''classic'' \<noteq> S ''quorum''\<close> by (simp_all add: served_mesh_def declare_arguments_def)
  from asks_answered[OF assms p served_answers(3), of "queue_declare_end 1" "S ''q''"] show ?thesis
    by (simp add: profile_asked_def then_run_def runs_def b ret_s_def queue_asked_def queue_declare_profile_declare_def
        queue_declare_begin_def queue_declare_end_def answer_arg_def a plain_answer_def bind_s_def op_simps dict_item_def)
qed

lemma binds_answered:
  assumes "in_use c"
  shows "\<exists>c'. mesh_serves conn_reaches (mesh_declared (S ''q'') served_mesh) (S ''q'') now c (Inr ()) c' \<and> in_use c'"
proof -
  obtain p where p: "encode_method (meth QUEUE QUEUE_BIND [(S ''queue'', VStr (S ''q'')), (S ''exchange'', VStr (S ''m'')),
      (S ''routing_key'', VStr (S ''p.a'')), (S ''arguments'', VDict [])]) = Inr p" "length p \<le> 56"
    using served_encodes(4) by blast
  have "assert_bind_allowed (mesh_declared (S ''q'') served_mesh) (S ''p.a'') = Inr (S ''p.a'')" by code_simp
  then have b: "mesh_bind_begin (mesh_declared (S ''q'') served_mesh) (S ''q'') (S ''p.a'') =
      queue_bind_begin 1 (S ''q'') (S ''m'') (S ''p.a'')"
    by (simp add: mesh_bind_begin_def served_mesh_def mesh_declared_def bind_s_def op_simps fun_eq_iff)
  have k: "ms_keys (mesh_declared (S ''q'') served_mesh) = [S ''p.a'']" "ms_channel (mesh_declared (S ''q'') served_mesh) = 1"
    "\<not> ms_announce (mesh_declared (S ''q'') served_mesh)"
    by (simp_all add: served_mesh_def mesh_declared_def)
  from asks_answered[OF assms p served_answers(4), of "queue_bind_end 1" "()"] show ?thesis
    by (simp add: mesh_serves_def k b then_run_def runs_def ret_s_def bind_asked_def queue_bind_begin_def queue_bind_end_def
        plain_answer_def bind_s_def op_simps)
qed

lemma consume_answered:
  assumes "in_use c"
  shows "\<exists>t c'. consume_asked conn_reaches 1 (basic_consume_begin 1 (S ''q'') []) c (Inr t) c'"
proof -
  obtain p where p: "encode_method (meth BASIC BASIC_CONSUME [(S ''queue'', VStr (S ''q'')), (S ''consumer_tag'', VStr []),
      (S ''no_ack'', VBool False), (S ''exclusive'', VBool False), (S ''arguments'', VDict [])]) = Inr p" "length p \<le> 56"
    using served_encodes(5) by blast
  from asks_answered[OF assms p served_answers(5), of "basic_consume_end 1" "[]"] show ?thesis
    by (auto simp: consume_asked_def basic_consume_begin_def basic_consume_end_def answer_arg_def plain_answer_def bind_s_def
        op_simps dict_item_def)
qed


text \<open>The channel: it is registered before the request is written, and open once the answer is read.\<close>

lemma channel_opened: "\<exists>c'. opens_channel conn_reaches 1 served_conn (Inr 1) c' \<and> in_use c'"
proof -
  let ?c = "served_conn\<lparr>c_channels := [(1, \<lparr>ch_id = 1, ch_state = Ch_OPENING\<rparr>)], c_confirm := [(1, tracker_init)],
    c_mandatory := [(1, [])], c_return_by_tag := [(1, [])]\<rparr>"
  obtain p where p: "encode_method (meth CHANNEL CHANNEL_OPEN [(S ''out_of_band'', VStr [])]) = Inr p" "length p \<le> 56"
    using served_encodes(1) by blast
  have w: "writable ?c" by (simp add: writable_def served_conn_def conn_init_def sample_config_def)
  from answered[OF this p served_answers(1)] obtain fut c1 c2 c3 where
    s: "seq_s (send_method 1 (meth CHANNEL CHANNEL_OPEN [(S ''out_of_band'', VStr [])])) (expect_begin (1, CHANNEL, CHANNEL_OPEN_OK)) ?c = (Inr fut, c1)"
    and r: "conn_reaches c1 c2" "fut_done (c_wfuts c2) fut"
    and e: "expect_end (1, CHANNEL, CHANNEL_OPEN_OK) fut c2 = (Inr (meth CHANNEL CHANNEL_OPEN_OK [(S ''channel_id'', VBytes [])]), c3)"
    and u: "untouched ?c c3" by (auto simp: plain_answer_def)
  have b: "open_channel_begin 1 served_conn = (Inr fut, c1)"
    using s by (simp add: open_channel_begin_def sm_open_or_raise_def served_conn_def conn_init_def sm_is_open_def seq_s_def bind_s_def
        op_simps with_channel_def chan_sm_init_def chan_ops dict_has_def)
  have "c_channels c3 = [(1, \<lparr>ch_id = 1, ch_state = Ch_OPENING\<rparr>)]" using u by (simp add: untouched_def)
  then have "open_channel_end 1 fut c2 = (Inr 1, c3\<lparr>c_channels := [(1, \<lparr>ch_id = 1, ch_state = Ch_OPEN\<rparr>)]\<rparr>)"
    by (simp add: open_channel_end_def bind_s_def e seq_s_def op_simps with_channel_def chan_ops)
  moreover have "in_use (c3\<lparr>c_channels := [(1, \<lparr>ch_id = 1, ch_state = Ch_OPEN\<rparr>)]\<rparr>)"
    using u by (simp add: in_use_def untouched_def writable_def served_conn_def conn_init_def sm_is_open_def)
  ultimately show ?thesis
    using b r by (auto simp: opens_channel_def asks_for_def then_run_def runs_def awaits_def)
qed


lemma served_mesh_is_wired_witness:
  "\<exists>m' c1 sv sv' c'. mesh_starts conn_reaches (\<lambda>c r c'. r = Inr () \<and> c' = c) DEFAULT_ADVERTISE_TTL_S
       served_mesh served_conn (Inr (S ''q'')) m' c1 \<and> server_from_mesh m' None = Inr sv \<and>
     server_starts conn_reaches (\<lambda>c r c'. r = Inr () \<and> c' = c) sv c1 (Inr ()) sv' c' \<and> mesh_is_started m' \<and> cn_running (sv_life sv') \<and>
     sends [asked 1 EXCHANGE EXCHANGE_DECLARE [(''exchange'', S ''m''), (''type'', S ''direct'')],
            asked 1 QUEUE QUEUE_DECLARE [(''queue'', S ''q'')],
            asked 1 QUEUE QUEUE_BIND [(''queue'', S ''q''), (''exchange'', S ''m''), (''routing_key'', S ''p.a'')],
            asked 1 BASIC BASIC_CONSUME [(''queue'', S ''q'')]] served_conn c'"
proof -
  let ?connect = "\<lambda>c r c'. r = Inr () \<and> c' = c" and ?now = DEFAULT_ADVERTISE_TTL_S
  have f: "ms_channel served_mesh = 1" "ms_queue_name served_mesh = S ''q''" "ms_exchange served_mesh = S ''m''"
    "ms_keys served_mesh = [S ''p.a'']" by (simp_all add: served_mesh_def)
  obtain a where a: "opens_channel conn_reaches 1 served_conn (Inr 1) a" "in_use a" using channel_opened by blast
  obtain b where b: "exchange_asked conn_reaches 1 (mesh_exchange_begin served_mesh) a (Inr ()) b" "in_use b"
    using exchange_answered[OF a(2)] by blast
  obtain d where d: "profile_asked conn_reaches 1 (S ''q'') (ms_profile served_mesh) (mesh_queue_begin served_mesh) b (Inr (S ''q'')) d" "in_use d"
    using queue_answered[OF b(2)] by blast
  obtain e where e: "mesh_serves conn_reaches (mesh_declared (S ''q'') served_mesh) (S ''q'') ?now d (Inr ()) e" "in_use e"
    using binds_answered[OF d(2)] by blast
  define m' where "m' = snd (mesh_finish (mesh_declared (S ''q'') served_mesh))"
  have "mesh_declares conn_reaches ?connect served_mesh served_conn (Inr (S ''q'')) d"
    using a(1) b(1) d(1) by (auto simp: mesh_declares_def f opens_def then_run_def)
  from mesh_starts.Started[OF this e(1)]
  have m: "mesh_starts conn_reaches ?connect ?now served_mesh served_conn (Inr (S ''q'')) m' e" by (simp only: m'_def)
  have "mesh_is_started m'" "ms_queue m' = Some (S ''q'')" "ms_channel m' = 1"
    by (simp_all add: m'_def mesh_finish_def mesh_declared_def mesh_is_started_def served_mesh_def)
  then obtain sv where sv: "server_from_mesh m' None = Inr sv" "sv_owns_conn sv = False" "sv_declare sv = False"
    "sv_queue sv = S ''q''" "sv_channel sv = 1"
    by (auto simp: server_from_mesh_def server_init_def)
  obtain t c' where "consume_asked conn_reaches 1 (basic_consume_begin 1 (S ''q'') []) e (Inr t) c'"
    using consume_answered[OF e(2)] by blast
  then have s: "server_starts conn_reaches ?connect sv e (Inr ()) (server_started sv) c'"
    using e(2) by (auto simp: server_starts_def started_by_def server_asks_def sv(2-5) server_consume_begin_def server_check_conn_def
        then_run_def runs_def ret_s_def in_use_def)
  have r: "\<forall>a v b. ?connect a v b \<longrightarrow> conn_reaches a b" "conn_reaches e e" by (simp_all add: conn_reaches_def)
  from served_mesh_is_wired[OF r(1) m, where ?c2.0 = e and auth = None and sv = sv and sv' = "server_started sv" and c' = c'] m r(2) sv(1) s
  show ?thesis unfolding f list.map append.simps sum.case by blast
qed

end
