(* ===== verification/Spec2Isabelle.thy ===== *)
theory Spec2Isabelle
  imports Frame FieldTable ConnectionSM ChannelSM Methods Confirm Correlation Errors Acl QueueProfile Registry Mesh Context Events RpcServer RpcClient
    RpcCall Republish ParkedCall Permissions TlsMaterial Credentials ConnEdges Heartbeat Starting Served
begin

text \<open>
  Verification library of nuropb-rmq: an asyncio client for AMQP 0-9-1 with JSON-RPC patterns on top
  of it. The program is the package under \<^verbatim>\<open>src/src/nuropb_rmq\<close>.

  \<^bold>\<open>The parts of the program and how they interact\<close>

  An \<open>AmqpConnection\<close> (\<^verbatim>\<open>transport/connection.py\<close>) owns a socket, two kinds of state machines
  (\<^verbatim>\<open>protocol/connection_sm.py\<close>, \<^verbatim>\<open>protocol/channel_sm.py\<close>), the futures of the calls that wait for an
  answer of the broker, a confirm tracker for each channel (\<^verbatim>\<open>transport/confirm.py\<close>) and two queues,
  of messages and of returned publishes. Calls of the user write frames (\<^verbatim>\<open>transport/frame.py\<close>) with
  methods and headers (\<^verbatim>\<open>protocol/methods.py\<close>); one task reads frames, answers the broker, settles
  futures and fills the queues; another watches heartbeats. Any failure of either of them goes
  through \<open>_notify_loss\<close>, which must reach everybody who waits. A \<open>Session\<close> (\<^verbatim>\<open>session/session.py\<close>)
  adds an exclusive reply queue and the table of outstanding requests (\<^verbatim>\<open>session/correlation.py\<close>);
  after a loss it fails them or reconnects (\<^verbatim>\<open>session/reconnect.py\<close>) and publishes them again.
  The patterns use both: \<open>RpcClient\<close> and \<open>RpcServer\<close> (\<^verbatim>\<open>patterns/rpc.py\<close>), whose bodies are JSON-RPC
  (\<^verbatim>\<open>patterns/envelope.py\<close>), whose claims are checked by \<^verbatim>\<open>patterns/context.py\<close> and whose queues come
  from \<^verbatim>\<open>patterns/mesh.py\<close> and \<^verbatim>\<open>config/queue_profile.py\<close>; notifications, dead letters and the
  discovery registry are consumers of their own.

  \<^bold>\<open>The theories\<close>

  \<^item> \<^verbatim>\<open>Prelude\<close>, \<^verbatim>\<open>PyValues\<close>, \<^verbatim>\<open>Utf8\<close>, \<^verbatim>\<open>StateOps\<close>: the vocabulary. A call that may raise has a value
    in \<open>py_exc + 'a\<close>; a dict is an association list in insertion order; a \<open>str\<close> is a list of code points
    and \<open>bytes\<close> a list of 8-bit words; an operation on a state that may raise returns the result
    and the state it left, because Python does not roll back. \<open>bind_s\<close> and \<open>seq_s\<close> compose such
    operations and \<open>keeps\<close> lifts a relation between states through the composition.
  \<^item> \<^verbatim>\<open>WireCodec\<close>, \<^verbatim>\<open>FailClosed\<close>, \<^verbatim>\<open>Futures\<close>: the contracts several components share, as locales.
    \<open>wire_codec\<close> is an encoder and an offset-passing decoder that inverts it inside any buffer;
    \<open>stream_codec\<close> adds what a receive loop needs, and gives that the cutting of the stream does not
    matter. \<open>fail_closed\<close> is a state machine whose refused operations lead to an error state that
    refuses everything; \<open>pending_table\<close> and \<open>verdicts\<close> are tables of futures in which the first verdict
    wins. Each is interpreted on the model of the code: strings, tables and frames; both state
    machines; the confirm tracker and the correlation table.
  \<^item> \<^verbatim>\<open>Frame\<close>, \<^verbatim>\<open>FieldTable\<close> (\<^verbatim>\<open>transport/frame.py\<close>), \<^verbatim>\<open>MethodIds\<close>, \<^verbatim>\<open>Methods\<close> (\<^verbatim>\<open>protocol/methods.py\<close>): the
    wire. Round trips of frames, tables, methods and content headers; bounds on what is accepted;
    where the decoders are more liberal than the encoders. \<^verbatim>\<open>DecodeErrors\<close>: what the decoders raise.
  \<^item> \<^verbatim>\<open>ConnectionSM\<close>, \<^verbatim>\<open>ChannelSM\<close> (\<^verbatim>\<open>protocol\<close>): each method of the machines, with the states in the order
    of the handshake; a connection is open only after exactly the handshake.
  \<^item> \<^verbatim>\<open>Confirm\<close>, \<^verbatim>\<open>Ids\<close>, \<^verbatim>\<open>Correlation\<close> (\<^verbatim>\<open>transport/confirm.py\<close>, \<^verbatim>\<open>session/ids.py\<close>,
    \<^verbatim>\<open>session/correlation.py\<close>): tables over a heap of futures, and their refinement to the first verdict.
  \<^item> \<^verbatim>\<open>Conn\<close>, \<^verbatim>\<open>ConnReader\<close>, \<^verbatim>\<open>ConnOps\<close>, \<^verbatim>\<open>ConnPublish\<close>, \<^verbatim>\<open>ConnLife\<close> (\<^verbatim>\<open>transport/connection.py\<close>): the
    connection. \<open>conn\<close> is the object (its fields are those of \<open>__init__\<close>, the socket is the bytes
    written to it); every stretch of code between two awaits is one operation, so that
    \<open>x_begin\<close> ends with the future waited for and \<open>x_end\<close> starts with the value it brings. \<open>Publishing\<close>
    joins the stretches of \<open>basic_publish\<close> into what its callers see.
  \<^item> \<^verbatim>\<open>ConnInv\<close>, \<^verbatim>\<open>ConnSteps\<close>, \<^verbatim>\<open>ConnWaits\<close>, \<^verbatim>\<open>ConnSafety\<close>, \<^verbatim>\<open>ConnEdges\<close>: the proofs about it. \<open>evolves\<close> is what every
    operation keeps (well-formedness, finished futures, written bytes, loss and closure), \<open>conn_next\<close>
    has one rule for each operation with any arguments, so that the interleavings of the tasks are
    its runs. \<^verbatim>\<open>ConnWaits\<close> says which futures the tables know of and what \<open>told\<close> means: all of them are
    done, and both queues have a sentinel. \<^verbatim>\<open>ConnSafety\<close> has the promises: the reader fails closed, a loss
    is told to all of them and once, publishes come back, reads may be cut anywhere.
    \<^verbatim>\<open>ConnEdges\<close> has the concrete connections and the edges (overlapping waits, empty bodies).
    \<^verbatim>\<open>Heartbeat\<close> puts the heartbeat task in time: \<open>watch_next\<close> has its turns, the reads and the steps of the
    other tasks with their times, and a silent peer is noticed after two and a half intervals.
  \<^item> \<^verbatim>\<open>TlsMaterial\<close> (\<^verbatim>\<open>transport/tls_material.py\<close>), \<^verbatim>\<open>QueueProfile\<close> (\<^verbatim>\<open>config/queue_profile.py\<close>), \<^verbatim>\<open>Acl\<close>,
    \<^verbatim>\<open>Errors\<close> (\<^verbatim>\<open>patterns\<close>): validated settings, permissions and error data. \<^verbatim>\<open>Permissions\<close>
    holds the permission templates against the names that sessions and mesh services use. \<^verbatim>\<open>Credentials\<close>: how the connection
    prints its configuration and how it puts the client certificate on disk and takes it away again.
  \<^item> \<^verbatim>\<open>Floats\<close>, \<^verbatim>\<open>FloatText\<close>: binary64 as bit patterns with exact rounding, \<open>repr()\<close> with the shortest
    digits and \<open>float()\<close> of a decimal; what is printed is read back to the last bit. \<^verbatim>\<open>Json\<close>,
    \<^verbatim>\<open>Envelope\<close>: \<open>json.dumps\<close> and \<open>json.loads\<close> as they are used, and the bodies built from
    them. \<^verbatim>\<open>Context\<close>: claims; \<^verbatim>\<open>Mesh\<close>: identities and bindings; \<^verbatim>\<open>Registry\<close>: advertisements and their
    store; \<^verbatim>\<open>Events\<close>: notifications and dead letters.
  \<^item> \<^verbatim>\<open>Tasks\<close>, \<^verbatim>\<open>Consumer\<close>: the tasks of the readers and of the consumers, how they end and how they are
    closed; the loop the four consumers share. The locale \<open>message_consumer\<close> is their contract: a message that was handled
    normally has been settled, once, and nothing else has. It is interpreted on the RPC server, the event
    subscriber, the dead-letter processor and the registry's viewer, each where it is defined, and
    gives that a loop settles in order up to its first exception (the property of this theory).
  \<^item> \<^verbatim>\<open>Reconnect\<close>, \<^verbatim>\<open>Session\<close>, \<^verbatim>\<open>RpcClient\<close>, \<^verbatim>\<open>RpcServer\<close>: the policy and its loop, a session with its
    requests as the transition system \<open>session_next\<close>, and the two ends of a call. \<^verbatim>\<open>RpcCall\<close> puts everything
    together: the request on the wire, the broker (of which only is used that it delivers the header and
    the body of a publish as they were sent), the server, the reply on the wire and the caller's future.
    \<^verbatim>\<open>Republish\<close> puts a reconnect together: the new epoch, the loop over the parked requests and the
    task that gives up, with any behaviour of the other tasks at every await. The locale
    \<open>republish_order\<close> is what the loop keeps once its stretches keep it, and \<open>reconnect_order\<close> extends it to
    the teardown and the start of the new epoch. The second is interpreted on the requests that still wait and on the order of
    the futures, the first also on the session staying open. \<^verbatim>\<open>ParkedCall\<close> follows one call through all of it: published,
    lost with the connection, published again in the new epoch, answered there.
  \<^item> \<^verbatim>\<open>Starting\<close>, \<^verbatim>\<open>Served\<close>: \<open>connect\<close>, \<open>open_channel\<close> and the \<open>start\<close> of the mesh service, the server, the
    publishers and the consumers from call to return, as relations between a connection, a result and
    the connection left. The locale \<open>other_tasks\<close> says of what happens during an await that it is steps of the connection; it is
    interpreted on all of them (\<open>conn_reaches\<close>), and gives the order of what a start has asked
    for. \<^verbatim>\<open>Served\<close> has a run of all this against a broker that answers.

  \<^bold>\<open>Awaits, time and tasks\<close>

  asyncio switches tasks only at awaits, so an interleaving is a sequence of stretches. What is
  waited for is not modelled as a scheduler: a future that is still pending makes the stretch after
  the await unreachable, a time-out is a stretch of its own, and the transition systems allow every
  stretch at any time, which includes the schedules of asyncio but for those in which \<open>writer.drain()\<close> suspends: the buffer of the transport is
  taken to be below its limit, where \<open>drain\<close> returns at once. (For the operations that only write and wait, the two halves are steps
  of their own.) The reconnect and the starts have the relation \<open>others\<close> instead. Times are arguments: reals where the
  code only compares them with its own clock, floats where they are written to the wire.

  \<^bold>\<open>Loops and bounds\<close>

  \<open>process_frames\<close> and \<open>drain_buffer\<close> shrink the buffer with every frame; the decoders of tables recurse
  on what is left of the buffer and on the nesting depth that the code bounds (32 in the encoder, 16
  in the decoder); \<open>body_loop\<close> may in principle not end (it would, for an empty chunk), so that it is a
  partial function, shown to end for every payload bound the code lets through; \<open>fresh_id\<close> draws
  ids until one is free, and ends for a generator that yields more ids than there are outstanding
  requests; \<open>attempt_from\<close> counts up to \<open>max_attempts\<close>. \<open>shortest_from\<close> counts its digits with a fuel
  under which the decimal is exact, so that it always finds one; nothing else uses fuel.

  \<^bold>\<open>Parameters\<close>

  What is not in the repository is an argument: PyJWT's \<open>decode\<close>, reading a certificate file,
  the secrets hook and the PKCS#12 parser, \<open>uuid4\<close>, the clock, the user's handlers and callbacks,
  what the network delivers. The hypotheses on them are in the statements that use them.

  \<^bold>\<open>Not modelled\<close>

  The TLS handshake itself; the back-pressure of the transport (\<open>drain\<close> that suspends or raises inside of the
  handshake, of \<open>open_channel\<close>, \<open>close\<close>, a publish or an answer of the read loop); cancellation of a task at an await inside of an operation; \<open>int()\<close> and \<open>float()\<close> of a text
  and \<open>str()\<close> of a list (what a foreign peer may put where this library writes a number or a text; such a
  value is marked \<open>Unmodelled\<close>) and the recursion limit of the interpreter. The interpolated values in the
  text of most exceptions are left out. \<^verbatim>\<open>api.py\<close>, the \<open>__init__\<close> modules and \<^verbatim>\<open>version.py\<close> have names only;
  \<^verbatim>\<open>src/bench\<close>, \<^verbatim>\<open>src/examples\<close>, \<^verbatim>\<open>src/scripts\<close> and \<^verbatim>\<open>src/tests\<close> use the library and are not part of it.
\<close>

section \<open>Consumers\<close>

lemma consumer_loops_settle:
  "server_loop jwt handler sv ws c = Some (r, c') \<Longrightarrow> cn_running (sv_life sv) \<Longrightarrow> \<forall>w \<in> set ws. quiet (\<lambda>c. c) (sv_channel sv) w \<Longrightarrow>
     settled_in_order (server_handle jwt (sv_auth sv) handler (sv_channel sv)) (\<lambda>c. c) (sv_channel sv) ws c r c'"
  "subscriber_loop notify sb ws c = Some (r, c') \<Longrightarrow> cn_running (sb_life sb) \<Longrightarrow> \<forall>w \<in> set ws. quiet (\<lambda>c. c) (sb_channel sb) w \<Longrightarrow>
     settled_in_order (\<lambda>msg c. Some (event_handle notify (sb_channel sb) msg c)) (\<lambda>c. c) (sb_channel sb) ws c r c'"
  "dlq_loop dq ws c = Some (r, c') \<Longrightarrow> cn_running (dq_life dq) \<Longrightarrow> \<forall>w \<in> set ws. quiet (\<lambda>c. c) (dq_channel dq) w \<Longrightarrow>
     settled_in_order (dlq_handle (dq_channel dq)) (\<lambda>c. c) (dq_channel dq) ws c r c'"
  "viewer_loop clock vw us s = Some (r, s') \<Longrightarrow> cn_running (vw_life vw) \<Longrightarrow> \<forall>w \<in> set us. quiet snd (vw_channel vw) w \<Longrightarrow>
     settled_in_order (\<lambda>msg (st, c). Some (viewer_handle (vw_channel vw) (clock msg) msg st c)) snd (vw_channel vw) us s r s'"
  by (simp_all add: server_loop_def subscriber_loop_def dlq_loop_def viewer_loop_def rpc_consumer.loop_settles
      event_consumer.loop_settles dlq_consumer.loop_settles viewer_consumer.loop_settles)

text \<open>
  C14. Consumers settle in order. The RPC server, the event subscriber, the dead-letter processor and
  the viewer of the registry, while they run, settle the messages they handle on their channel each exactly once and in
  the order of delivery, whatever other tasks write in between as long as it settles nothing there. A
  loop that has not raised has settled everything it received; one that has raised, in
  \<open>receive\<close> or in the handling of a message, settled everything before that message and handles nothing after it.\<close>

theorem consumers_settle_in_order:
  "(server_loop jwt handler sv ws c = Some (r, c') \<and> cn_running (sv_life sv) \<and> (\<forall>w \<in> set ws. quiet (\<lambda>c. c) (sv_channel sv) w) \<longrightarrow>
      settled_in_order (server_handle jwt (sv_auth sv) handler (sv_channel sv)) (\<lambda>c. c) (sv_channel sv) ws c r c') \<and>
   (subscriber_loop notify sb ws c = Some (r, c') \<and> cn_running (sb_life sb) \<and> (\<forall>w \<in> set ws. quiet (\<lambda>c. c) (sb_channel sb) w) \<longrightarrow>
      settled_in_order (\<lambda>msg c. Some (event_handle notify (sb_channel sb) msg c)) (\<lambda>c. c) (sb_channel sb) ws c r c') \<and>
   (dlq_loop dq ws c = Some (r, c') \<and> cn_running (dq_life dq) \<and> (\<forall>w \<in> set ws. quiet (\<lambda>c. c) (dq_channel dq) w) \<longrightarrow>
      settled_in_order (dlq_handle (dq_channel dq)) (\<lambda>c. c) (dq_channel dq) ws c r c') \<and>
   (viewer_loop clock vw us s = Some (r, s') \<and> cn_running (vw_life vw) \<and> (\<forall>w \<in> set us. quiet snd (vw_channel vw) w) \<longrightarrow>
      settled_in_order (\<lambda>msg (st, c). Some (viewer_handle (vw_channel vw) (clock msg) msg st c)) snd (vw_channel vw) us s r s')"
  using consumer_loops_settle(1)[of jwt handler sv ws c r c'] consumer_loops_settle(2)[of notify sb ws c r c']
    consumer_loops_settle(3)[of dq ws c r c'] consumer_loops_settle(4)[of clock vw us s r s'] by blast

text \<open>A dead letter nobody waits for.\<close>

definition sample_letter :: incoming where
  "sample_letter = \<lparr>i_tag = 9, i_exchange = [], i_key = [], i_body = [], i_props = [], i_redelivered = False, i_ctag = []\<rparr>"

definition sample_dlq :: "queue_profile \<Rightarrow> dlq" where
  "sample_dlq p = dlq_started \<lparr>dq_name = [100], dq_channel = 1, dq_profile = p, dq_life = consumer_init, dq_unroutable = 0\<rparr>"

lemma sample_ack: "\<exists>c'. basic_ack 1 9 True sample_conn = (Inr (), c')"
proof -
  obtain p where p: "encode_method (ack_method 9) = Inr p" "length p < 20" using sample_call_encodes(4) by blast
  then obtain bs where "encode_frame \<lparr>frame_type = METHOD, channel = 1, payload = p\<rparr> 64 = Inr bs"
    by (auto simp: encode_frame_Inr FRAME_OVERHEAD_def)
  then show ?thesis
    unfolding basic_ack_def ack_method_def[symmetric]
    by (simp add: seq_s_def bind_s_def sample_channel_open write_method_def op_simps p(1) write_frame_def sample_conn_parts
        when_s_eval drain_def)
qed

theorem consumers_settle_in_order_witness:
  "\<exists>p q c'. dlq_terminal = Inr p \<and> q = sample_dlq p \<and>
     dlq_loop q [\<lambda>c. (Inr sample_letter, c)] sample_conn = Some (Inr (), c') \<and>
     settlements 64 1 (drop (length (c_out sample_conn)) (c_out c')) = [9]"
proof -
  let ?ws = "[\<lambda>c. (Inr sample_letter, c)] :: (conn \<Rightarrow> incoming res \<times> conn) list"
  obtain p where p: "dlq_terminal = Inr p"
    by (auto simp: dlq_terminal_def make_profile_Inr post_init_def requires_dlx_def delivery_modes)
  let ?q = "sample_dlq p"
  obtain c' where a: "basic_ack 1 9 True sample_conn = (Inr (), c')" using sample_ack by blast
  have r: "cn_running (dq_life ?q)" "dq_channel ?q = 1" by (simp_all add: sample_dlq_def dlq_started_def consumer_started_def)
  have "dlq_handle 1 sample_letter sample_conn = Some (Inr (), c')"
    by (simp add: dlq_handle_def dlq_handle_begin_def dlq_reply_def dlq_handle_end_def sample_letter_def a)
  then have l: "dlq_loop ?q ?ws sample_conn = Some (Inr (), c')"
    and h: "handled_messages (dlq_handle 1) ?ws sample_conn = [sample_letter]"
    by (simp_all add: dlq_loop_def r)
  have "\<forall>w \<in> set ?ws. quiet (\<lambda>c. c) 1 w" by (auto simp: quiet_def intro: exI[of _ "[]"])
  then have "settled_in_order (dlq_handle 1) (\<lambda>c. c) 1 ?ws sample_conn (Inr ()) c'"
    using consumers_settle_in_order[where dq = ?q and ws = ?ws and c = sample_conn and r = "Inr ()" and c' = c'] l r by simp
  then have "settlements 64 1 (drop (length (c_out sample_conn)) (c_out c')) = [9]"
    using h by (auto simp: settled_in_order_def writes_def sample_conn_parts sample_letter_def)
  then show ?thesis using p l by blast
qed

end
